(* ===== verification/Prelude.thy ===== *)
theory Prelude
  imports Main "HOL-Library.AList" "HOL-Library.Multiset" "HOL-Library.Sublist"
begin

text \<open>
  The vocabulary the component theories share.

  \<^item> The JavaScript values the code computes with: a \<open>bigint\<close> or an integral \<open>number\<close> is an
    \<^typ>\<open>int\<close>; a string is a \<^typ>\<open>string\<close>; a \<open>Map\<close> keeps insertion order, so it is an
    association list (\<open>AList.update\<close> overwrites a key where it stands and appends a new one, as
    \<open>Map.set\<close> does).
  \<^item> The functions of the language the sources call: \<open>toLowerCase\<close>, \<open>trim\<close>, \<open>slice\<close>,
    \<open>BigInt(s)\<close>, \<open>n.toString()\<close>, integer division and \<open>Array.prototype.sort\<close>.
  \<^item> Two interfaces: a book of balances that is credited, and the lemmas about it.
\<close>

named_theorems js_defs "definitions of the JavaScript library functions, for evaluation"

section \<open>Integers\<close>

text \<open>\<open>bigint\<close> division truncates towards zero.\<close>

definition tdiv :: "int \<Rightarrow> int \<Rightarrow> int" where
  "tdiv a b = sgn a * sgn b * (\<bar>a\<bar> div \<bar>b\<bar>)"

lemma tdiv_nonneg: "0 \<le> a \<Longrightarrow> 0 < b \<Longrightarrow> tdiv a b = a div b"
  by (cases "a = 0") (simp_all add: tdiv_def)

lemma tdiv_nonneg_ge0: "0 \<le> a \<Longrightarrow> 0 < b \<Longrightarrow> 0 \<le> tdiv a b"
  by (simp add: tdiv_nonneg pos_imp_zdiv_nonneg_iff)

lemma tdiv_le: "0 \<le> a \<Longrightarrow> 0 < b \<Longrightarrow> tdiv a b * b \<le> a"
proof -
  assume "0 \<le> a" "0 < b"
  moreover have "a div b * b = a - a mod b" by (rule minus_mod_eq_div_mult [symmetric])
  ultimately show ?thesis by (simp add: tdiv_nonneg)
qed

section \<open>Strings\<close>

definition lower_char :: "char \<Rightarrow> char" where
  "lower_char c =
     (if 65 \<le> (of_char c :: nat) \<and> (of_char c :: nat) \<le> 90 then char_of ((of_char c :: nat) + 32) else c)"

text \<open>The same on the bits of a character, for evaluation.\<close>

lemma lower_char_code [code]:
  "lower_char (Char b0 b1 b2 b3 b4 b5 b6 b7) =
     Char b0 b1 b2 b3 b4
       (b5 \<or> (\<not> b7 \<and> b6 \<and> (b0 \<or> b1 \<or> b2 \<or> b3 \<or> b4) \<and> \<not> (b4 \<and> b3 \<and> (b2 \<or> (b1 \<and> b0))))) b6 b7"
  by (cases b0; cases b1; cases b2; cases b3; cases b4; cases b5; cases b6; cases b7) (simp_all add: lower_char_def char_of_def bit_Suc_0_iff)

definition lower :: "string \<Rightarrow> string" where
  [js_defs]: "lower s = map lower_char s"

lemma lower_char_idem [simp]: "lower_char (lower_char c) = lower_char c"
proof (cases "65 \<le> (of_char c :: nat) \<and> (of_char c :: nat) \<le> 90")
  case True
  then have "(of_char (char_of ((of_char c :: nat) + 32)) :: nat) = of_char c + 32"
    by simp
  with True show ?thesis by (simp add: lower_char_def)
next
  case False
  then show ?thesis by (auto simp: lower_char_def)
qed

lemma lower_idem [simp]: "lower (lower s) = lower s"
  by (simp add: lower_def)

lemma length_lower [simp]: "length (lower s) = length s"
  by (simp add: lower_def)

definition str_slice :: "nat \<Rightarrow> nat \<Rightarrow> 'a list \<Rightarrow> 'a list" where
  [js_defs]: "str_slice i j xs = take (j - i) (drop i xs)"

definition is_space :: "char \<Rightarrow> bool" where
  [js_defs]: "is_space c = ((of_char c :: nat) \<in> {9, 10, 11, 12, 13, 32})"

lemma is_space_code [code]:
  "is_space c = (c = CHR '' '' \<or> c = CHR 0x09 \<or> c = CHR 0x0A \<or> c = CHR 0x0B \<or> c = CHR 0x0C \<or> c = CHR 0x0D)"
proof -
  have "c = d \<longleftrightarrow> (of_char c :: nat) = of_char d" for d by (metis char_of_char)
  then show ?thesis unfolding is_space_def by (simp only:) auto
qed

definition trim :: "string \<Rightarrow> string" where
  [js_defs]: "trim s = rev (dropWhile is_space (rev (dropWhile is_space s)))"

definition starts_with :: "string \<Rightarrow> string \<Rightarrow> bool" where
  [js_defs]: "starts_with p s = (take (length p) s = p)"

text \<open>\<open>s.includes(p)\<close>.\<close>

fun str_includes :: "string \<Rightarrow> string \<Rightarrow> bool" where
  "str_includes p [] = (p = [])"
| "str_includes p (c # s) = (starts_with p (c # s) \<or> str_includes p s)"

section \<open>Numerals in strings\<close>

definition digit_val :: "char \<Rightarrow> int" where
  [js_defs]: "digit_val c =
     (let n = (of_char c :: nat) in
      if 48 \<le> n \<and> n \<le> 57 then int n - 48
      else if 97 \<le> n \<and> n \<le> 102 then int n - 87
      else if 65 \<le> n \<and> n \<le> 70 then int n - 55
      else 99)"

lemma digit_val_code [code]:
  "digit_val (Char b0 b1 b2 b3 b4 b5 b6 b7) =
     (if \<not> b7 \<and> \<not> b6 \<and> b5 \<and> b4 \<and> \<not> (b3 \<and> (b2 \<or> b1)) then of_bool b0 + 2 * of_bool b1 + 4 * of_bool b2 + 8 * of_bool b3
      else if \<not> b7 \<and> b6 \<and> \<not> b4 \<and> \<not> b3 \<and> (b0 \<or> b1 \<or> b2) \<and> \<not> (b0 \<and> b1 \<and> b2) then 9 + of_bool b0 + 2 * of_bool b1 + 4 * of_bool b2
      else 99)"
  by (cases b0; cases b1; cases b2; cases b3; cases b4; cases b5; cases b6; cases b7) (simp_all add: digit_val_def)

definition digit_ok :: "int \<Rightarrow> char \<Rightarrow> bool" where
  [js_defs]: "digit_ok b c = (digit_val c < b)"

definition digit_char :: "int \<Rightarrow> char" where
  [js_defs]: "digit_char d = char_of (if d < 10 then nat d + 48 else nat d + 87)"

fun num_val :: "int \<Rightarrow> int \<Rightarrow> string \<Rightarrow> int" where
  "num_val b acc [] = acc"
| "num_val b acc (c # s) = num_val b (acc * b + digit_val c) s"

definition parse_digits :: "int \<Rightarrow> string \<Rightarrow> int option" where
  [js_defs]: "parse_digits b s = (if s \<noteq> [] \<and> list_all (digit_ok b) s then Some (num_val b 0 s) else None)"

text \<open>\<open>BigInt(s)\<close>: \<open>None\<close> where it throws a SyntaxError.\<close>

definition big_int :: "string \<Rightarrow> int option" where
  [js_defs]: "big_int s0 =
     (let s = trim s0 in
      if s = [] then Some 0
      else if starts_with ''0x'' s \<or> starts_with ''0X'' s then parse_digits 16 (drop 2 s)
      else if starts_with ''0o'' s \<or> starts_with ''0O'' s then parse_digits 8 (drop 2 s)
      else if starts_with ''0b'' s \<or> starts_with ''0B'' s then parse_digits 2 (drop 2 s)
      else if starts_with ''-'' s then map_option uminus (parse_digits 10 (tl s))
      else if starts_with ''+'' s then parse_digits 10 (tl s)
      else parse_digits 10 s)"

text \<open>\<open>n.toString(b)\<close>.\<close>

function nat_str :: "int \<Rightarrow> int \<Rightarrow> string" where
  "nat_str b n = (if n < b \<or> b < 2 then [digit_char n] else nat_str b (n div b) @ [digit_char (n mod b)])"
  by pat_completeness auto
termination
proof (relation "measure (\<lambda>(b, n). nat n)", goal_cases)
  case 1
  show ?case by simp
next
  case (2 b n)
  then have h: "\<not> n < b" "\<not> b < 2" by auto
  then have "n div b < n" by (intro int_div_less_self) auto
  moreover from h have "0 \<le> n div b" by (simp add: pos_imp_zdiv_nonneg_iff)
  ultimately show ?case using h by simp
qed

declare nat_str.simps [simp del]

definition to_str :: "int \<Rightarrow> string" where
  "to_str n = (if n < 0 then CHR ''-'' # nat_str 10 (- n) else nat_str 10 n)"

lemma digit_val_char: "0 \<le> d \<Longrightarrow> d < 16 \<Longrightarrow> digit_val (digit_char d) = d"
  by (auto simp: digit_val_def digit_char_def Let_def of_char_of)

lemma num_val_snoc: "num_val b acc (s @ [c]) = num_val b acc s * b + digit_val c"
  by (induction s arbitrary: acc) auto

lemma nat_str_digits:
  assumes "0 \<le> n" "2 \<le> b" "b \<le> 16"
  shows "nat_str b n \<noteq> [] \<and> (\<forall>c \<in> set (nat_str b n). \<exists>d. 0 \<le> d \<and> d < b \<and> c = digit_char d)"
  using assms
proof (induction b n rule: nat_str.induct)
  case (1 b n)
  show ?case
  proof (cases "n < b")
    case True
    with 1 show ?thesis by (subst nat_str.simps, subst nat_str.simps) auto
  next
    case False
    with 1 have ih: "\<forall>c \<in> set (nat_str b (n div b)). \<exists>d. 0 \<le> d \<and> d < b \<and> c = digit_char d"
      by (simp add: pos_imp_zdiv_nonneg_iff)
    have "0 \<le> n mod b \<and> n mod b < b" using 1 by simp
    then have "\<exists>d. 0 \<le> d \<and> d < b \<and> digit_char (n mod b) = digit_char d" by blast
    with False ih 1 show ?thesis by (simp add: nat_str.simps [of b n])
  qed
qed

lemma nat_str_val: "0 \<le> n \<Longrightarrow> 2 \<le> b \<Longrightarrow> b \<le> 16 \<Longrightarrow> num_val b 0 (nat_str b n) = n"
proof (induction b n rule: nat_str.induct)
  case (1 b n)
  show ?case
  proof (cases "n < b")
    case True
    with 1 show ?thesis by (simp add: nat_str.simps [of b n] digit_val_char)
  next
    case False
    with 1 have ih: "num_val b 0 (nat_str b (n div b)) = n div b"
      by (simp add: pos_imp_zdiv_nonneg_iff)
    have "0 \<le> n mod b" "n mod b < b" using 1 by simp_all
    then have "0 \<le> n mod b" "n mod b < 16" using 1 by linarith+
    with False ih 1 show ?thesis
      by (simp add: nat_str.simps [of b n] num_val_snoc digit_val_char)
  qed
qed

lemma parse_nat_str: "0 \<le> n \<Longrightarrow> 2 \<le> b \<Longrightarrow> b \<le> 16 \<Longrightarrow> parse_digits b (nat_str b n) = Some n"
  using nat_str_digits [of n b]
  by (auto simp: parse_digits_def nat_str_val list_all_iff digit_ok_def digit_val_char)

text \<open>A decimal digit is no blank, no sign and no radix letter.\<close>

lemma of_char_digit: "0 \<le> d \<Longrightarrow> d < 10 \<Longrightarrow> (of_char (digit_char d) :: nat) = nat d + 48"
  by (simp add: digit_char_def)

lemma dec_digit_cases:
  assumes "0 \<le> d" "d < 10"
  shows "\<not> is_space (digit_char d) \<and> digit_char d \<notin> {CHR ''x'', CHR ''X'', CHR ''o'', CHR ''O'', CHR ''b'', CHR ''B'', CHR ''-'', CHR ''+''}"
proof -
  have v: "(of_char (digit_char d) :: nat) = nat d + 48" "nat d < 10" using assms by (auto simp: of_char_digit)
  have "digit_char d \<noteq> c" if "(of_char c :: nat) < 48 \<or> 57 < (of_char c :: nat)" for c
    using v that by auto
  then show ?thesis using v by (simp add: is_space_def)
qed

lemma dropWhile_none: "(\<forall>c \<in> set s. \<not> P c) \<Longrightarrow> dropWhile P s = s"
  by (cases s) auto

lemma trim_no_space: "(\<forall>c \<in> set s. \<not> is_space c) \<Longrightarrow> trim s = s"
  by (simp add: trim_def dropWhile_none)

lemma starts_with_Cons: "starts_with (p # ps) (c # s) \<longleftrightarrow> p = c \<and> starts_with ps s"
  by (auto simp: starts_with_def)

lemma starts_with_Nil [simp]: "starts_with [] s" "starts_with (p # ps) [] = False"
  by (simp_all add: starts_with_def)

lemma starts_with_set: "starts_with p s \<Longrightarrow> c \<in> set p \<Longrightarrow> c \<in> set s"
  unfolding starts_with_def by (metis in_set_takeD)

lemma big_int_digits:
  assumes ne: "s \<noteq> []" and dig: "\<forall>c \<in> set s. \<exists>d. 0 \<le> d \<and> d < 10 \<and> c = digit_char d"
  shows "big_int s = parse_digits 10 s"
    and "big_int (CHR ''-'' # s) = map_option uminus (parse_digits 10 s)"
proof -
  define B where "B = {CHR ''x'', CHR ''X'', CHR ''o'', CHR ''O'', CHR ''b'', CHR ''B'', CHR ''-'', CHR ''+''}"
  have good: "\<not> is_space c \<and> c \<notin> B" if "c \<in> set s" for c
    using dig dec_digit_cases that unfolding B_def by metis
  have tr: "trim s = s" using good by (simp add: trim_no_space)
  have no: "\<not> starts_with p s" if "c \<in> set p" "c \<in> B" for c p
    using good starts_with_set that by metis
  have n: "\<not> starts_with ''0x'' s" "\<not> starts_with ''0X'' s" "\<not> starts_with ''0o'' s" "\<not> starts_with ''0O'' s"
     "\<not> starts_with ''0b'' s" "\<not> starts_with ''0B'' s" "\<not> starts_with ''-'' s" "\<not> starts_with ''+'' s"
    using no [of "CHR ''x''" "''0x''"] no [of "CHR ''X''" "''0X''"] no [of "CHR ''o''" "''0o''"]
      no [of "CHR ''O''" "''0O''"] no [of "CHR ''b''" "''0b''"] no [of "CHR ''B''" "''0B''"]
      no [of "CHR ''-''" "''-''"] no [of "CHR ''+''" "''+''"]
    by (simp_all add: B_def)
  show "big_int s = parse_digits 10 s"
    using ne by (simp add: big_int_def Let_def tr n)
  have "\<not> is_space CHR ''-''" by (simp add: is_space_def)
  then have tr': "trim (CHR ''-'' # s) = CHR ''-'' # s" using good by (simp add: trim_no_space)
  show "big_int (CHR ''-'' # s) = map_option uminus (parse_digits 10 s)"
    by (simp add: big_int_def Let_def tr' starts_with_Cons)
qed

text \<open>The round trip every serialised amount relies on: \<open>BigInt(n.toString()) === n\<close>.\<close>

lemma big_int_to_str [simp]: "big_int (to_str n) = Some n"
proof (cases "n < 0")
  case True
  then show ?thesis
    using nat_str_digits [of "- n" 10] big_int_digits(2) [of "nat_str 10 (- n)"] parse_nat_str [of "- n" 10]
    by (simp add: to_str_def)
next
  case False
  then show ?thesis
    using nat_str_digits [of n 10] big_int_digits(1) [of "nat_str 10 n"] parse_nat_str [of n 10]
    by (simp add: to_str_def)
qed

section \<open>Hexadecimal strings\<close>

definition hex_char :: "char \<Rightarrow> bool" where
  [js_defs]: "hex_char c = digit_ok 16 c"

text \<open>The pattern \<open>^0x[0-9a-fA-F]{n}$\<close>.\<close>

definition is_hex :: "nat \<Rightarrow> string \<Rightarrow> bool" where
  [js_defs]: "is_hex n s = (starts_with ''0x'' s \<and> length s = n + 2 \<and> list_all hex_char (drop 2 s))"

definition pad_start :: "nat \<Rightarrow> char \<Rightarrow> string \<Rightarrow> string" where
  [js_defs]: "pad_start n c s = replicate (n - length s) c @ s"

definition pad_end :: "nat \<Rightarrow> char \<Rightarrow> string \<Rightarrow> string" where
  [js_defs]: "pad_end n c s = s @ replicate (n - length s) c"

definition zero_address :: string where
  [js_defs]: "zero_address = ''0x'' @ replicate 40 CHR ''0''"

section \<open>Sorting\<close>

text \<open>
  \<open>Array.prototype.sort(cmp)\<close> as the engine performs it: elements are taken from left to right and
  each one goes in front of the first already placed element \<open>e\<close> with \<open>cmp(x, e) < 0\<close> (binary
  insertion over a sorted prefix finds the same place).
\<close>

fun ins_by :: "('a \<Rightarrow> 'a \<Rightarrow> int) \<Rightarrow> 'a \<Rightarrow> 'a list \<Rightarrow> 'a list" where
  "ins_by cmp x [] = [x]"
| "ins_by cmp x (y # ys) = (if cmp x y < 0 then x # y # ys else y # ins_by cmp x ys)"

definition js_sort :: "('a \<Rightarrow> 'a \<Rightarrow> int) \<Rightarrow> 'a list \<Rightarrow> 'a list" where
  [js_defs]: "js_sort cmp xs = foldl (\<lambda>acc x. ins_by cmp x acc) [] xs"

lemma mset_ins_by [simp]: "mset (ins_by cmp x ys) = add_mset x (mset ys)"
  by (induction ys) auto

lemma mset_foldl_ins: "mset (foldl (\<lambda>acc x. ins_by cmp x acc) acc xs) = mset acc + mset xs"
  by (induction xs arbitrary: acc) auto

lemma mset_js_sort [simp]: "mset (js_sort cmp xs) = mset xs"
  by (simp add: js_sort_def mset_foldl_ins)

lemma set_js_sort [simp]: "set (js_sort cmp xs) = set xs"
  by (metis mset_js_sort set_mset_mset)

lemma length_js_sort [simp]: "length (js_sort cmp xs) = length xs"
  by (metis mset_js_sort size_mset)

lemma js_sort_snoc: "js_sort cmp (xs @ [x]) = ins_by cmp x (js_sort cmp xs)"
  by (simp add: js_sort_def)

lemma js_sort_Nil [simp]: "js_sort cmp [] = []"
  by (simp add: js_sort_def)

text \<open>The comparator the auction uses: descending in \<open>f\<close>, and never \<open>0\<close>.\<close>

definition cmp_desc :: "('a \<Rightarrow> int) \<Rightarrow> 'a \<Rightarrow> 'a \<Rightarrow> int" where
  [js_defs]: "cmp_desc f a b = (if f b > f a then 1 else -1)"

abbreviation desc_by :: "('a \<Rightarrow> int) \<Rightarrow> 'a list \<Rightarrow> bool" where
  "desc_by f \<equiv> sorted_wrt (\<lambda>a b. f b \<le> f a)"

lemma set_ins_by [simp]: "set (ins_by cmp x ys) = insert x (set ys)"
  by (induction ys) auto

lemma desc_ins_by: "desc_by f ys \<Longrightarrow> desc_by f (ins_by (cmp_desc f) x ys)"
  by (induction ys) (auto simp: cmp_desc_def split: if_splits)

lemma desc_js_sort [simp]: "desc_by f (js_sort (cmp_desc f) xs)"
proof (induction xs rule: rev_induct)
  case Nil
  then show ?case by simp
next
  case (snoc x xs)
  then show ?case by (simp add: js_sort_snoc desc_ins_by)
qed

text \<open>Ties: of several elements with the greatest value the one that came last is first.\<close>

lemma hd_ins_by: "hd (ins_by cmp x ys) = (case ys of [] \<Rightarrow> x | y # _ \<Rightarrow> if cmp x y < 0 then x else y)"
  by (cases ys) auto

section \<open>Maps: association lists in insertion order\<close>

abbreviation jget :: "('k \<times> 'v) list \<Rightarrow> 'k \<Rightarrow> 'v option" where
  "jget \<equiv> map_of"

abbreviation jset :: "'k \<Rightarrow> 'v \<Rightarrow> ('k \<times> 'v) list \<Rightarrow> ('k \<times> 'v) list" where
  "jset \<equiv> AList.update"

abbreviation jdel :: "'k \<Rightarrow> ('k \<times> 'v) list \<Rightarrow> ('k \<times> 'v) list" where
  "jdel \<equiv> AList.delete"

abbreviation jwf :: "('k \<times> 'v) list \<Rightarrow> bool" where
  "jwf m \<equiv> distinct (map fst m)"

lemma jget_jset [simp]: "jget (jset k v m) k' = (if k' = k then Some v else jget m k')"
  by (simp add: update_conv')

lemma jget_jdel [simp]: "jget (jdel k m) k' = (if k' = k then None else jget m k')"
  by (simp add: delete_conv')

lemma jwf_jset [simp]: "jwf m \<Longrightarrow> jwf (jset k v m)"
  by (rule distinct_update)

lemma jwf_jdel [simp]: "jwf m \<Longrightarrow> jwf (jdel k m)"
  by (rule distinct_delete)

lemma length_jset: "length (jset k v m) = (if jget m k = None then Suc (length m) else length m)"
  by (induction m) auto

lemma length_jdel: "jwf m \<Longrightarrow> length (jdel k m) = (if jget m k = None then length m else length m - 1)"
proof (induction m)
  case Nil
  then show ?case by simp
next
  case (Cons p m)
  then have "fst p = k \<Longrightarrow> jdel k m = m" by auto
  moreover have "jget m k \<noteq> None \<Longrightarrow> 0 < length m" by (cases m) auto
  ultimately show ?case using Cons by (cases p) auto
qed

lemma jset_append: "jget m k = None \<Longrightarrow> jset k v m = m @ [(k, v)]"
  by (induction m) (auto split: if_splits)

definition jget_or :: "'v \<Rightarrow> ('k \<times> 'v) list \<Rightarrow> 'k \<Rightarrow> 'v" where
  "jget_or d m k = (case jget m k of None \<Rightarrow> d | Some v \<Rightarrow> v)"

lemma jget_or_jset [simp]: "jget_or d (jset k v m) k' = (if k' = k then v else jget_or d m k')"
  by (simp add: jget_or_def)

lemma jget_or_jdel [simp]: "jget_or d (jdel k m) k' = (if k' = k then d else jget_or d m k')"
  by (simp add: jget_or_def)

lemma sum_jset:
  fixes f :: "'k \<times> 'v \<Rightarrow> int"
  shows "(\<Sum>p \<leftarrow> jset k v m. f p) =
     (\<Sum>p \<leftarrow> m. f p) - (case jget m k of None \<Rightarrow> 0 | Some v0 \<Rightarrow> f (k, v0)) + f (k, v)"
  by (induction m) auto

lemma sum_jdel:
  fixes f :: "'k \<times> 'v \<Rightarrow> int"
  shows "jwf m \<Longrightarrow> (\<Sum>p \<leftarrow> jdel k m. f p) =
     (\<Sum>p \<leftarrow> m. f p) - (case jget m k of None \<Rightarrow> 0 | Some v0 \<Rightarrow> f (k, v0))"
proof (induction m)
  case Nil
  then show ?case by simp
next
  case (Cons p m)
  obtain k' v' where p: "p = (k', v')" by (cases p)
  show ?case
  proof (cases "k' = k")
    case True
    then have "k \<notin> fst ` set m" using Cons.prems p by auto
    then have "jdel k m = m" by (rule delete_id)
    with True p show ?thesis by simp
  next
    case False
    with Cons p show ?thesis by simp
  qed
qed

lemma set_jset: "x \<in> set (jset k v m) \<Longrightarrow> x = (k, v) \<or> x \<in> set m"
  by (induction m) (auto split: if_splits)

lemma set_jdel: "set (jdel k m) = {p \<in> set m. fst p \<noteq> k}"
  by (induction m) auto

lemma colon_inj:
  assumes "a @ CHR '':'' # i = b @ CHR '':'' # j" "CHR '':'' \<notin> set i" "CHR '':'' \<notin> set j"
  shows "a = b \<and> i = j"
proof -
  have cut: "takeWhile (\<lambda>c. c \<noteq> CHR '':'') (rev (x @ CHR '':'' # y)) = rev y" if "CHR '':'' \<notin> set y" for x y
    using that takeWhile_append2 [of "rev y" "\<lambda>c. c \<noteq> CHR '':''" "CHR '':'' # rev x"] by fastforce
  have "rev i = rev j" using cut [of i a] cut [of j b] assms by metis
  with assms(1) show ?thesis by simp
qed

text \<open>The elements of the values of a map, when one value changes.\<close>

lemma mset_concat_jset:
  "mset (concat (map (\<lambda>p. g (snd p)) (jset k v m))) + mset (case jget m k of None \<Rightarrow> [] | Some w \<Rightarrow> g w) =
     mset (concat (map (\<lambda>p. g (snd p)) m)) + mset (g v)"
  by (induction m) auto

lemma mset_concat_jdel:
  "jwf m \<Longrightarrow> mset (concat (map snd m)) = mset (concat (map snd (jdel k m))) + mset (jget_or [] m k)"
proof (induction m)
  case (Cons p m)
  show ?case
  proof (cases "fst p = k")
    case True
    with Cons.prems have "jdel k m = m" "jget m k = None" by (auto simp: map_of_eq_None_iff)
    with True show ?thesis by (cases p) (simp add: jget_or_def)
  next
    case False
    with Cons show ?thesis by (cases p) (simp add: jget_or_def)
  qed
qed (simp add: jget_or_def)

lemma jget_filter:
  assumes "jwf hs"
  shows "jget (filter (\<lambda>(k, h). P h) hs) k = (case jget hs k of None \<Rightarrow> None | Some h \<Rightarrow> if P h then Some h else None)"
  using assms by (induction hs) (auto simp: map_of_eq_None_iff split: option.splits)

lemma jget_map: "jget (map (\<lambda>(k, v). (k, f v)) m) k = map_option f (jget m k)"
  by (induction m) auto

lemma find_SomeD: "find P xs = Some x \<Longrightarrow> x \<in> set xs \<and> P x"
  by (induction xs) (auto split: if_splits)

text \<open>\<open>[...new Set(xs)]\<close>: the distinct elements in the order they first occur.\<close>

definition js_uniq :: "'a list \<Rightarrow> 'a list" where
  [js_defs]: "js_uniq xs = rev (remdups (rev xs))"

lemma js_uniq_simps [simp]: "distinct (js_uniq xs)" "set (js_uniq xs) = set xs"
  by (simp_all add: js_uniq_def)

section \<open>Results\<close>

text \<open>Sequencing of operations that throw (\<open>Inl\<close>) or answer (\<open>Inr\<close>).\<close>

definition sbind :: "'e + 'a \<Rightarrow> ('a \<Rightarrow> 'e + 'b) \<Rightarrow> 'e + 'b" where
  [js_defs]: "sbind x f = (case x of Inl e \<Rightarrow> Inl e | Inr a \<Rightarrow> f a)"

lemma sbind_Inr: "sbind x f = Inr b \<longleftrightarrow> (\<exists>a. x = Inr a \<and> f a = Inr b)"
  by (auto simp: sbind_def split: sum.splits)

lemma sbind_simps [simp]: "sbind (Inl e) f = Inl e" "sbind (Inr a) f = f a"
  by (simp_all add: sbind_def)

text \<open>\<open>if (bad) throw e\<close>.\<close>

definition guard :: "bool \<Rightarrow> 'e \<Rightarrow> 'e + unit" where
  [js_defs]: "guard bad e = (if bad then Inl e else Inr ())"

lemma guard_Inr [simp]: "guard bad e = Inr u \<longleftrightarrow> \<not> bad"
  by (simp add: guard_def)

definition of_opt :: "'e \<Rightarrow> 'a option \<Rightarrow> 'e + 'a" where
  [js_defs]: "of_opt e x = (case x of None \<Rightarrow> Inl e | Some a \<Rightarrow> Inr a)"

lemma of_opt_Inr [simp]: "of_opt e x = Inr a \<longleftrightarrow> x = Some a"
  by (simp add: of_opt_def split: option.splits)

section \<open>Interface: a book of balances\<close>

text \<open>
  A book answers a balance per account and is changed by crediting one account. What a client may
  rely on: a credit changes the credited account by exactly the amount and no other.
\<close>

locale balance_book =
  fixes balance :: "'m \<Rightarrow> 'a \<Rightarrow> int"
    and credit :: "'a \<Rightarrow> int \<Rightarrow> 'm \<Rightarrow> 'm"
  assumes balance_credit: "balance (credit a w m) b = balance m b + (if a = b then w else 0)"
begin

lemma balance_credits:
  "balance (fold (\<lambda>(a, w). credit a w) es m) b =
     balance m b + (\<Sum>(a, w) \<leftarrow> es. if a = b then w else 0)"
  by (induction es arbitrary: m) (auto simp: balance_credit)

lemma balance_credits_perm:
  assumes "mset es = mset es'"
  shows "balance (fold (\<lambda>(a, w). credit a w) es m) b = balance (fold (\<lambda>(a, w). credit a w) es' m) b"
proof -
  have "mset (map (\<lambda>(a, w). if a = b then w else 0) es) = mset (map (\<lambda>(a, w). if a = b then w else 0) es')"
    using assms by simp
  then show ?thesis by (metis balance_credits sum_mset_sum_list)
qed

end

end
