(* ===== verification/Hints.thy ===== *)
theory Hints
  imports Prelude
begin

text \<open>
  Execution simulation and hint extraction (\<open>packages/core/src/simulate.ts\<close>): what a simulated
  transaction's logs say about the pools it moves, and how much of that is shown to searchers.
  \<open>parseTransaction\<close> with \<open>recoverTransactionAddress\<close>, the upstream RPC and the pool index are
  parameters. A throwing call is an \<open>Inl ()\<close> or a \<open>None\<close>, as the type says.
\<close>

section \<open>Types\<close>

record sim_log =
  log_address :: string
  log_topics :: "string list"
  log_data :: string

record sim_tx_result =
  sim_ok :: bool
  sim_degraded :: bool
  sim_logs :: "sim_log list"
  sim_gas_used :: int
  sim_revert_reason :: "string option"

datatype hint_level = Minimal | Pools | Full

datatype swap_kind = Univ2 | Univ3 | Univ4

datatype direction = ZeroForOne | OneForZero

record pool_key =
  currency0 :: string
  currency1 :: string
  pk_fee :: int
  tick_spacing :: int
  hooks :: string

record swap_hint =
  hint_kind :: swap_kind
  hint_pool :: string
  hint_pool_id :: "string option"
  hint_key :: "pool_key option"
  hint_direction :: "direction option"
  hint_amount0 :: "string option"
  hint_amount1 :: "string option"

text \<open>The DEX events (\<open>SWAP_TOPICS\<close> of \<open>packages/core/src/index.ts\<close>).\<close>

definition swap_topics :: "string \<Rightarrow> swap_kind option" where
  "swap_topics t =
     (if t = ''0xd78ad95fa46c994b6551d0da85fc275fe613ce37657fb8d5e3d130840159d822'' then Some Univ2
      else if t = ''0xc42079f94a6350d7e6235f29174924f928cc2ac818eb64fed8004e115fbcca67'' then Some Univ3
      else if t = ''0x40e9cecb9f5f1f1c5b9c97dec2917b7ee92e57ba5563708daca94dd84ad7112f'' then Some Univ4
      else None)"

definition hint_level_from_env :: "string option \<Rightarrow> hint_level" where
  "hint_level_from_env v =
     (let raw = lower (case v of None \<Rightarrow> ''pools'' | Some s \<Rightarrow> s) in
      if raw = ''minimal'' then Minimal else if raw = ''full'' then Full else Pools)"

section \<open>Naming v4 pools\<close>

text \<open>
  The index is \<open>None\<close> (no index), or a lookup of ids that throws (\<open>Inl ()\<close>) or answers a map.
\<close>

definition with_v4_keys ::
  "swap_hint list \<Rightarrow> (string list \<Rightarrow> unit + (string \<rightharpoonup> pool_key)) option \<Rightarrow> swap_hint list" where
  "with_v4_keys hints index =
     (let ids = List.map_filter (\<lambda>h. if hint_kind h = Univ4 then hint_pool_id h else None) hints in
      case index of
        None \<Rightarrow> hints
      | Some ix \<Rightarrow>
          if ids = [] then hints
          else case ix ids of
                 Inl _ \<Rightarrow> hints
               | Inr keys \<Rightarrow>
                   map (\<lambda>h. case hint_pool_id h of
                              None \<Rightarrow> h
                            | Some i \<Rightarrow> (case keys i of None \<Rightarrow> h | Some k \<Rightarrow> h\<lparr>hint_key := Some k\<rparr>)) hints)"

section \<open>Simulation\<close>

record parsed_tx =
  tx_from :: string
  tx_to :: "string option"
  tx_data :: "string option"
  tx_value :: "int option"
  tx_gas :: "int option"

record sim_call =
  call_from :: string
  call_to :: "string option"
  call_data :: "string option"
  call_value :: "string option"
  call_gas :: "string option"

text \<open>One entry of \<open>result[0].calls\<close> as the endpoint sends it; absent fields are \<open>None\<close>.\<close>

record sim_out =
  out_status :: string
  out_logs :: "sim_log list option"
  out_gas_used :: "string option"
  out_error :: "string option"
  out_return :: "string option"

definition sim_empty :: sim_tx_result where
  "sim_empty = \<lparr>sim_ok = False, sim_degraded = True, sim_logs = [], sim_gas_used = 0, sim_revert_reason = None\<rparr>"

definition hex_quantity :: "int \<Rightarrow> string" where
  "hex_quantity v = ''0x'' @ nat_str 16 v"

definition tx_call :: "parsed_tx \<Rightarrow> sim_call" where
  "tx_call tx =
     \<lparr>call_from = tx_from tx,
      call_to = tx_to tx,
      call_data = (case tx_data tx of Some d \<Rightarrow> (if d \<noteq> [] \<and> d \<noteq> ''0x'' then Some d else None) | None \<Rightarrow> None),
      call_value = (case tx_value tx of Some v \<Rightarrow> (if v > 0 then Some (hex_quantity v) else None) | None \<Rightarrow> None),
      call_gas = (case tx_gas tx of Some g \<Rightarrow> Some (hex_quantity g) | None \<Rightarrow> None)\<rparr>"

text \<open>
  The request's arguments: the call, the account whose balance is overridden, and the block. The
  endpoint throws (\<open>Inl ()\<close>), answers without a call result (\<open>Inr None\<close>), or answers. The gas
  figure is read with \<open>BigInt\<close>, which throws (\<open>None\<close>) on a string that is no number.
\<close>

definition simulate_tx ::
  "(string \<Rightarrow> parsed_tx option) \<Rightarrow> (sim_call \<Rightarrow> string option \<Rightarrow> string \<Rightarrow> unit + sim_out option) \<Rightarrow>
   string \<Rightarrow> bool option \<Rightarrow> string option \<Rightarrow> sim_tx_result option" where
  "simulate_tx parse rpc signed fund block =
     (case parse signed of
        None \<Rightarrow> Some sim_empty
      | Some tx \<Rightarrow>
          (case rpc (tx_call tx) (if fund = Some False then None else Some (tx_from tx))
                  (case block of None \<Rightarrow> ''latest'' | Some b \<Rightarrow> b) of
             Inl _ \<Rightarrow> Some sim_empty
           | Inr None \<Rightarrow> Some sim_empty
           | Inr (Some out) \<Rightarrow>
               (case big_int (case out_gas_used out of None \<Rightarrow> ''0x0'' | Some g \<Rightarrow> g) of
                  None \<Rightarrow> None
                | Some g \<Rightarrow>
                    let ok = (out_status out = ''0x1'') in
                    Some \<lparr>sim_ok = ok, sim_degraded = False,
                          sim_logs = (case out_logs out of None \<Rightarrow> [] | Some ls \<Rightarrow> ls),
                          sim_gas_used = g,
                          sim_revert_reason =
                            (if ok then None
                             else Some (case out_error out of
                                          Some m \<Rightarrow> m
                                        | None \<Rightarrow> (case out_return out of Some r \<Rightarrow> r | None \<Rightarrow> ''reverted'')))\<rparr>)))"

section \<open>Swap hints\<close>

text \<open>\<open>word\<close>: \<open>Inl ()\<close> where \<open>BigInt\<close> throws on a non-hexadecimal word, \<open>Inr None\<close> past the end.\<close>

definition data_word :: "string \<Rightarrow> nat \<Rightarrow> unit + int option" where
  "data_word data i =
     (let hex = (if starts_with ''0x'' data then drop 2 data else data); start = i * 64 in
      if length hex < start + 64 then Inr None
      else case parse_digits 16 (str_slice start (start + 64) hex) of
             None \<Rightarrow> Inl ()
           | Some v \<Rightarrow> Inr (Some v))"

definition to_signed :: "int \<Rightarrow> int" where
  "to_signed raw = (if raw \<ge> 2 ^ 255 then raw - 2 ^ 256 else raw)"

definition signed_word :: "string \<Rightarrow> nat \<Rightarrow> unit + int option" where
  "signed_word data i =
     (case data_word data i of Inl u \<Rightarrow> Inl u | Inr None \<Rightarrow> Inr None | Inr (Some r) \<Rightarrow> Inr (Some (to_signed r)))"

definition bare_hint :: "swap_kind \<Rightarrow> string \<Rightarrow> string option \<Rightarrow> swap_hint" where
  "bare_hint k p i = \<lparr>hint_kind = k, hint_pool = p, hint_pool_id = i, hint_key = None,
                      hint_direction = None, hint_amount0 = None, hint_amount1 = None\<rparr>"

definition decode_v2 :: "sim_log \<Rightarrow> unit + swap_hint" where
  "decode_v2 log =
     (let pool = lower (log_address log); d = log_data log in
      case (data_word d 0, data_word d 1, data_word d 2, data_word d 3) of
        (Inr r0, Inr r1, Inr r2, Inr r3) \<Rightarrow>
          (case (r0, r1, r2, r3) of
             (Some a0i, Some a1i, Some a0o, Some a1o) \<Rightarrow>
               Inr ((bare_hint Univ2 pool None)
                      \<lparr>hint_direction := (if a0i > 0 then Some ZeroForOne else if a1i > 0 then Some OneForZero else None),
                       hint_amount0 := Some (to_str (a0i - a0o)),
                       hint_amount1 := Some (to_str (a1i - a1o))\<rparr>)
           | _ \<Rightarrow> Inr (bare_hint Univ2 pool None))
      | _ \<Rightarrow> Inl ())"

definition decode_v3 :: "sim_log \<Rightarrow> unit + swap_hint" where
  "decode_v3 log =
     (let pool = lower (log_address log); d = log_data log in
      case (signed_word d 0, signed_word d 1) of
        (Inr (Some a0), Inr (Some a1)) \<Rightarrow>
          Inr ((bare_hint Univ3 pool None)
                 \<lparr>hint_direction := (if a0 > 0 then Some ZeroForOne else if a0 < 0 then Some OneForZero else None),
                  hint_amount0 := Some (to_str a0), hint_amount1 := Some (to_str a1)\<rparr>)
      | (Inr _, Inr _) \<Rightarrow> Inr (bare_hint Univ3 pool None)
      | _ \<Rightarrow> Inl ())"

text \<open>\<open>log.topics[1]\<close>; an empty string is falsy and leaves the id out.\<close>

definition topic_pool_id :: "sim_log \<Rightarrow> string option" where
  "topic_pool_id log =
     (case log_topics log of _ # i # _ \<Rightarrow> (if i = [] then None else Some i) | _ \<Rightarrow> None)"

definition decode_v4 :: "sim_log \<Rightarrow> unit + swap_hint" where
  "decode_v4 log =
     (let pool = lower (log_address log); d = log_data log; i = topic_pool_id log in
      case (signed_word d 0, signed_word d 1) of
        (Inr (Some a0), Inr (Some a1)) \<Rightarrow>
          Inr ((bare_hint Univ4 pool i)
                 \<lparr>hint_direction := (if a0 < 0 then Some ZeroForOne else if a0 > 0 then Some OneForZero else None),
                  hint_amount0 := Some (to_str a0), hint_amount1 := Some (to_str a1)\<rparr>)
      | (Inr _, Inr _) \<Rightarrow> Inr (bare_hint Univ4 pool i)
      | _ \<Rightarrow> Inl ())"

definition decode_log :: "sim_log \<Rightarrow> swap_kind \<Rightarrow> unit + swap_hint" where
  "decode_log log k = (case k of Univ2 \<Rightarrow> decode_v2 log | Univ3 \<Rightarrow> decode_v3 log | Univ4 \<Rightarrow> decode_v4 log)"

definition hint_id :: "swap_hint \<Rightarrow> string" where
  "hint_id h = (case hint_pool_id h of Some i \<Rightarrow> i | None \<Rightarrow> hint_pool h)"

definition redact :: "hint_level \<Rightarrow> swap_hint \<Rightarrow> swap_hint" where
  "redact level h = (if level \<noteq> Full then h\<lparr>hint_amount0 := None, hint_amount1 := None\<rparr> else h)"

definition log_kind :: "sim_log \<Rightarrow> swap_kind option" where
  "log_kind log = swap_topics (case log_topics log of t # _ \<Rightarrow> lower t | [] \<Rightarrow> [])"

fun collect_hints ::
  "hint_level \<Rightarrow> (string \<times> swap_hint) list \<Rightarrow> sim_log list \<Rightarrow> unit + (string \<times> swap_hint) list" where
  "collect_hints level seen [] = Inr seen"
| "collect_hints level seen (log # logs) =
     (case log_kind log of
        None \<Rightarrow> collect_hints level seen logs
      | Some k \<Rightarrow>
          (case decode_log log k of
             Inl u \<Rightarrow> Inl u
           | Inr h \<Rightarrow>
               if jget seen (hint_id h) \<noteq> None then collect_hints level seen logs
               else collect_hints level (jset (hint_id h) (redact level h) seen) logs))"

definition extract_swap_hints :: "sim_log list \<Rightarrow> hint_level \<Rightarrow> unit + swap_hint list" where
  "extract_swap_hints logs level =
     (if level = Minimal then Inr []
      else case collect_hints level [] logs of Inl u \<Rightarrow> Inl u | Inr seen \<Rightarrow> Inr (map snd seen))"

section \<open>What a searcher is shown\<close>

definition hints_inv :: "hint_level \<Rightarrow> (string \<times> swap_hint) list \<Rightarrow> bool" where
  "hints_inv level seen \<longleftrightarrow>
     jwf seen \<and> (\<forall>(k, h) \<in> set seen. hint_id h = k \<and>
       (level \<noteq> Full \<longrightarrow> hint_amount0 h = None \<and> hint_amount1 h = None))"

lemma hint_id_redact [simp]: "hint_id (redact level h) = hint_id h"
  by (simp add: redact_def hint_id_def split: option.splits)

lemma redact_amounts: "level \<noteq> Full \<Longrightarrow> hint_amount0 (redact level h) = None \<and> hint_amount1 (redact level h) = None"
  by (simp add: redact_def)

lemma hints_inv_add:
  "hints_inv level seen \<Longrightarrow> jget seen (hint_id h) = None \<Longrightarrow>
     hints_inv level (jset (hint_id h) (redact level h) seen)"
  by (auto simp: hints_inv_def jset_append map_of_eq_None_iff redact_amounts)

lemma collect_hints_inv:
  "hints_inv level seen \<Longrightarrow> collect_hints level seen logs = Inr seen' \<Longrightarrow> hints_inv level seen'"
proof (induction level seen logs rule: collect_hints.induct)
  case (1 level seen)
  then show ?case by simp
next
  case (2 level seen log logs)
  then show ?case
    by (auto simp: hints_inv_add split: option.splits sum.splits if_splits)
qed

lemma hints_inv_distinct: "hints_inv level seen \<Longrightarrow> distinct (map hint_id (map snd seen))"
proof -
  assume h: "hints_inv level seen"
  then have "map hint_id (map snd seen) = map fst seen"
    by (auto simp: hints_inv_def)
  with h show ?thesis by (simp only: hints_inv_def)
qed

text \<open>
  At every hint level but \<open>full\<close> a broadcast hint carries no amounts, and a pool appears in it
  once, however many of its logs the transaction emitted.
\<close>

theorem extract_hides_amounts:
  assumes "extract_swap_hints logs level = Inr hs" and "level \<noteq> Full"
  shows "list_all (\<lambda>h. hint_amount0 h = None \<and> hint_amount1 h = None) hs \<and> distinct (map hint_id hs)"
proof (cases "level = Minimal")
  case True
  with assms show ?thesis by (simp add: extract_swap_hints_def)
next
  case False
  then obtain seen where s: "collect_hints level [] logs = Inr seen" "hs = map snd seen"
    using assms(1) by (auto simp: extract_swap_hints_def split: sum.splits)
  then have inv: "hints_inv level seen"
    using collect_hints_inv [of level "[]" logs seen] by (simp add: hints_inv_def)
  then have "list_all (\<lambda>h. hint_amount0 h = None \<and> hint_amount1 h = None) hs"
    using assms(2) s(2) by (auto simp: hints_inv_def list_all_iff)
  with inv s(2) show ?thesis using hints_inv_distinct by simp
qed

definition demo_log :: sim_log where
  "demo_log = \<lparr>log_address = ''0xAb'',
     log_topics = [''0xc42079f94a6350d7e6235f29174924f928cc2ac818eb64fed8004e115fbcca67''],
     log_data = ''0x'' @ replicate 63 CHR ''0'' @ ''7'' @ replicate 64 CHR ''f''\<rparr>"

lemma demo_log_decode:
  "collect_hints Pools [] [demo_log] =
     Inr [(''0xab'', (bare_hint Univ3 ''0xab'' None)\<lparr>hint_direction := Some ZeroForOne\<rparr>)]"
  by code_simp

theorem extract_hides_amounts_witness:
  "list_all (\<lambda>h. hint_amount0 h = None \<and> hint_amount1 h = None)
     [(bare_hint Univ3 ''0xab'' None)\<lparr>hint_direction := Some ZeroForOne\<rparr>] \<and>
   distinct (map hint_id [(bare_hint Univ3 ''0xab'' None)\<lparr>hint_direction := Some ZeroForOne\<rparr>])"
  by (rule extract_hides_amounts [of "[demo_log]" Pools])
    (simp_all add: extract_swap_hints_def demo_log_decode del: collect_hints.simps)

end
