(* ===== verification/SecondPrice.thy ===== *)
theory SecondPrice
  imports Prelude
begin

text \<open>
  The abstract specification of the auction's outcome, shared by the auctioneer and by the audit
  of a receipt: the highest value wins and the price is the highest of the remaining values.
\<close>

definition second_highest :: "int list \<Rightarrow> int" where
  "second_highest vs =
     (let m = Max (set vs); rest = remove1 m vs in if rest = [] then m else Max (set rest))"

lemma Max_desc: "desc_by f (x # xs) \<Longrightarrow> Max (f ` set (x # xs)) = f x"
  by (intro Max_eqI) auto

text \<open>What the code computes: the head of the sorted list, and the value next to it.\<close>

definition sorted_price :: "('a \<Rightarrow> int) \<Rightarrow> 'a list \<Rightarrow> int" where
  "sorted_price f s = (if length s \<ge> 2 then f (s ! 1) else f (s ! 0))"

lemma sorted_price_second:
  fixes f :: "'a \<Rightarrow> int"
  assumes "xs \<noteq> []"
  defines "s \<equiv> js_sort (cmp_desc f) xs"
  shows "f (hd s) = Max (set (map f xs))" and "sorted_price f s = second_highest (map f xs)"
proof -
  have ms: "mset s = mset xs" and d: "desc_by f s" by (simp_all add: s_def)
  then have st: "set s = set xs" by (metis set_mset_mset)
  obtain a t where s: "s = a # t" using ms assms(1) by (cases s) auto
  show m: "f (hd s) = Max (set (map f xs))"
    using Max_desc [of f a t] d st [symmetric] s by simp
  have "mset (remove1 (f a) (map f xs)) = mset (map f t)"
    using ms s by (metis add_mset_remove_trivial list.simps(9) mset.simps(2) mset_map mset_remove1)
  then have r: "set (remove1 (f a) (map f xs)) = set (map f t)" "length (remove1 (f a) (map f xs)) = length t"
    by (metis set_mset_mset, metis length_map size_mset)
  show "sorted_price f s = second_highest (map f xs)"
  proof (cases t)
    case Nil
    with r m s show ?thesis by (simp add: sorted_price_def second_highest_def Let_def)
  next
    case (Cons b u)
    then have "Max (set (map f t)) = f b" using Max_desc [of f b u] d s by simp
    moreover have "remove1 (f a) (map f xs) \<noteq> []" using r(2) Cons by auto
    ultimately show ?thesis using Cons m s r by (simp add: sorted_price_def second_highest_def Let_def)
  qed
qed

lemma second_highest_le: "vs \<noteq> [] \<Longrightarrow> second_highest vs \<le> Max (set vs)"
  unfolding second_highest_def Let_def
  by (auto intro!: Max_mono dest: set_remove1_subset [THEN subsetD])

lemma second_highest_in: "vs \<noteq> [] \<Longrightarrow> second_highest vs \<in> set vs"
proof -
  assume "vs \<noteq> []"
  moreover have "Max (set (remove1 m vs)) \<in> set (remove1 m vs)" if "remove1 m vs \<noteq> []" for m
    using that by (intro Max_in) auto
  then have "remove1 m vs \<noteq> [] \<Longrightarrow> Max (set (remove1 m vs)) \<in> set vs" for m
    by (meson notin_set_remove1)
  ultimately show ?thesis
    unfolding second_highest_def Let_def by auto
qed

lemma second_highest_perm:
  assumes "mset vs = mset ws"
  shows "second_highest vs = second_highest ws"
proof -
  have "set vs = set ws" using assms by (metis set_mset_mset)
  moreover have "mset (remove1 m vs) = mset (remove1 m ws)" for m using assms by simp
  then have "set (remove1 m vs) = set (remove1 m ws)" "(remove1 m vs = []) = (remove1 m ws = [])" for m
    by (metis set_mset_mset, metis mset_zero_iff)
  ultimately show ?thesis by (simp add: second_highest_def Let_def)
qed

end
