(* ===== verification/Receipt.thy ===== *)
theory Receipt
  imports SecondPrice "HOL-Library.Word"
begin

text \<open>
  Verifiable auction receipts (\<open>packages/core/src/receipt.ts\<close>): the acknowledgement and receipt
  objects, the audit a searcher runs, and the Merkle accumulation.

  Parameters stand for the library functions: \<open>recover\<close> for \<open>recoverTypedDataAddress\<close> (\<open>None\<close>
  where it throws), \<open>sign\<close> for the wallet's typed-data signature (\<open>None\<close> where it rejects), \<open>hvec\<close> for
  \<open>keccak256(encodeAbiParameters(...))\<close> over the bid vectors (\<open>None\<close> where the encoder rejects a
  value), \<open>kp\<close> for \<open>keccak256(encodePacked(["bytes32", "bytes32"], [a, b]))\<close>.
\<close>

section \<open>Types\<close>

record receipt_bid =
  rb_searcher :: string
  rb_bid_wei :: string
  rb_received_at :: int
  rb_bid_sig :: "string option"

record bid_ack =
  ack_opportunity :: string
  ack_searcher :: string
  ack_bid_wei :: string
  ack_received_at :: int
  ack_signature :: string

record auction_receipt =
  rc_opportunity :: string
  rc_bids :: "receipt_bid list"
  rc_winner :: "string option"
  rc_clearing :: string
  rc_closed_at :: int
  rc_signature :: "string option"

text \<open>The three EIP-712 messages, with the domain they are signed under.\<close>

datatype typed_msg =
    AckMsg int string string int int
  | ReceiptMsg int string string string int int
  | BidMsg int string string string int

section \<open>Messages\<close>

definition opportunity_id_to_bytes32 :: "string \<Rightarrow> string" where
  "opportunity_id_to_bytes32 i =
     (if is_hex 64 i then i else ''0x'' @ pad_end 64 CHR ''0'' (filter (\<lambda>c. c \<noteq> CHR ''-'') i))"

text \<open>\<open>None\<close> where an amount of the list is no number: \<open>BigInt\<close> throws.\<close>

definition bid_weis :: "receipt_bid list \<Rightarrow> int list option" where
  "bid_weis bids =
     (if list_all (\<lambda>b. big_int (rb_bid_wei b) \<noteq> None) bids
      then Some (map (\<lambda>b. the (big_int (rb_bid_wei b))) bids) else None)"

definition hash_bids ::
  "(string list \<Rightarrow> int list \<Rightarrow> int list \<Rightarrow> string option) \<Rightarrow> string \<Rightarrow> receipt_bid list \<Rightarrow> string option" where
  "hash_bids hvec hempty bids =
     (if bids = [] then Some hempty
      else case bid_weis bids of
             None \<Rightarrow> None
           | Some ws \<Rightarrow> hvec (map rb_searcher bids) ws (map rb_received_at bids))"

definition ack_message :: "int \<Rightarrow> bid_ack \<Rightarrow> typed_msg option" where
  "ack_message chain ack =
     (case big_int (ack_bid_wei ack) of
        None \<Rightarrow> None
      | Some w \<Rightarrow> Some (AckMsg chain (opportunity_id_to_bytes32 (ack_opportunity ack)) (ack_searcher ack) w (ack_received_at ack)))"

definition receipt_message ::
  "(string list \<Rightarrow> int list \<Rightarrow> int list \<Rightarrow> string option) \<Rightarrow> string \<Rightarrow> int \<Rightarrow> auction_receipt \<Rightarrow> typed_msg option" where
  "receipt_message hvec hempty chain r =
     (case (hash_bids hvec hempty (rc_bids r), big_int (rc_clearing r)) of
        (Some h, Some p) \<Rightarrow>
          Some (ReceiptMsg chain (opportunity_id_to_bytes32 (rc_opportunity r)) h
                  (case rc_winner r of None \<Rightarrow> zero_address | Some w \<Rightarrow> w) p (rc_closed_at r))
      | _ \<Rightarrow> None)"

definition sign_ack :: "(typed_msg \<Rightarrow> string option) \<Rightarrow> int \<Rightarrow> bid_ack \<Rightarrow> bid_ack option" where
  "sign_ack sign chain ack =
     (case ack_message chain ack of
        None \<Rightarrow> None
      | Some m \<Rightarrow> (case sign m of None \<Rightarrow> None | Some s \<Rightarrow> Some (ack\<lparr>ack_signature := s\<rparr>)))"

definition sign_receipt ::
  "(string list \<Rightarrow> int list \<Rightarrow> int list \<Rightarrow> string option) \<Rightarrow> string \<Rightarrow> (typed_msg \<Rightarrow> string option) \<Rightarrow> int \<Rightarrow>
   auction_receipt \<Rightarrow> auction_receipt option" where
  "sign_receipt hvec hempty sign chain r =
     (case receipt_message hvec hempty chain r of
        None \<Rightarrow> None
      | Some m \<Rightarrow> (case sign m of None \<Rightarrow> None | Some s \<Rightarrow> Some (r\<lparr>rc_signature := Some s\<rparr>)))"

definition recover_ack_signer :: "(typed_msg \<Rightarrow> string \<Rightarrow> string option) \<Rightarrow> int \<Rightarrow> bid_ack \<Rightarrow> string option" where
  "recover_ack_signer recover chain ack =
     (case ack_message chain ack of None \<Rightarrow> None | Some m \<Rightarrow> recover m (ack_signature ack))"

definition recover_receipt_signer ::
  "(string list \<Rightarrow> int list \<Rightarrow> int list \<Rightarrow> string option) \<Rightarrow> string \<Rightarrow>
   (typed_msg \<Rightarrow> string \<Rightarrow> string option) \<Rightarrow> int \<Rightarrow> auction_receipt \<Rightarrow> string option" where
  "recover_receipt_signer hvec hempty recover chain r =
     (case rc_signature r of
        None \<Rightarrow> None
      | Some s \<Rightarrow> if s = [] then None
                  else case receipt_message hvec hempty chain r of None \<Rightarrow> None | Some m \<Rightarrow> recover m s)"

section \<open>The audit\<close>

datatype audit_reason =
    DifferentOpportunity
  | SignatureMalformed
  | ReceiptSignedBy string
  | AckSignedBy string
  | BidMissing
  | BidAltered string string
  | NoSearcherSignature string
  | MalformedBidSignature string
  | BidSignedBy string string
  | WinnerWithoutBids
  | NoWinnerDeclared
  | WinnerNotHighest string
  | WrongClearingPrice string int

datatype audit_finding = AuditOk | AuditBad audit_reason

text \<open>A \<open>None\<close> result is a rejected promise: \<open>BigInt\<close> threw outside the \<open>try\<close>.\<close>

fun audit_bids ::
  "(typed_msg \<Rightarrow> string \<Rightarrow> string option) \<Rightarrow> int \<Rightarrow> string \<Rightarrow> string \<Rightarrow> receipt_bid list \<Rightarrow> audit_finding" where
  "audit_bids recover chain settlement opp [] = AuditOk"
| "audit_bids recover chain settlement opp (b # bs) =
     (case rb_bid_sig b of
        None \<Rightarrow> AuditBad (NoSearcherSignature (rb_searcher b))
      | Some s \<Rightarrow>
          if s = [] then AuditBad (NoSearcherSignature (rb_searcher b))
          else case (case big_int (rb_bid_wei b) of
                       None \<Rightarrow> None
                     | Some w \<Rightarrow> recover (BidMsg chain settlement (rb_searcher b) (opportunity_id_to_bytes32 opp) w) s) of
                 None \<Rightarrow> AuditBad (MalformedBidSignature (rb_searcher b))
               | Some signer \<Rightarrow>
                   if lower signer \<noteq> lower (rb_searcher b)
                   then AuditBad (BidSignedBy (rb_searcher b) signer)
                   else audit_bids recover chain settlement opp bs)"

definition audit_bid_authenticity ::
  "(typed_msg \<Rightarrow> string \<Rightarrow> string option) \<Rightarrow> auction_receipt \<Rightarrow> int \<Rightarrow> string \<Rightarrow> audit_finding" where
  "audit_bid_authenticity recover r chain settlement =
     audit_bids recover chain settlement (rc_opportunity r) (rc_bids r)"

definition rb_wei :: "receipt_bid \<Rightarrow> int" where
  "rb_wei b = the (big_int (rb_bid_wei b))"

definition no_winner :: "string option \<Rightarrow> bool" where
  "no_winner w \<longleftrightarrow> (case w of None \<Rightarrow> True | Some a \<Rightarrow> a = [] \<or> a = zero_address)"

definition audit_clearing_price :: "auction_receipt \<Rightarrow> audit_finding option" where
  "audit_clearing_price r =
     (if rc_bids r = [] then
        Some (if no_winner (rc_winner r) then AuditOk else AuditBad WinnerWithoutBids)
      else case bid_weis (rc_bids r) of
        None \<Rightarrow> None
      | Some _ \<Rightarrow>
          let sorted = js_sort (cmp_desc rb_wei) (rc_bids r);
              highest = sorted ! 0;
              expected = sorted_price rb_wei sorted in
          if no_winner (rc_winner r) then Some (AuditBad NoWinnerDeclared)
          else if lower (the (rc_winner r)) \<noteq> lower (rb_searcher highest)
               then Some (AuditBad (WinnerNotHighest (the (rc_winner r))))
          else case big_int (rc_clearing r) of
                 None \<Rightarrow> None
               | Some p \<Rightarrow> Some (if p \<noteq> expected then AuditBad (WrongClearingPrice (rc_clearing r) expected) else AuditOk))"

definition audit_receipt ::
  "(string list \<Rightarrow> int list \<Rightarrow> int list \<Rightarrow> string option) \<Rightarrow> string \<Rightarrow>
   (typed_msg \<Rightarrow> string \<Rightarrow> string option) \<Rightarrow>
   auction_receipt \<Rightarrow> bid_ack \<Rightarrow> int \<Rightarrow> string \<Rightarrow> string option \<Rightarrow> audit_finding option" where
  "audit_receipt hvec hempty recover r ack chain auctioneer settlement =
     (if lower (rc_opportunity r) \<noteq> lower (ack_opportunity ack) then Some (AuditBad DifferentOpportunity)
      else case (recover_receipt_signer hvec hempty recover chain r, recover_ack_signer recover chain ack) of
        (Some rs, Some as) \<Rightarrow>
          if lower rs \<noteq> lower auctioneer then Some (AuditBad (ReceiptSignedBy rs))
          else if lower as \<noteq> lower auctioneer then Some (AuditBad (AckSignedBy as))
          else (case find (\<lambda>b. lower (rb_searcher b) = lower (ack_searcher ack)) (rc_bids r) of
                  None \<Rightarrow> Some (AuditBad BidMissing)
                | Some mine \<Rightarrow>
                    (case (big_int (rb_bid_wei mine), big_int (ack_bid_wei ack)) of
                       (Some a, Some b) \<Rightarrow>
                         if a \<noteq> b then Some (AuditBad (BidAltered (ack_bid_wei ack) (rb_bid_wei mine)))
                         else (case settlement of
                                 None \<Rightarrow> audit_clearing_price r
                               | Some st \<Rightarrow>
                                   if st = [] then audit_clearing_price r
                                   else (case audit_bid_authenticity recover r chain st of
                                           AuditOk \<Rightarrow> audit_clearing_price r
                                         | f \<Rightarrow> Some f))
                     | _ \<Rightarrow> None))
      | _ \<Rightarrow> Some (AuditBad SignatureMalformed))"

subsection \<open>What a passed audit means\<close>

lemma bid_weis_Some: "bid_weis bids = Some ws \<Longrightarrow> ws = map rb_wei bids \<and> (\<forall>b \<in> set bids. big_int (rb_bid_wei b) = Some (rb_wei b))"
  by (auto simp: bid_weis_def rb_wei_def list_all_iff split: if_splits)

lemma js_sort_ne: "js_sort cmp xs = [] \<longleftrightarrow> xs = []"
  by (metis length_0_conv length_js_sort)

lemma audit_clearing_price_ok:
  assumes "audit_clearing_price r = Some AuditOk" "rc_bids r \<noteq> []"
  shows "\<exists>w. rc_winner r = Some w \<and>
           (\<exists>b \<in> set (rc_bids r). lower (rb_searcher b) = lower w \<and> rb_wei b = Max (set (map rb_wei (rc_bids r)))) \<and>
           big_int (rc_clearing r) = Some (second_highest (map rb_wei (rc_bids r)))"
proof -
  let ?s = "js_sort (cmp_desc rb_wei) (rc_bids r)"
  have ne: "?s \<noteq> []" using assms(2) by (simp add: js_sort_ne)
  have hd: "hd ?s = ?s ! 0" "?s ! 0 \<in> set (rc_bids r)"
    using ne by (simp add: hd_conv_nth, metis hd_conv_nth list.set_sel(1) set_js_sort)
  from assms obtain p where
    w: "\<not> no_winner (rc_winner r)" "lower (the (rc_winner r)) = lower (rb_searcher (?s ! 0))"
    and p: "big_int (rc_clearing r) = Some p" "p = sorted_price rb_wei ?s"
    by (auto simp: audit_clearing_price_def Let_def split: option.splits if_splits)
  from w(1) obtain a where a: "rc_winner r = Some a" by (auto simp: no_winner_def split: option.splits)
  show ?thesis
    using w a p hd sorted_price_second [OF assms(2), of rb_wei] by auto
qed

lemma audit_bids_ok:
  "audit_bids recover chain st opp bs = AuditOk \<Longrightarrow> b \<in> set bs \<Longrightarrow>
     \<exists>s w signer. rb_bid_sig b = Some s \<and> big_int (rb_bid_wei b) = Some w \<and>
       recover (BidMsg chain st (rb_searcher b) (opportunity_id_to_bytes32 opp) w) s = Some signer \<and>
       lower signer = lower (rb_searcher b)"
  by (induction recover chain st opp bs rule: audit_bids.induct)
    (auto split: option.splits if_splits)

lemma audit_receipt_ok_parts:
  assumes "audit_receipt hvec hempty recover r ack chain auc st = Some AuditOk"
  shows "audit_clearing_price r = Some AuditOk"
    and "\<exists>mine \<in> set (rc_bids r). lower (rb_searcher mine) = lower (ack_searcher ack) \<and>
           big_int (rb_bid_wei mine) = big_int (ack_bid_wei ack) \<and> big_int (ack_bid_wei ack) \<noteq> None"
    and "st = Some s \<Longrightarrow> s \<noteq> [] \<Longrightarrow> audit_bid_authenticity recover r chain s = AuditOk"
    and "\<exists>rs. recover_receipt_signer hvec hempty recover chain r = Some rs \<and> lower rs = lower auc"
  using assms
  by (auto simp: audit_receipt_def dest!: find_SomeD
      split: option.splits if_splits audit_finding.splits)


definition demo_receipt :: auction_receipt where
  "demo_receipt = \<lparr>rc_opportunity = ''ab'',
     rc_bids = [\<lparr>rb_searcher = ''0xA1'', rb_bid_wei = ''70'', rb_received_at = 1, rb_bid_sig = Some ''0xa1''\<rparr>,
                \<lparr>rb_searcher = ''0xc3'', rb_bid_wei = ''90'', rb_received_at = 2, rb_bid_sig = Some ''0xc3''\<rparr>],
     rc_winner = Some ''0xC3'', rc_clearing = ''70'', rc_closed_at = 3, rc_signature = Some ''0xau''\<rparr>"

definition demo_ack :: bid_ack where
  "demo_ack = \<lparr>ack_opportunity = ''AB'', ack_searcher = ''0xa1'', ack_bid_wei = ''0x46'', ack_received_at = 1, ack_signature = ''0xAu''\<rparr>"

text \<open>A signature scheme in which a signature names its signer.\<close>

definition demo_recover :: "typed_msg \<Rightarrow> string \<Rightarrow> string option" where
  "demo_recover m s = Some s"

lemma demo_audit:
  "audit_receipt (\<lambda>_ _ _. Some ''h'') ''e'' demo_recover demo_receipt demo_ack 1 ''0xAU'' (Some (CHR ''s'' # [])) = Some AuditOk"
  by code_simp


subsection \<open>The lookup of the acknowledged bid\<close>

text \<open>
  The audit compares the acknowledgement with the \<open>first\<close> bid of its searcher. The auction accepts a
  second bid of a searcher on the same opportunity, acknowledges it, and lists both; the audit of
  that honest receipt against the second acknowledgement then reports an altered bid.
\<close>

lemma audit_first_bid_only:
  assumes "lower (rc_opportunity r) = lower (ack_opportunity ack)"
    and "recover_receipt_signer hvec hempty recover chain r = Some rs" "lower rs = lower auc"
    and "recover_ack_signer recover chain ack = Some as" "lower as = lower auc"
    and "rc_bids r = b1 # bs" "lower (rb_searcher b1) = lower (ack_searcher ack)"
    and "big_int (rb_bid_wei b1) = Some v1" "big_int (ack_bid_wei ack) = Some v2" "v1 \<noteq> v2"
  shows "audit_receipt hvec hempty recover r ack chain auc st = Some (AuditBad (BidAltered (ack_bid_wei ack) (rb_bid_wei b1)))"
  using assms by (simp add: audit_receipt_def)

section \<open>Merkle accumulation\<close>

type_synonym bytes32 = "256 word"

definition pair_hash :: "(bytes32 \<Rightarrow> bytes32 \<Rightarrow> bytes32) \<Rightarrow> bytes32 \<Rightarrow> bytes32 \<Rightarrow> bytes32" where
  "pair_hash kp a b = (if a \<le> b then kp a b else kp b a)"

definition receipt_hash ::
  "(string list \<Rightarrow> int list \<Rightarrow> int list \<Rightarrow> string option) \<Rightarrow> string \<Rightarrow>
   (string \<Rightarrow> string \<Rightarrow> string \<Rightarrow> int \<Rightarrow> int \<Rightarrow> bytes32 option) \<Rightarrow> auction_receipt \<Rightarrow> bytes32 option" where
  "receipt_hash hvec hempty hrec r =
     (case receipt_message hvec hempty 0 r of
        Some (ReceiptMsg _ opp h w p c) \<Rightarrow> hrec opp h w p c
      | _ \<Rightarrow> None)"

fun merkle_level :: "('h \<Rightarrow> 'h \<Rightarrow> 'h) \<Rightarrow> 'h list \<Rightarrow> 'h list" where
  "merkle_level node (x # y # zs) = node x y # merkle_level node zs"
| "merkle_level node xs = xs"

lemma length_merkle_level: "length (merkle_level node xs) = (length xs + 1) div 2"
  by (induction node xs rule: merkle_level.induct) auto

function merkle_top :: "('h \<Rightarrow> 'h \<Rightarrow> 'h) \<Rightarrow> 'h list \<Rightarrow> 'h list" where
  "merkle_top node level = (if length level > 1 then merkle_top node (merkle_level node level) else level)"
  by pat_completeness auto
termination
  by (relation "measure (\<lambda>(_, level). length level)") (auto simp: length_merkle_level)

declare merkle_top.simps [simp del]

definition merkle_root :: "(bytes32 \<Rightarrow> bytes32 \<Rightarrow> bytes32) \<Rightarrow> bytes32 list \<Rightarrow> bytes32" where
  "merkle_root kp leaves = (if leaves = [] then 0 else hd (merkle_top (pair_hash kp) leaves))"

text \<open>What one pass over a level pushes onto the proof of the node at \<open>idx\<close>.\<close>

fun level_sibling :: "nat \<Rightarrow> nat \<Rightarrow> 'h list \<Rightarrow> 'h list" where
  "level_sibling i idx (x # y # zs) =
     (if i = idx then [y] else if i + 1 = idx then [x] else []) @ level_sibling (i + 2) idx zs"
| "level_sibling i idx xs = []"

function merkle_path :: "('h \<Rightarrow> 'h \<Rightarrow> 'h) \<Rightarrow> 'h list \<Rightarrow> nat \<Rightarrow> 'h list" where
  "merkle_path node level idx =
     (if length level > 1
      then level_sibling 0 idx level @ merkle_path node (merkle_level node level) (idx div 2) else [])"
  by pat_completeness auto
termination
  by (relation "measure (\<lambda>(_, level, _). length level)") (auto simp: length_merkle_level)

declare merkle_path.simps [simp del]

definition merkle_proof :: "(bytes32 \<Rightarrow> bytes32 \<Rightarrow> bytes32) \<Rightarrow> bytes32 list \<Rightarrow> int \<Rightarrow> bytes32 list option" where
  "merkle_proof kp leaves index =
     (if index < 0 \<or> index \<ge> int (length leaves) then None
      else Some (merkle_path (pair_hash kp) leaves (nat index)))"

definition verify_merkle_proof ::
  "(bytes32 \<Rightarrow> bytes32 \<Rightarrow> bytes32) \<Rightarrow> bytes32 \<Rightarrow> bytes32 list \<Rightarrow> bytes32 \<Rightarrow> bool" where
  "verify_merkle_proof kp leaf pf root = (foldl (pair_hash kp) leaf pf = root)"

subsection \<open>Interface: a commutative node function\<close>

text \<open>The paths of a tree verify for any node function that does not depend on the order of its children.\<close>

locale merkle_node =
  fixes node :: "'h \<Rightarrow> 'h \<Rightarrow> 'h"
  assumes node_comm: "node a b = node b a"
begin

lemma level_sibling_shift: "level_sibling (i + k) (idx + k) xs = level_sibling i idx xs"
  by (induction i idx xs rule: level_sibling.induct) (auto simp: add.commute add.left_commute)

lemma level_sibling_past: "idx < i \<Longrightarrow> level_sibling i idx xs = []"
  by (induction i idx xs rule: level_sibling.induct) auto

lemma level_step:
  "idx < length level \<Longrightarrow>
     foldl node (level ! idx) (level_sibling 0 idx level) = merkle_level node level ! (idx div 2)"
proof (induction level arbitrary: idx rule: induct_list012)
  case (3 x y zs)
  show ?case
  proof (cases "idx < 2")
    case True
    then have "idx = 0 \<or> idx = 1" by auto
    then show ?thesis by (auto simp: level_sibling_past node_comm)
  next
    case False
    then obtain k where k: "idx = k + 2" by (metis add.commute le_Suc_ex not_less)
    have "level_sibling (Suc (Suc 0)) (Suc (Suc k)) zs = level_sibling 0 k zs"
      using level_sibling_shift [of 0 2 k zs] by (simp add: numeral_2_eq_2)
    with 3 k show ?thesis by simp
  qed
qed auto

lemma path_verifies:
  "idx < length level \<Longrightarrow> foldl node (level ! idx) (merkle_path node level idx) = hd (merkle_top node level)"
proof (induction "length level" arbitrary: level idx rule: less_induct)
  case less
  show ?case
  proof (cases "length level > 1")
    case True
    then have "idx div 2 < length (merkle_level node level)"
      using less.prems by (simp add: length_merkle_level)
    then show ?thesis
      using True less by (simp add: merkle_path.simps [of node level idx] merkle_top.simps [of node level]
          level_step length_merkle_level)
  next
    case False
    then obtain x where "level = [x]" "idx = 0"
      using less.prems by (cases level) auto
    then show ?thesis
      by (simp add: merkle_path.simps [of node "[x]" 0] merkle_top.simps [of node "[x]"])
  qed
qed

end

lemma pair_hash_comm: "pair_hash kp a b = pair_hash kp b a"
  by (auto simp: pair_hash_def)

interpretation sorted_pair: merkle_node "pair_hash kp" for kp
  by unfold_locales (rule pair_hash_comm)

text \<open>
  The proof generated for any leaf of a receipt log verifies against the root of that log,
  whatever the hash function, for every length of the log (odd nodes are carried up unpaired).
\<close>

theorem merkle_proof_verifies:
  assumes "0 \<le> index" and "index < int (length leaves)"
  shows "\<exists>pf. merkle_proof kp leaves index = Some pf \<and>
           verify_merkle_proof kp (leaves ! nat index) pf (merkle_root kp leaves)"
proof -
  have "nat index < length leaves" using assms by linarith
  then have "foldl (pair_hash kp) (leaves ! nat index) (merkle_path (pair_hash kp) leaves (nat index)) =
     hd (merkle_top (pair_hash kp) leaves)"
    by (rule sorted_pair.path_verifies)
  moreover have "leaves \<noteq> []" using assms by auto
  ultimately show ?thesis
    using assms by (simp add: merkle_proof_def verify_merkle_proof_def merkle_root_def)
qed

theorem merkle_proof_verifies_witness:
  "\<exists>pf. merkle_proof (\<lambda>a b. 3 * a + b) [1, 2, 3, 4, 5] 4 = Some pf \<and>
     verify_merkle_proof (\<lambda>a b. 3 * a + b) ([1, 2, 3, 4, 5] ! nat 4) pf (merkle_root (\<lambda>a b. 3 * a + b) [1, 2, 3, 4, 5])"
  by (rule merkle_proof_verifies) simp_all

definition collision :: "(bytes32 \<Rightarrow> bytes32 \<Rightarrow> bytes32) \<Rightarrow> bool" where
  "collision kp \<longleftrightarrow> (\<exists>a b c d. (a, b) \<noteq> (c, d) \<and> kp a b = kp c d)"

lemma pair_hash_inj: "pair_hash kp a s = pair_hash kp b s \<Longrightarrow> a \<noteq> b \<Longrightarrow> collision kp"
  unfolding collision_def pair_hash_def
  by (metis (no_types, lifting) Pair_inject)

lemma foldl_pair_hash_inj:
  "a \<noteq> b \<Longrightarrow> foldl (pair_hash kp) a pf = foldl (pair_hash kp) b pf \<Longrightarrow> collision kp"
  by (induction pf arbitrary: a b) (auto intro: pair_hash_inj)

text \<open>
  C31: an anchored root and a proof path commit to one receipt: exhibiting a second leaf for the same
  path is exhibiting a collision of the node hash.
\<close>

theorem merkle_proof_binding:
  assumes "verify_merkle_proof kp leaf pf root" and "verify_merkle_proof kp leaf' pf root" and "leaf \<noteq> leaf'"
  shows "\<exists>a b c d. (a, b) \<noteq> (c, d) \<and> kp a b = kp c d"
  using assms foldl_pair_hash_inj [of leaf leaf' kp pf]
  by (simp add: verify_merkle_proof_def collision_def)

theorem merkle_proof_binding_witness:
  "\<exists>a b c d :: bytes32. (a, b) \<noteq> (c, d) \<and> (\<lambda>x y. 7) a b = ((\<lambda>x y. 7) c d :: bytes32)"
  using merkle_proof_binding [of "\<lambda>x y. 7" 1 "[5]" 7 2]
  by (simp add: verify_merkle_proof_def pair_hash_def)

end
