(* ===== verification/Auctioneer.thy ===== *)
theory Auctioneer
  imports SecondPrice Hints
begin

text \<open>
  The sealed-bid, second-price auction of one opportunity (\<open>apps/auction/src/auctioneer.ts\<close>, types in
  \<open>types.ts\<close>). An auction is its accepted bids in arrival order, the closed flag, and the value
  its \<open>settled\<close> promise was resolved with. The close timer is the event \<open>CloseTimer\<close>.
\<close>

section \<open>Types\<close>

record opportunity_hint =
  oh_pools_touched :: "string list"
  oh_swaps :: "swap_hint list"
  oh_to :: "string option"
  oh_selector :: "string option"
  oh_value :: string
  oh_simulated :: bool
  oh_level :: hint_level

record opportunity =
  opp_id :: string
  opp_created_at :: int
  opp_hint :: opportunity_hint
  opp_origin_label :: string
  opp_origin_rebate :: "string option"

record bid =
  bid_opportunity :: string
  bid_searcher :: string
  bid_wei :: string
  bid_backrun :: string
  bid_sig :: "string option"
  bid_received_at :: int

record settlement_record =
  sr_opportunity :: string
  sr_searcher :: string
  sr_max_amount :: string
  sr_charge :: string
  sr_user :: string
  sr_app :: string
  sr_searcher_sig :: "string option"
  sr_created_at :: int

record auction_result =
  ar_opportunity :: string
  ar_winner :: "string option"
  ar_clearing :: string
  ar_bid_count :: nat
  ar_user_tx :: "string option"
  ar_backrun_tx :: "string option"
  ar_dispatched_at :: int

record ledger_entry =
  le_opportunity :: string
  le_at :: int
  le_total :: string
  le_user :: string
  le_app :: string
  le_protocol :: string
  le_app_address :: "string option"
  le_searcher :: string

section \<open>The auction\<close>

record outcome =
  oc_winner :: "bid option"
  oc_clearing :: int

record auction =
  au_opportunity :: opportunity
  au_bids :: "bid list"
  au_closed :: bool
  au_settled :: "outcome option"

datatype bid_reply = Accepted | Rejected string

definition new_auction :: "opportunity \<Rightarrow> auction" where
  "new_auction opp = \<lparr>au_opportunity = opp, au_bids = [], au_closed = False, au_settled = None\<rparr>"

definition close_delay :: "int \<Rightarrow> int" where
  "close_delay window_ms = max 0 window_ms"

definition submit_bid :: "auction \<Rightarrow> bid \<Rightarrow> auction \<times> bid_reply" where
  "submit_bid a b =
     (if au_closed a then (a, Rejected ''auction closed'')
      else case big_int (bid_wei b) of
             None \<Rightarrow> (a, Rejected ''invalid bidWei'')
           | Some wei \<Rightarrow>
               if wei \<le> 0 then (a, Rejected ''bid must be positive'')
               else if \<not> starts_with ''0x'' (bid_backrun b) then (a, Rejected ''missing backrunRawTx'')
               else (a\<lparr>au_bids := au_bids a @ [b]\<rparr>, Accepted))"

definition bid_value :: "bid \<Rightarrow> int" where
  "bid_value b = the (big_int (bid_wei b))"

definition resolve_bids :: "bid list \<Rightarrow> outcome" where
  "resolve_bids bids =
     (if bids = [] then \<lparr>oc_winner = None, oc_clearing = 0\<rparr>
      else let sorted = js_sort (cmp_desc bid_value) bids in
           \<lparr>oc_winner = Some (sorted ! 0),
            oc_clearing = (if length sorted \<ge> 2 then bid_value (sorted ! 1) else bid_value (sorted ! 0))\<rparr>)"

definition close_auction :: "auction \<Rightarrow> auction" where
  "close_auction a =
     (if au_closed a then a else a\<lparr>au_closed := True, au_settled := Some (resolve_bids (au_bids a))\<rparr>)"

definition bid_count :: "auction \<Rightarrow> nat" where
  "bid_count a = length (au_bids a)"

definition to_result :: "opportunity \<Rightarrow> outcome \<Rightarrow> nat \<Rightarrow> string option \<Rightarrow> string option \<Rightarrow> int \<Rightarrow> auction_result" where
  "to_result opp oc n user_tx backrun_tx now =
     \<lparr>ar_opportunity = opp_id opp, ar_winner = map_option bid_searcher (oc_winner oc),
      ar_clearing = to_str (oc_clearing oc), ar_bid_count = n, ar_user_tx = user_tx,
      ar_backrun_tx = backrun_tx, ar_dispatched_at = now\<rparr>"

section \<open>Runs\<close>

datatype auction_event = BidArrives bid | CloseTimer

fun auction_step :: "auction \<Rightarrow> auction_event \<Rightarrow> auction" where
  "auction_step a (BidArrives b) = fst (submit_bid a b)"
| "auction_step a CloseTimer = close_auction a"

definition auction_run :: "opportunity \<Rightarrow> auction_event list \<Rightarrow> auction" where
  "auction_run opp es = foldl auction_step (new_auction opp) es"

definition valid_bid :: "bid \<Rightarrow> bool" where
  "valid_bid b \<longleftrightarrow>
     (case big_int (bid_wei b) of None \<Rightarrow> False | Some w \<Rightarrow> 0 < w) \<and> starts_with ''0x'' (bid_backrun b)"

lemma valid_bid_iff:
  "valid_bid b \<longleftrightarrow> (\<exists>w. big_int (bid_wei b) = Some w \<and> 0 < w) \<and> starts_with ''0x'' (bid_backrun b)"
  by (auto simp: valid_bid_def split: option.splits)

definition auction_inv :: "auction \<Rightarrow> bool" where
  "auction_inv a \<longleftrightarrow> (\<forall>b \<in> set (au_bids a). valid_bid b) \<and>
     (case au_settled a of None \<Rightarrow> \<not> au_closed a | Some oc \<Rightarrow> au_closed a \<and> oc = resolve_bids (au_bids a))"

lemma submit_bid_cases:
  "submit_bid a b = (a\<lparr>au_bids := au_bids a @ [b]\<rparr>, Accepted) \<and> \<not> au_closed a \<and> valid_bid b \<or>
   (\<exists>r. submit_bid a b = (a, Rejected r))"
  by (auto simp: submit_bid_def valid_bid_iff split: option.splits)

lemma auction_inv_new: "auction_inv (new_auction opp)"
  by (simp add: auction_inv_def new_auction_def)

lemma auction_inv_step: "auction_inv a \<Longrightarrow> auction_inv (auction_step a e)"
proof (cases e)
  case (BidArrives b)
  assume "auction_inv a"
  with BidArrives show ?thesis
    using submit_bid_cases [of a b] by (auto simp: auction_inv_def split: option.splits)
next
  case CloseTimer
  assume "auction_inv a"
  with CloseTimer show ?thesis by (auto simp: auction_inv_def close_auction_def split: option.splits)
qed

lemma auction_inv_foldl: "auction_inv a \<Longrightarrow> auction_inv (foldl auction_step a es)"
  by (induction es arbitrary: a) (auto simp: auction_inv_step)

lemma auction_inv_run: "auction_inv (auction_run opp es)"
  by (simp add: auction_run_def auction_inv_foldl auction_inv_new)

lemma closed_step: "au_closed a \<Longrightarrow> auction_step a e = a"
  by (cases e) (auto simp: submit_bid_def close_auction_def)

lemma closed_foldl: "au_closed a \<Longrightarrow> foldl auction_step a es = a"
  by (induction es arbitrary: a) (simp_all add: closed_step)

lemma resolve_bids_spec:
  assumes "bids \<noteq> []"
  shows "\<exists>w. oc_winner (resolve_bids bids) = Some w \<and> w \<in> set bids \<and> bid_value w = Max (set (map bid_value bids))"
    and "oc_clearing (resolve_bids bids) = second_highest (map bid_value bids)"
proof -
  let ?s = "js_sort (cmp_desc bid_value) bids"
  have ne: "?s \<noteq> []" using assms by (metis length_0_conv length_js_sort)
  then have hd: "hd ?s = ?s ! 0" "?s ! 0 \<in> set bids"
    by (simp add: hd_conv_nth, metis hd_conv_nth list.set_sel(1) set_js_sort)
  show "\<exists>w. oc_winner (resolve_bids bids) = Some w \<and> w \<in> set bids \<and> bid_value w = Max (set (map bid_value bids))"
    using sorted_price_second(1) [OF assms, of bid_value] hd assms by (simp add: resolve_bids_def Let_def)
  show "oc_clearing (resolve_bids bids) = second_highest (map bid_value bids)"
    using sorted_price_second(2) [OF assms, of bid_value] assms
    by (simp add: resolve_bids_def Let_def sorted_price_def)
qed

lemma valid_bid_pos: "valid_bid b \<Longrightarrow> 0 < bid_value b"
  by (auto simp: valid_bid_iff bid_value_def)

lemma second_highest_pos:
  assumes "bids \<noteq> []" "\<forall>b \<in> set bids. valid_bid b"
  shows "0 < second_highest (map bid_value bids)"
  using second_highest_in [of "map bid_value bids"] assms valid_bid_pos by auto

text \<open>
  C20: whatever bids arrive in whatever order before and after the timer, a settled auction that has
  bids names one of them with the greatest amount as the winner and charges the second-highest
  amount, which is positive and never above the winner's own bid.
\<close>

theorem auction_second_price:
  assumes "au_settled (auction_run opp es) = Some oc" and "au_bids (auction_run opp es) \<noteq> []"
  shows "(\<exists>w. oc_winner oc = Some w \<and> w \<in> set (au_bids (auction_run opp es)) \<and>
            bid_value w = Max (set (map bid_value (au_bids (auction_run opp es)))) \<and>
            oc_clearing oc \<le> bid_value w) \<and>
         oc_clearing oc = second_highest (map bid_value (au_bids (auction_run opp es))) \<and>
         0 < oc_clearing oc"
proof -
  let ?bs = "au_bids (auction_run opp es)"
  have inv: "oc = resolve_bids ?bs" "\<forall>b \<in> set ?bs. valid_bid b"
    using auction_inv_run [of opp es] assms(1) by (auto simp: auction_inv_def)
  have "second_highest (map bid_value ?bs) \<le> Max (set (map bid_value ?bs))"
    using assms(2) by (intro second_highest_le) simp
  then show ?thesis
    using resolve_bids_spec [OF assms(2)] second_highest_pos [OF assms(2)] inv by auto
qed

definition demo_hint :: opportunity_hint where
  "demo_hint = \<lparr>oh_pools_touched = [], oh_swaps = [], oh_to = None, oh_selector = None, oh_value = ''0x0'',
     oh_simulated = False, oh_level = Pools\<rparr>"

definition demo_opp :: opportunity where
  "demo_opp = \<lparr>opp_id = ''ab'', opp_created_at = 0, opp_hint = demo_hint, opp_origin_label = ''anon'', opp_origin_rebate = None\<rparr>"

definition demo_bid :: "string \<Rightarrow> string \<Rightarrow> bid" where
  "demo_bid who amount = \<lparr>bid_opportunity = ''ab'', bid_searcher = who, bid_wei = amount, bid_backrun = ''0x02'',
     bid_sig = None, bid_received_at = 5\<rparr>"

definition demo_events :: "auction_event list" where
  "demo_events = [BidArrives (demo_bid ''0xa1'' ''70''), BidArrives (demo_bid ''0xb2'' ''x''),
     BidArrives (demo_bid ''0xc3'' ''90''), CloseTimer, BidArrives (demo_bid ''0xd4'' ''500'')]"

lemma demo_run:
  "au_bids (auction_run demo_opp demo_events) = [demo_bid ''0xa1'' ''70'', demo_bid ''0xc3'' ''90'']"
  "au_settled (auction_run demo_opp demo_events) = Some \<lparr>oc_winner = Some (demo_bid ''0xc3'' ''90''), oc_clearing = 70\<rparr>"
  by code_simp+

theorem auction_second_price_witness:
  "70 = second_highest (map bid_value (au_bids (auction_run demo_opp demo_events)))"
  using auction_second_price [of demo_opp demo_events, OF demo_run(2)] by (simp add: demo_run)

text \<open>
  C23: once the window has closed the round is final: no later bid and no second timer changes the
  accepted bids or the outcome.
\<close>

theorem auction_close_final:
  "foldl auction_step (close_auction a) es = close_auction a"
  by (rule closed_foldl) (simp add: close_auction_def)

end
