(* ===== verification/Ledger.thy ===== *)
theory Ledger
  imports Auctioneer
begin

text \<open>
  Rebate accounting (\<open>apps/auction/src/ledger.ts\<close>): the owed balances, the split of a clearing
  price, and the file the balances are rebuilt from. A line of the file is an entry
  (\<open>Some\<close>) or text \<open>JSON.parse\<close> rejects (\<open>None\<close>). The three shares are given in
  thousandths, as \<open>Math.round(REBATE_SPLIT.x * 1000)\<close>.
\<close>

record split =
  sp_user :: int
  sp_app :: int
  sp_protocol :: int

definition rebate_split :: split where
  "rebate_split = \<lparr>sp_user = 900, sp_app = 50, sp_protocol = 50\<rparr>"

record rebate_ledger =
  owed :: "(string \<times> int) list"
  ledger_file :: "ledger_entry option list"

definition ledger_credit :: "string \<Rightarrow> int \<Rightarrow> (string \<times> int) list \<Rightarrow> (string \<times> int) list" where
  "ledger_credit addr wei m = (let a = lower addr in jset a (jget_or 0 m a + wei) m)"

text \<open>
  The constructor's replay. An unreadable line, or a credited entry whose \<open>appWei\<close> is no number,
  throws, and the one \<open>catch\<close> around the loop ends it there.
\<close>

fun replay :: "(string \<times> int) list \<Rightarrow> ledger_entry option list \<Rightarrow> (string \<times> int) list" where
  "replay m [] = m"
| "replay m (None # ls) = m"
| "replay m (Some e # ls) =
     (case le_app_address e of
        None \<Rightarrow> replay m ls
      | Some a \<Rightarrow>
          if a = [] then replay m ls
          else case big_int (le_app e) of
                 None \<Rightarrow> m
               | Some w \<Rightarrow> replay (ledger_credit a w m) ls)"

definition new_ledger :: "ledger_entry option list \<Rightarrow> rebate_ledger" where
  "new_ledger file = \<lparr>owed = replay [] file, ledger_file = file\<rparr>"

definition split_user :: "split \<Rightarrow> int \<Rightarrow> int" where
  "split_user sp tot = tdiv (tot * sp_user sp) 1000"

definition split_app :: "split \<Rightarrow> int \<Rightarrow> int" where
  "split_app sp tot = tdiv (tot * sp_app sp) 1000"

definition ledger_record ::
  "split \<Rightarrow> rebate_ledger \<Rightarrow> auction_result \<Rightarrow> bid \<Rightarrow> string option \<Rightarrow> int \<Rightarrow> (rebate_ledger \<times> ledger_entry) option" where
  "ledger_record sp l result win app now =
     (case big_int (ar_clearing result) of
        None \<Rightarrow> None
      | Some tot \<Rightarrow>
          let userWei = split_user sp tot;
              appWei = split_app sp tot;
              protocolWei = tot - userWei - appWei;
              entry = \<lparr>le_opportunity = ar_opportunity result, le_at = now, le_total = to_str tot,
                       le_user = to_str userWei, le_app = to_str appWei, le_protocol = to_str protocolWei,
                       le_app_address = app, le_searcher = bid_searcher win\<rparr>;
              owed' = (case app of
                         None \<Rightarrow> owed l
                       | Some a \<Rightarrow> if a = [] then owed l else ledger_credit a appWei (owed l)) in
          Some (\<lparr>owed = owed', ledger_file = ledger_file l @ [Some entry]\<rparr>, entry))"

definition balances :: "rebate_ledger \<Rightarrow> (string \<times> string) list" where
  "balances l = map (\<lambda>(k, v). (k, to_str v)) (owed l)"

section \<open>Balances\<close>

text \<open>The balance of an address, spelled in any case.\<close>

definition owed_to :: "(string \<times> int) list \<Rightarrow> string \<Rightarrow> int" where
  "owed_to m a = jget_or 0 m a"

lemma owed_to_credit: "owed_to (ledger_credit a w m) b = owed_to m b + (if lower a = b then w else 0)"
  by (auto simp: owed_to_def ledger_credit_def Let_def)

text \<open>Accounts of the book are lower-case addresses; a credit goes to the lower-cased address.\<close>

interpretation owed_book: balance_book owed_to "\<lambda>a w m. jset a (jget_or 0 m a + w) m"
  by unfold_locales (auto simp: owed_to_def)

definition entry_credits :: "ledger_entry \<Rightarrow> (string \<times> int) list" where
  "entry_credits e =
     (case le_app_address e of
        None \<Rightarrow> []
      | Some a \<Rightarrow> if a = [] then [] else (case big_int (le_app e) of None \<Rightarrow> [] | Some w \<Rightarrow> [(lower a, w)]))"

definition entry_ok :: "ledger_entry \<Rightarrow> bool" where
  "entry_ok e \<longleftrightarrow> (case le_app_address e of None \<Rightarrow> True | Some a \<Rightarrow> a = [] \<or> big_int (le_app e) \<noteq> None)"

lemma replay_fold:
  "\<forall>e \<in> set es. entry_ok e \<Longrightarrow>
     replay m (map Some es) = fold (\<lambda>(a, w) m. jset a (jget_or 0 m a + w) m) (concat (map entry_credits es)) m"
  by (induction es arbitrary: m)
    (auto simp: entry_ok_def entry_credits_def ledger_credit_def Let_def split: option.splits if_splits)

lemma replay_app: "\<forall>e \<in> set es. entry_ok e \<Longrightarrow> replay m (map Some es @ ls) = replay (replay m (map Some es)) ls"
  by (induction es arbitrary: m) (auto simp: entry_ok_def split: option.splits if_splits)

section \<open>Conservation\<close>

lemma split_bounds:
  assumes "0 \<le> tot" "0 \<le> sp_user sp" "0 \<le> sp_app sp" "sp_user sp + sp_app sp \<le> 1000"
  shows "0 \<le> split_user sp tot" "0 \<le> split_app sp tot" "split_user sp tot + split_app sp tot \<le> tot"
proof -
  have nn: "0 \<le> tot * sp_user sp" "0 \<le> tot * sp_app sp" using assms by simp_all
  show "0 \<le> split_user sp tot" "0 \<le> split_app sp tot"
    using nn by (simp_all add: split_user_def split_app_def tdiv_nonneg_ge0)
  have "split_user sp tot * 1000 \<le> tot * sp_user sp" "split_app sp tot * 1000 \<le> tot * sp_app sp"
    using tdiv_le [OF nn(1), of 1000] tdiv_le [OF nn(2), of 1000] by (simp_all add: split_user_def split_app_def)
  then have "(split_user sp tot + split_app sp tot) * 1000 \<le> tot * (sp_user sp + sp_app sp)"
    by (simp add: algebra_simps)
  also have "\<dots> \<le> tot * 1000" using assms by (intro mult_left_mono) auto
  finally show "split_user sp tot + split_app sp tot \<le> tot" by simp
qed

text \<open>
  The three shares of a recorded rebate are non-negative and add up to the clearing price to the
  wei, for every split of at most 100%; the written entry carries exactly those figures.
\<close>

theorem ledger_conserves:
  assumes "ledger_record sp l result win app now = Some (l', e)"
    and "big_int (ar_clearing result) = Some tot" and "0 \<le> tot"
    and "0 \<le> sp_user sp" "0 \<le> sp_app sp" "sp_user sp + sp_app sp \<le> 1000"
  shows "\<exists>u a p. big_int (le_user e) = Some u \<and> big_int (le_app e) = Some a \<and> big_int (le_protocol e) = Some p \<and>
           0 \<le> u \<and> 0 \<le> a \<and> 0 \<le> p \<and> u + a + p = tot \<and> big_int (le_total e) = Some tot"
  using assms(1,2) split_bounds [OF assms(3-6)] by (auto simp: ledger_record_def Let_def)

definition demo_result :: auction_result where
  "demo_result = \<lparr>ar_opportunity = ''ab'', ar_winner = Some ''0xc3'', ar_clearing = ''1001'', ar_bid_count = 2,
     ar_user_tx = None, ar_backrun_tx = None, ar_dispatched_at = 9\<rparr>"

definition demo_entry :: ledger_entry where
  "demo_entry = \<lparr>le_opportunity = ''ab'', le_at = 10, le_total = ''1001'', le_user = ''900'', le_app = ''50'',
     le_protocol = ''51'', le_app_address = Some ''0xApp'', le_searcher = ''0xc3''\<rparr>"

lemma demo_record:
  "ledger_record rebate_split (new_ledger []) demo_result (demo_bid ''0xc3'' ''90'') (Some ''0xApp'') 10 =
     Some (\<lparr>owed = [(''0xapp'', 50)], ledger_file = [Some demo_entry]\<rparr>, demo_entry)"
  by code_simp

theorem ledger_conserves_witness:
  "\<exists>u a p. big_int (le_user demo_entry) = Some u \<and> big_int (le_app demo_entry) = Some a \<and> big_int (le_protocol demo_entry) = Some p \<and>
     0 \<le> u \<and> 0 \<le> a \<and> 0 \<le> p \<and> u + a + p = 1001 \<and> big_int (le_total demo_entry) = Some 1001"
proof (rule ledger_conserves [OF demo_record])
  show "big_int (ar_clearing demo_result) = Some 1001" by code_simp
qed (simp_all add: rebate_split_def)

section \<open>Restarts\<close>

definition ledger_synced :: "rebate_ledger \<Rightarrow> bool" where
  "ledger_synced l \<longleftrightarrow> (\<exists>es. ledger_file l = map Some es \<and> (\<forall>e \<in> set es. entry_ok e) \<and> owed l = replay [] (ledger_file l))"

lemma ledger_synced_new: "ledger_synced (new_ledger [])"
  by (simp add: ledger_synced_def new_ledger_def)

lemma ledger_synced_record:
  assumes "ledger_synced l" "ledger_record sp l result win app now = Some (l', e)"
  shows "ledger_synced l' \<and> entry_ok e \<and> owed l' = replay (owed l) [Some e]"
proof -
  obtain es where es: "ledger_file l = map Some es" "\<forall>e \<in> set es. entry_ok e" "owed l = replay [] (map Some es)"
    using assms(1) by (auto simp: ledger_synced_def)
  have e: "entry_ok e" "owed l' = replay (owed l) [Some e]" "ledger_file l' = ledger_file l @ [Some e]"
    using assms(2) by (auto simp: ledger_record_def entry_ok_def Let_def split: option.splits if_splits)
  have "replay [] (map Some es @ [Some e]) = replay (replay [] (map Some es)) [Some e]"
    using es(2) by (rule replay_app)
  with es e show ?thesis
    by (auto simp: ledger_synced_def intro!: exI [of _ "es @ [e]"])
qed

text \<open>The arguments of one \<open>record\<close> call.\<close>

type_synonym record_call = "auction_result \<times> bid \<times> string option \<times> int"

fun ledger_records :: "split \<Rightarrow> rebate_ledger \<Rightarrow> record_call list \<Rightarrow> rebate_ledger option" where
  "ledger_records sp l [] = Some l"
| "ledger_records sp l ((r, w, a, t) # cs) =
     (case ledger_record sp l r w a t of None \<Rightarrow> None | Some (l', _) \<Rightarrow> ledger_records sp l' cs)"

lemma ledger_records_synced:
  "ledger_synced l \<Longrightarrow> ledger_records sp l cs = Some l' \<Longrightarrow> ledger_synced l'"
  by (induction sp l cs rule: ledger_records.induct)
    (auto split: option.splits prod.splits dest: ledger_synced_record)

text \<open>
  A restart loses nothing: after any sequence of recorded rebates, a ledger rebuilt from the file
  owes every address exactly what the running one does.
\<close>

theorem ledger_restart:
  assumes "ledger_records sp (new_ledger []) calls = Some l"
  shows "owed (new_ledger (ledger_file l)) = owed l"
proof -
  have "ledger_synced l" by (rule ledger_records_synced [OF ledger_synced_new assms])
  then show ?thesis by (auto simp: ledger_synced_def new_ledger_def)
qed

theorem ledger_restart_witness:
  "owed (new_ledger [Some demo_entry]) = [(''0xapp'', 50)]"
  using ledger_restart [of rebate_split "[(demo_result, demo_bid ''0xc3'' ''90'', Some ''0xApp'', 10)]"]
  by (simp add: demo_record)

text \<open>
  C40: an unreadable line is where replay stops: whatever readable entries follow it are credited to
  nobody after a restart, although the running ledger owed them.
\<close>

theorem replay_stops_at_torn_line:
  "replay m (map Some es @ None # ls) = replay m (map Some es)"
  by (induction es arbitrary: m) (auto split: option.splits)

text \<open>The balance of an account is the sum of what the readable entries credit to it, in any order of the entries.\<close>

lemma replay_balance:
  assumes "\<forall>e \<in> set es. entry_ok e"
  shows "owed_to (replay [] (map Some es)) a = (\<Sum>(b, w) \<leftarrow> concat (map entry_credits es). if b = a then w else 0)"
  using owed_book.balance_credits [of "concat (map entry_credits es)" "[]" a]
  by (simp add: replay_fold [OF assms] owed_to_def jget_or_def)

end
