(* ===== verification/Bonds.thy ===== *)
theory Bonds
  imports Prelude
begin

text \<open>
  Bond gating (\<open>apps/auction/src/bonds.ts\<close>): which bids the auctioneer can collect on. The state is
  the collateral cache and the table of holds; the contract read is a parameter (\<open>None\<close> where it
  throws). \<open>checkBond\<close> awaits the collateral twice at most; its part before the first \<open>await\<close> is
  \<open>bond_begin\<close>, the evaluation of the free collateral is \<open>free_collateral\<close>, and \<open>check_bond\<close> is the
  whole of it in one go.
\<close>

section \<open>State\<close>

record bond_env =
  be_settlement :: "string option"
  be_cache_ttl :: int
  be_hold_ttl :: int

record hold_entry =
  h_searcher :: string
  h_wei :: int
  h_at :: int

record bond_state =
  bs_cache :: "(string \<times> int \<times> int) list"
  bs_holds :: "(string \<times> hold_entry) list"

datatype bond_reason = NotAnAddress | InvalidBidWei | Insufficient int int int

definition bonding_enabled :: "bond_env \<Rightarrow> bool" where
  "bonding_enabled env = (case be_settlement env of None \<Rightarrow> False | Some s \<Rightarrow> s \<noteq> [])"

section \<open>Operations\<close>

definition collateral_of ::
  "bond_env \<Rightarrow> (string \<Rightarrow> int option) \<Rightarrow> int \<Rightarrow> string \<Rightarrow> bond_state \<Rightarrow> int \<times> bond_state" where
  "collateral_of env read now searcher s =
     (if \<not> bonding_enabled env then (0, s)
      else let key = lower searcher;
               fetch = (case read searcher of
                          None \<Rightarrow> (0, s)
                        | Some v \<Rightarrow> (v, s\<lparr>bs_cache := jset key (v, now) (bs_cache s)\<rparr>)) in
           case jget (bs_cache s) key of
             Some (v, at) \<Rightarrow> if now - at < be_cache_ttl env then (v, s) else fetch
           | None \<Rightarrow> fetch)"

definition expired :: "bond_env \<Rightarrow> int \<Rightarrow> hold_entry \<Rightarrow> bool" where
  "expired env now h = (now - h_at h > be_hold_ttl env)"

fun held_loop :: "bond_env \<Rightarrow> int \<Rightarrow> string \<Rightarrow> (string \<times> hold_entry) list \<Rightarrow> int \<times> (string \<times> hold_entry) list" where
  "held_loop env now s [] = (0, [])"
| "held_loop env now s ((k, h) # hs) =
     (let (t, rest) = held_loop env now s hs in
      if expired env now h then (t, rest)
      else ((if h_searcher h = s then h_wei h else 0) + t, (k, h) # rest))"

definition held_by :: "bond_env \<Rightarrow> int \<Rightarrow> string \<Rightarrow> bond_state \<Rightarrow> int \<times> bond_state" where
  "held_by env now searcher s =
     (let (t, hs) = held_loop env now (lower searcher) (bs_holds s) in (t, s\<lparr>bs_holds := hs\<rparr>))"

definition hold_key :: "string \<Rightarrow> string \<Rightarrow> string" where
  "hold_key searcher opp = lower searcher @ CHR '':'' # opp"

definition hold :: "int \<Rightarrow> string \<Rightarrow> string \<Rightarrow> int \<Rightarrow> bond_state \<Rightarrow> bond_state" where
  "hold now searcher opp wei s =
     s\<lparr>bs_holds := jset (hold_key searcher opp) \<lparr>h_searcher = lower searcher, h_wei = wei, h_at = now\<rparr> (bs_holds s)\<rparr>"

definition release :: "string \<Rightarrow> string \<Rightarrow> bond_state \<Rightarrow> bond_state" where
  "release searcher opp s = s\<lparr>bs_holds := jdel (hold_key searcher opp) (bs_holds s)\<rparr>"

definition free_collateral ::
  "bond_env \<Rightarrow> (string \<Rightarrow> int option) \<Rightarrow> int \<Rightarrow> string \<Rightarrow> bond_state \<Rightarrow> int \<times> bond_state" where
  "free_collateral env read now searcher s =
     (let (c, s1) = collateral_of env read now searcher s;
          (h, s2) = held_by env now searcher s1 in
      (if c > h then c - h else 0, s2))"

text \<open>Before the first \<open>await\<close>: a verdict (\<open>Inl\<close>), or the amount needed and the bid's own earlier hold.\<close>

definition bond_begin ::
  "bond_env \<Rightarrow> string \<Rightarrow> string \<Rightarrow> string option \<Rightarrow> bond_state \<Rightarrow> bond_reason option + int \<times> int" where
  "bond_begin env searcher bidWei opp s =
     (if \<not> bonding_enabled env then Inl None
      else if \<not> starts_with ''0x'' searcher then Inl (Some NotAnAddress)
      else case big_int bidWei of
             None \<Rightarrow> Inl (Some InvalidBidWei)
           | Some needed \<Rightarrow>
               Inr (needed,
                 case opp of
                   None \<Rightarrow> 0
                 | Some i \<Rightarrow> if i = [] then 0
                             else (case jget (bs_holds s) (hold_key searcher i) of None \<Rightarrow> 0 | Some h \<Rightarrow> h_wei h)))"

text \<open>After it.\<close>

definition bond_verdict ::
  "bond_env \<Rightarrow> (string \<Rightarrow> int option) \<Rightarrow> int \<Rightarrow> string \<Rightarrow> int \<Rightarrow> int \<Rightarrow> bond_state \<Rightarrow> bond_reason option \<times> bond_state" where
  "bond_verdict env read now searcher needed own s =
     (let (f, s1) = free_collateral env read now searcher s in
      if f + own < needed
      then let (c, s2) = collateral_of env read now searcher s1;
               (h, s3) = held_by env now searcher s2 in
           (Some (Insufficient c (h - own) needed), s3)
      else (None, s1))"

definition check_bond ::
  "bond_env \<Rightarrow> (string \<Rightarrow> int option) \<Rightarrow> int \<Rightarrow> string \<Rightarrow> string \<Rightarrow> string option \<Rightarrow> bond_state \<Rightarrow> bond_reason option \<times> bond_state" where
  "check_bond env read now searcher bidWei opp s =
     (case bond_begin env searcher bidWei opp s of
        Inl r \<Rightarrow> (r, s)
      | Inr (needed, own) \<Rightarrow> bond_verdict env read now searcher needed own s)"

section \<open>The table of holds\<close>

text \<open>The amount a table holds against a searcher at a time.\<close>

definition held_amount :: "bond_env \<Rightarrow> int \<Rightarrow> string \<Rightarrow> (string \<times> hold_entry) list \<Rightarrow> int" where
  "held_amount env now s hs =
     (\<Sum>(k, h) \<leftarrow> hs. if expired env now h \<or> h_searcher h \<noteq> s then 0 else h_wei h)"

lemma held_loop_spec:
  "held_loop env now s hs = (held_amount env now s hs, filter (\<lambda>(k, h). \<not> expired env now h) hs)"
  by (induction env now s hs rule: held_loop.induct) (auto simp: held_amount_def Let_def split: prod.splits)

lemma held_amount_live [simp]:
  "held_amount env now s (filter (\<lambda>(k, h). \<not> expired env now h) hs) = held_amount env now s hs"
  by (induction hs) (auto simp: held_amount_def)

lemma held_by_spec:
  "held_by env now a s =
     (held_amount env now (lower a) (bs_holds s), s\<lparr>bs_holds := filter (\<lambda>(k, h). \<not> expired env now h) (bs_holds s)\<rparr>)"
  by (simp add: held_by_def held_loop_spec)

lemma collateral_of_holds [simp]: "bs_holds (snd (collateral_of env read now a s)) = bs_holds s"
  by (auto simp: collateral_of_def Let_def split: option.splits)

lemma held_amount_hold:
  "held_amount env now s (jset k h hs) =
     held_amount env now s hs
     - (case jget hs k of None \<Rightarrow> 0 | Some h0 \<Rightarrow> if expired env now h0 \<or> h_searcher h0 \<noteq> s then 0 else h_wei h0)
     + (if expired env now h \<or> h_searcher h \<noteq> s then 0 else h_wei h)"
  by (simp add: held_amount_def sum_jset split: option.splits)

text \<open>Ids of opportunities have no colon, so a key names one searcher and one opportunity (\<open>colon_inj\<close>).\<close>

definition holds_inv :: "(string \<times> hold_entry) list \<Rightarrow> bool" where
  "holds_inv hs \<longleftrightarrow> jwf hs \<and> (\<forall>(k, h) \<in> set hs. \<exists>i. CHR '':'' \<notin> set i \<and> k = h_searcher h @ CHR '':'' # i)"

lemma holds_inv_hold: "holds_inv (bs_holds s) \<Longrightarrow> CHR '':'' \<notin> set opp \<Longrightarrow> holds_inv (bs_holds (hold now a opp w s))"
  by (fastforce simp: holds_inv_def hold_def hold_key_def dest: set_jset)

lemma holds_inv_release: "holds_inv (bs_holds s) \<Longrightarrow> holds_inv (bs_holds (release a opp s))"
  unfolding holds_inv_def release_def
  by (auto simp: set_jdel)

lemma held_amount_release:
  "jwf hs \<Longrightarrow> held_amount env now s (jdel k hs) =
     held_amount env now s hs
     - (case jget hs k of None \<Rightarrow> 0 | Some h0 \<Rightarrow> if expired env now h0 \<or> h_searcher h0 \<noteq> s then 0 else h_wei h0)"
  by (simp add: held_amount_def sum_jdel split: option.splits)

lemma expired_holds_free:
  "\<forall>(k, h) \<in> set hs. expired env now h \<Longrightarrow> held_amount env now s hs = 0"
  unfolding held_amount_def by (induction hs) auto

section \<open>A checked and held bid is backed\<close>

lemma free_collateral_spec:
  "free_collateral env read now a s =
     (max 0 (fst (collateral_of env read now a s) - held_amount env now (lower a) (bs_holds s)),
      (snd (collateral_of env read now a s))\<lparr>bs_holds := filter (\<lambda>(k, h). \<not> expired env now h) (bs_holds s)\<rparr>)"
  using collateral_of_holds [of env read now a s]
  by (cases "collateral_of env read now a s") (auto simp: free_collateral_def held_by_spec max_def)

text \<open>The bid's own earlier hold is in force and belongs to the same searcher.\<close>

definition own_hold_ok :: "bond_env \<Rightarrow> int \<Rightarrow> string \<Rightarrow> string \<Rightarrow> bond_state \<Rightarrow> bool" where
  "own_hold_ok env now a opp s =
     (case jget (bs_holds s) (hold_key a opp) of
        None \<Rightarrow> True | Some h \<Rightarrow> \<not> expired env now h \<and> h_searcher h = lower a)"

text \<open>
  A bid that passes the bond check and is put on hold at that moment is backed: if the holds on the
  searcher did not exceed its collateral before, they do not exceed it with the new hold either, a
  re-bid on the same opportunity replacing its earlier hold.
\<close>

theorem checked_hold_backed:
  assumes "check_bond env read now a w (Some opp) s = (None, s')"
    and "bonding_enabled env" and "big_int w = Some needed" and "opp \<noteq> []"
    and "jwf (bs_holds s)" and "own_hold_ok env now a opp s"
    and "held_amount env now (lower a) (bs_holds s) \<le> fst (collateral_of env read now a s)"
    and "0 \<le> be_hold_ttl env"
  shows "held_amount env now (lower a) (bs_holds (hold now a opp needed s')) \<le> fst (collateral_of env read now a s)"
proof -
  let ?c = "fst (collateral_of env read now a s)"
  let ?H = "held_amount env now (lower a) (bs_holds s)"
  let ?own = "case jget (bs_holds s) (hold_key a opp) of None \<Rightarrow> 0 | Some h \<Rightarrow> h_wei h"
  have b: "bond_begin env a w (Some opp) s = Inr (needed, ?own)"
    using assms(1-4) by (auto simp: check_bond_def bond_begin_def split: if_splits)
  have s': "\<not> max 0 (?c - ?H) + ?own < needed" "bs_holds s' = filter (\<lambda>(k, h). \<not> expired env now h) (bs_holds s)"
    using assms(1) by (auto simp: check_bond_def b bond_verdict_def free_collateral_spec split: if_splits prod.splits)
  have own: "(case jget (filter (\<lambda>(k, h). \<not> expired env now h) (bs_holds s)) (hold_key a opp) of None \<Rightarrow> 0
      | Some h0 \<Rightarrow> if expired env now h0 \<or> h_searcher h0 \<noteq> lower a then 0 else h_wei h0) = ?own"
    using assms(6) by (auto simp: jget_filter [OF assms(5)] own_hold_ok_def split: option.splits)
  have "held_amount env now (lower a) (bs_holds (hold now a opp needed s')) = ?H - ?own + needed"
    using assms(8) by (simp add: hold_def held_amount_hold s'(2) own) (simp add: expired_def)
  with s'(1) assms(7) show ?thesis by linarith
qed

definition demo_env :: bond_env where
  "demo_env = \<lparr>be_settlement = Some ''0x5e'', be_cache_ttl = 5000, be_hold_ttl = 60000\<rparr>"

definition demo_bonds :: bond_state where
  "demo_bonds = \<lparr>bs_cache = [], bs_holds = [(''0xa1:p'', \<lparr>h_searcher = ''0xa1'', h_wei = 30, h_at = 10\<rparr>),
     (''0xa1:q'', \<lparr>h_searcher = ''0xa1'', h_wei = 50, h_at = 20\<rparr>)]\<rparr>"

lemma demo_check:
  "check_bond demo_env (\<lambda>_. Some 100) 1000 ''0xA1'' ''50'' (Some ''p'') demo_bonds =
     (None, demo_bonds\<lparr>bs_cache := [(''0xa1'', 100, 1000)]\<rparr>)"
  by code_simp

theorem checked_hold_backed_witness:
  "held_amount demo_env 1000 (lower ''0xA1'')
     (bs_holds (hold 1000 ''0xA1'' ''p'' 50 (demo_bonds\<lparr>bs_cache := [(''0xa1'', 100, 1000)]\<rparr>))) \<le> 100"
proof -
  have "fst (collateral_of demo_env (\<lambda>_. Some 100) 1000 ''0xA1'' demo_bonds) = 100" by code_simp
  moreover have "big_int ''50'' = Some 50" "bonding_enabled demo_env" "own_hold_ok demo_env 1000 ''0xA1'' ''p'' demo_bonds"
    "held_amount demo_env 1000 (lower ''0xA1'') (bs_holds demo_bonds) \<le> fst (collateral_of demo_env (\<lambda>_. Some 100) 1000 ''0xA1'' demo_bonds)"
    "distinct (map fst (bs_holds demo_bonds))" "0 \<le> be_hold_ttl demo_env"
    by code_simp+
  ultimately show ?thesis using checked_hold_backed [OF demo_check] by simp
qed

text \<open>The collateral behind a check is the cached one for as long as the cache entry is fresh: a deposit made meanwhile does not count.\<close>

lemma free_collateral_cached:
  assumes "jget (bs_cache s) (lower a) = Some (v, at)" "now - at < be_cache_ttl env"
  shows "free_collateral env read now a s = free_collateral env read' now a s"
  using assms by (simp add: free_collateral_def collateral_of_def)

end
