(* ===== verification/ReceiptLog.thy ===== *)
theory ReceiptLog
  imports Receipt Auctioneer
begin

text \<open>
  The auction's receipt log (\<open>apps/auction/src/receipts.ts\<close>): the receipts kept for serving, the
  leaves of the Merkle log, the file both are rebuilt from, and the anchoring of the root. The wallet
  and the hash functions are the record \<open>receipt_env\<close>. \<open>maybeCommitRoot\<close> is split at its
  \<open>await\<close>: \<open>commit_begin\<close> up to the transaction, \<open>commit_end\<close> after it.
\<close>

section \<open>Environment and state\<close>

record receipt_env =
  re_account :: "string option"
  re_hvec :: "string list \<Rightarrow> int list \<Rightarrow> int list \<Rightarrow> string option"
  re_hempty :: string
  re_hrec :: "string \<Rightarrow> string \<Rightarrow> string \<Rightarrow> int \<Rightarrow> int \<Rightarrow> bytes32 option"
  re_kp :: "bytes32 \<Rightarrow> bytes32 \<Rightarrow> bytes32"
  re_sign :: "typed_msg \<Rightarrow> string option"
  re_log_address :: "string option"
  re_keep :: nat
  re_commit_every :: int

text \<open>A line of the file is a receipt, or text \<open>JSON.parse\<close> rejects (\<open>None\<close>).\<close>

record receipt_log =
  rl_by_id :: "(string \<times> auction_receipt) list"
  rl_leaves :: "bytes32 list"
  rl_file :: "auction_receipt option list"
  rl_warned :: bool
  rl_committed :: int
  rl_committing :: bool

definition chain_id :: int where
  "chain_id = 4663"

section \<open>Remembering receipts\<close>

definition env_hash :: "receipt_env \<Rightarrow> auction_receipt \<Rightarrow> bytes32 option" where
  "env_hash env = receipt_hash (re_hvec env) (re_hempty env) (re_hrec env)"

text \<open>The flag is \<open>False\<close> where \<open>receiptHash\<close> throws: the map is already changed, the leaves are not.\<close>

definition remember :: "receipt_env \<Rightarrow> auction_receipt \<Rightarrow> receipt_log \<Rightarrow> receipt_log \<times> bool" where
  "remember env r l =
     (let m = jset (lower (rc_opportunity r)) r (rl_by_id l) in
      case env_hash env r of
        None \<Rightarrow> (l\<lparr>rl_by_id := m\<rparr>, False)
      | Some h \<Rightarrow>
          (l\<lparr>rl_by_id := (if length m > re_keep env then jdel (fst (hd m)) m else m),
             rl_leaves := rl_leaves l @ [h]\<rparr>, True))"

definition empty_log :: "auction_receipt option list \<Rightarrow> receipt_log" where
  "empty_log file = \<lparr>rl_by_id = [], rl_leaves = [], rl_file = file, rl_warned = False, rl_committed = 0, rl_committing = False\<rparr>"

text \<open>The second component counts the lines that were skipped.\<close>

fun hydrate_lines :: "receipt_env \<Rightarrow> auction_receipt option list \<Rightarrow> receipt_log \<Rightarrow> nat \<Rightarrow> receipt_log \<times> nat" where
  "hydrate_lines env [] l torn = (l, torn)"
| "hydrate_lines env (None # ls) l torn = hydrate_lines env ls l (Suc torn)"
| "hydrate_lines env (Some r # ls) l torn =
     (let (l', ok) = remember env r l in hydrate_lines env ls l' (if ok then torn else Suc torn))"

definition hydrate :: "receipt_env \<Rightarrow> auction_receipt option list \<Rightarrow> receipt_log" where
  "hydrate env file = fst (hydrate_lines env file (empty_log file) 0)"

section \<open>Acknowledging and publishing\<close>

definition receipts_enabled :: "receipt_env \<Rightarrow> bool" where
  "receipts_enabled env = (re_account env \<noteq> None)"

text \<open>A thrown error is \<open>Inl ()\<close>; without a key the answer is \<open>Inr None\<close>.\<close>

definition acknowledge :: "receipt_env \<Rightarrow> bid \<Rightarrow> unit + bid_ack option" where
  "acknowledge env b =
     (if \<not> receipts_enabled env then Inr None
      else case sign_ack (re_sign env) chain_id
                  \<lparr>ack_opportunity = opportunity_id_to_bytes32 (bid_opportunity b), ack_searcher = bid_searcher b,
                   ack_bid_wei = bid_wei b, ack_received_at = bid_received_at b, ack_signature = []\<rparr> of
             None \<Rightarrow> Inl ()
           | Some a \<Rightarrow> Inr (Some a))"

definition to_receipt_bid :: "bid \<Rightarrow> receipt_bid" where
  "to_receipt_bid b = \<lparr>rb_searcher = bid_searcher b, rb_bid_wei = bid_wei b, rb_received_at = bid_received_at b, rb_bid_sig = bid_sig b\<rparr>"

definition draft_receipt :: "string \<Rightarrow> bid list \<Rightarrow> string option \<Rightarrow> string \<Rightarrow> int \<Rightarrow> auction_receipt" where
  "draft_receipt opp bids winner clearing now =
     \<lparr>rc_opportunity = opportunity_id_to_bytes32 opp, rc_bids = map to_receipt_bid bids, rc_winner = winner,
      rc_clearing = clearing, rc_closed_at = now, rc_signature = None\<rparr>"

text \<open>\<open>writable\<close>: whether the append to the file succeeds.\<close>

definition publish_receipt ::
  "receipt_env \<Rightarrow> bool \<Rightarrow> int \<Rightarrow> string \<Rightarrow> bid list \<Rightarrow> string option \<Rightarrow> string \<Rightarrow> receipt_log \<Rightarrow>
   receipt_log \<times> (unit + auction_receipt option)" where
  "publish_receipt env writable now opp bids winner clearing l =
     (if \<not> receipts_enabled env then (l, Inr None)
      else case sign_receipt (re_hvec env) (re_hempty env) (re_sign env) chain_id (draft_receipt opp bids winner clearing now) of
             None \<Rightarrow> (l, Inl ())
           | Some r \<Rightarrow>
               (case remember env r l of
                  (l', False) \<Rightarrow> (l', Inl ())
                | (l', True) \<Rightarrow>
                    (if writable then l'\<lparr>rl_file := rl_file l' @ [Some r]\<rparr> else l'\<lparr>rl_warned := True\<rparr>,
                     Inr (Some r))))"

section \<open>Anchoring\<close>

definition anchoring_configured :: "receipt_env \<Rightarrow> bool" where
  "anchoring_configured env = (case re_log_address env of None \<Rightarrow> False | Some a \<Rightarrow> a \<noteq> [])"

definition anchoring_enabled :: "receipt_env \<Rightarrow> bool" where
  "anchoring_enabled env = (receipts_enabled env \<and> anchoring_configured env)"

text \<open>The chain's answers at boot: \<open>total\<close> and \<open>latest.count\<close>, or a failed read (\<open>None\<close>).\<close>

definition sync_anchor_state :: "receipt_env \<Rightarrow> (int \<times> int) option \<Rightarrow> receipt_log \<Rightarrow> receipt_log" where
  "sync_anchor_state env chain l =
     (if \<not> anchoring_configured env then l
      else case chain of
             None \<Rightarrow> l
           | Some (tot, n) \<Rightarrow> if tot = 0 then l else l\<lparr>rl_committed := n\<rparr>)"

datatype commit_start = CommitIdle | CommitRefused nat int | CommitSend bytes32 nat

definition commit_begin :: "receipt_env \<Rightarrow> receipt_log \<Rightarrow> receipt_log \<times> commit_start" where
  "commit_begin env l =
     (if \<not> anchoring_enabled env \<or> rl_committing l then (l, CommitIdle)
      else if int (length (rl_leaves l)) - rl_committed l < re_commit_every env then (l, CommitIdle)
      else if int (length (rl_leaves l)) < rl_committed l
           then (l, CommitRefused (length (rl_leaves l)) (rl_committed l))
      else let n = length (rl_leaves l) in
           (l\<lparr>rl_committing := True\<rparr>, CommitSend (merkle_root (re_kp env) (take n (rl_leaves l))) n))"

definition commit_end :: "nat \<Rightarrow> bool \<Rightarrow> receipt_log \<Rightarrow> receipt_log" where
  "commit_end n ok l =
     (if ok then l\<lparr>rl_committed := int n, rl_committing := False\<rparr> else l\<lparr>rl_committing := False\<rparr>)"

section \<open>Serving\<close>

definition get_receipt :: "string \<Rightarrow> receipt_log \<Rightarrow> auction_receipt option" where
  "get_receipt i l = jget (rl_by_id l) (lower (opportunity_id_to_bytes32 i))"

text \<open>\<open>slice(-n)\<close> counts from the end for a positive \<open>n\<close>, and from the start otherwise.\<close>

definition recent_receipts :: "int \<Rightarrow> receipt_log \<Rightarrow> auction_receipt list" where
  "recent_receipts n l =
     (let vs = map snd (rl_by_id l) in rev (if n \<le> 0 then drop (nat (- n)) vs else drop (length vs - nat n) vs))"

definition current_root :: "receipt_env \<Rightarrow> receipt_log \<Rightarrow> bytes32 \<times> nat \<times> int" where
  "current_root env l = (merkle_root (re_kp env) (rl_leaves l), length (rl_leaves l), rl_committed l)"

section \<open>Runs\<close>

text \<open>
  A publication starts a commit (\<open>void maybeCommitRoot()\<close>); its transaction ends later, successfully
  or not. The history lists the roots that were sent, with their counts.
\<close>

datatype log_event =
    Publish bool int string "bid list" "string option" string
  | CommitEnds bool

record log_run =
  lr_log :: receipt_log
  lr_sending :: "nat option"
  lr_sent :: "(bytes32 \<times> nat) list"
  lr_anchored :: "nat list"

fun log_step :: "receipt_env \<Rightarrow> log_event \<Rightarrow> log_run \<Rightarrow> log_run" where
  "log_step env (Publish writable now opp bids winner clearing) s =
     (case publish_receipt env writable now opp bids winner clearing (lr_log s) of
        (l, Inr (Some _)) \<Rightarrow>
          (case commit_begin env l of
             (l', CommitSend root n) \<Rightarrow>
               s\<lparr>lr_log := l', lr_sending := Some n, lr_sent := lr_sent s @ [(root, n)]\<rparr>
           | (l', _) \<Rightarrow> s\<lparr>lr_log := l'\<rparr>)
      | (l, _) \<Rightarrow> s\<lparr>lr_log := l\<rparr>)"
| "log_step env (CommitEnds ok) s =
     (case lr_sending s of
        None \<Rightarrow> s
      | Some n \<Rightarrow>
          s\<lparr>lr_log := commit_end n ok (lr_log s), lr_sending := None,
            lr_anchored := (if ok then lr_anchored s @ [n] else lr_anchored s)\<rparr>)"

definition start_run :: "receipt_log \<Rightarrow> log_run" where
  "start_run l = \<lparr>lr_log = l, lr_sending = None, lr_sent = [], lr_anchored = []\<rparr>"

definition log_run_events :: "receipt_env \<Rightarrow> log_event list \<Rightarrow> log_run \<Rightarrow> log_run" where
  "log_run_events env es s = fold (log_step env) es s"

section \<open>Anchoring is append-only\<close>

lemma remember_leaves:
  "\<exists>ex. rl_leaves (fst (remember env r l)) = rl_leaves l @ ex"
  and remember_other [simp]:
  "rl_file (fst (remember env r l)) = rl_file l"
  "rl_committed (fst (remember env r l)) = rl_committed l"
  "rl_committing (fst (remember env r l)) = rl_committing l"
  by (auto simp: remember_def Let_def split: option.splits)

text \<open>The cases of a publication: nothing, a failed one, a remembered receipt with or without its line.\<close>

lemma publish_cases:
  assumes "publish_receipt env writable now opp bids winner clearing l = (l', res)"
  obtains "l' = l" "\<forall>r. res \<noteq> Inr (Some r)"
  | r where "sign_receipt (re_hvec env) (re_hempty env) (re_sign env) chain_id (draft_receipt opp bids winner clearing now) = Some r"
      "l' = fst (remember env r l)" "\<not> snd (remember env r l)" "res = Inl ()"
  | r where "sign_receipt (re_hvec env) (re_hempty env) (re_sign env) chain_id (draft_receipt opp bids winner clearing now) = Some r"
      "snd (remember env r l)" "res = Inr (Some r)"
      "l' = (if writable then (fst (remember env r l))\<lparr>rl_file := rl_file l @ [Some r]\<rparr> else (fst (remember env r l))\<lparr>rl_warned := True\<rparr>)"
proof (cases "receipts_enabled env")
  case False
  with assms have "l' = l" "res = Inr None" by (simp_all add: publish_receipt_def)
  with that(1) show ?thesis by simp
next
  case True
  show ?thesis
  proof (cases "sign_receipt (re_hvec env) (re_hempty env) (re_sign env) chain_id (draft_receipt opp bids winner clearing now)")
    case None
    with True assms have "l' = l" "res = Inl ()" by (simp_all add: publish_receipt_def)
    with that(1) show ?thesis by simp
  next
    case (Some r)
    obtain m b where m: "remember env r l = (m, b)" by (cases "remember env r l")
    then have f: "rl_file m = rl_file l" using remember_other(1) [of env r l] by simp
    show ?thesis
    proof (cases b)
      case False
      with True Some m assms have "l' = m" "res = Inl ()" by (simp_all add: publish_receipt_def)
      with False m that(2) [OF Some] show ?thesis by simp
    next
      case True
      with \<open>receipts_enabled env\<close> Some m assms
      have "l' = (if writable then m\<lparr>rl_file := rl_file m @ [Some r]\<rparr> else m\<lparr>rl_warned := True\<rparr>)" "res = Inr (Some r)"
        by (simp_all add: publish_receipt_def)
      with True m f that(3) [OF Some] show ?thesis by simp
    qed
  qed
qed

lemma publish_grows:
  assumes "publish_receipt env writable now opp bids winner clearing l = (l', res)"
  shows "(\<exists>ex. rl_leaves l' = rl_leaves l @ ex) \<and> rl_committed l' = rl_committed l \<and> rl_committing l' = rl_committing l"
  using assms by (rule publish_cases) (auto simp: remember_leaves)

lemma commit_begin_cases:
  assumes "commit_begin env l = (l', c)"
  shows "(l' = l \<and> (\<forall>root n. c \<noteq> CommitSend root n)) \<or>
    (\<not> rl_committing l \<and> l' = l\<lparr>rl_committing := True\<rparr> \<and>
     c = CommitSend (merkle_root (re_kp env) (rl_leaves l)) (length (rl_leaves l)) \<and>
     rl_committed l + re_commit_every env \<le> int (length (rl_leaves l)))"
  using assms by (auto simp: commit_begin_def Let_def split: if_splits)

definition run_inv :: "receipt_env \<Rightarrow> int \<Rightarrow> log_run \<Rightarrow> bool" where
  "run_inv env c0 s \<longleftrightarrow>
     (\<forall>(root, n) \<in> set (lr_sent s). n \<le> length (rl_leaves (lr_log s)) \<and>
        root = merkle_root (re_kp env) (take n (rl_leaves (lr_log s)))) \<and>
     (case lr_sending s of
        None \<Rightarrow> \<not> rl_committing (lr_log s)
      | Some n \<Rightarrow> rl_committing (lr_log s) \<and> rl_committed (lr_log s) + re_commit_every env \<le> int n) \<and>
     sorted_wrt (\<lambda>m n. int m + re_commit_every env \<le> int n) (lr_anchored s) \<and>
     (\<forall>n \<in> set (lr_anchored s). c0 + re_commit_every env \<le> int n \<and> int n \<le> rl_committed (lr_log s)) \<and>
     c0 \<le> rl_committed (lr_log s)"

lemma run_inv_grow:
  assumes "run_inv env c0 s" "rl_leaves l = rl_leaves (lr_log s) @ ex"
    "rl_committed l = rl_committed (lr_log s)" "rl_committing l = rl_committing (lr_log s)"
  shows "run_inv env c0 (s\<lparr>lr_log := l\<rparr>)"
  using assms by (fastforce simp: run_inv_def split: option.splits)

lemma run_inv_send:
  assumes "run_inv env c0 s" "commit_begin env (lr_log s) = (l', CommitSend root n)"
  shows "run_inv env c0 (s\<lparr>lr_log := l', lr_sending := Some n, lr_sent := lr_sent s @ [(root, n)]\<rparr>)"
  using assms commit_begin_cases [OF assms(2)] by (auto simp: run_inv_def split: option.splits)

lemma run_inv_idle:
  assumes "run_inv env c0 s" "commit_begin env (lr_log s) = (l', c)" "\<forall>root n. c \<noteq> CommitSend root n"
  shows "run_inv env c0 (s\<lparr>lr_log := l'\<rparr>)"
  using assms commit_begin_cases [OF assms(2)] by auto

lemma run_inv_end:
  assumes "run_inv env c0 s" "0 < re_commit_every env"
  shows "run_inv env c0 (log_step env (CommitEnds ok) s)"
  using assms by (fastforce simp: run_inv_def commit_end_def sorted_wrt_append split: option.splits)

lemma run_inv_publish:
  assumes "run_inv env c0 s"
  shows "run_inv env c0 (log_step env (Publish writable now opp bids winner clearing) s)"
proof -
  obtain l res where p: "publish_receipt env writable now opp bids winner clearing (lr_log s) = (l, res)"
    by (cases "publish_receipt env writable now opp bids winner clearing (lr_log s)")
  have g: "run_inv env c0 (s\<lparr>lr_log := l\<rparr>)"
    using publish_grows [OF p] run_inv_grow [OF assms] by blast
  obtain l' c where c: "commit_begin env l = (l', c)" by (cases "commit_begin env l")
  show ?thesis
    using g p c run_inv_send [OF g, of l'] run_inv_idle [OF g, of l' c]
    by (auto split: sum.splits option.splits commit_start.splits)
qed

lemma run_inv_step: "run_inv env c0 s \<Longrightarrow> 0 < re_commit_every env \<Longrightarrow> run_inv env c0 (log_step env e s)"
  by (cases e) (auto simp: run_inv_publish run_inv_end simp del: log_step.simps)

lemma run_inv_fold:
  "run_inv env c0 s \<Longrightarrow> 0 < re_commit_every env \<Longrightarrow> run_inv env c0 (fold (log_step env) es s)"
  by (induction es arbitrary: s) (auto simp: run_inv_step)


text \<open>Signatures and hashes for evaluation: a receipt hashes to its clearing price.\<close>

definition demo_renv :: receipt_env where
  "demo_renv = \<lparr>re_account = Some ''0xau'', re_hvec = \<lambda>_ _ _. Some ''h'', re_hempty = ''e'',
     re_hrec = \<lambda>_ _ _ p _. Some (word_of_int p), re_kp = \<lambda>a b. 3 * a + b,
     re_sign = \<lambda>_. Some ''0xau'', re_log_address = Some ''0x10'', re_keep = 2, re_commit_every = 1\<rparr>"

definition demo_log_events :: "log_event list" where
  "demo_log_events = [Publish True 3 ''ab'' [demo_bid ''0xa1'' ''70''] (Some ''0xa1'') ''70'',
     Publish True 4 ''cd'' [] None ''0'', CommitEnds True, Publish True 5 ''ef'' [] None ''5'', CommitEnds True]"

lemma demo_log_run:
  "lr_anchored (log_run_events demo_renv demo_log_events (start_run (empty_log []))) = [1, 3]"
  "map snd (lr_sent (log_run_events demo_renv demo_log_events (start_run (empty_log [])))) = [1, 3]"
  by code_simp+


text \<open>The refusal of a shrunken log is never reached: a negative difference is below the commit interval.\<close>

lemma commit_refusal_unreachable:
  "0 \<le> re_commit_every env \<Longrightarrow> snd (commit_begin env l) \<noteq> CommitRefused m c"
  by (auto simp: commit_begin_def Let_def)

section \<open>Restarts\<close>

lemma hydrate_Some:
  "hydrate_lines env (Some r # ls) l t =
     hydrate_lines env ls (fst (remember env r l)) (if snd (remember env r l) then t else Suc t)"
  by (simp add: split_def)

lemma hydrate_lines_app:
  "hydrate_lines env (ls @ ms) l t = hydrate_lines env ms (fst (hydrate_lines env ls l t)) (snd (hydrate_lines env ls l t))"
proof (induction ls arbitrary: l t)
  case (Cons x ls)
  then show ?case by (cases x) (simp_all add: hydrate_Some del: hydrate_lines.simps(3))
qed simp

text \<open>What is rebuilt depends on the map and the leaves only.\<close>

lemma remember_core:
  assumes "rl_by_id l = rl_by_id m" "rl_leaves l = rl_leaves m"
  shows "rl_by_id (fst (remember env r l)) = rl_by_id (fst (remember env r m))"
    "rl_leaves (fst (remember env r l)) = rl_leaves (fst (remember env r m))"
    "snd (remember env r l) = snd (remember env r m)"
  using assms by (auto simp: remember_def Let_def split: option.splits)

lemma hydrate_core:
  "rl_by_id l = rl_by_id m \<Longrightarrow> rl_leaves l = rl_leaves m \<Longrightarrow>
     rl_by_id (fst (hydrate_lines env ls l t)) = rl_by_id (fst (hydrate_lines env ls m u)) \<and>
     rl_leaves (fst (hydrate_lines env ls l t)) = rl_leaves (fst (hydrate_lines env ls m u))"
proof (induction ls arbitrary: l m t u)
  case (Cons x ls)
  show ?case
  proof (cases x)
    case None
    with Cons show ?thesis by simp
  next
    case (Some r)
    from Cons(1) [OF remember_core(1,2) [OF Cons(2,3)]] show ?thesis
      by (simp add: Some hydrate_Some del: hydrate_lines.simps(3))
  qed
qed simp

definition log_synced :: "receipt_env \<Rightarrow> receipt_log \<Rightarrow> bool" where
  "log_synced env l \<longleftrightarrow>
     rl_by_id l = rl_by_id (hydrate env (rl_file l)) \<and> rl_leaves l = rl_leaves (hydrate env (rl_file l))"

lemma hydrate_file [simp]: "rl_file (fst (hydrate_lines env ls l t)) = rl_file l"
proof (induction ls arbitrary: l t)
  case (Cons x ls)
  then show ?case by (cases x) (simp_all add: hydrate_Some del: hydrate_lines.simps(3))
qed simp

lemma hydrate_snoc:
  "rl_by_id (hydrate env (ls @ [Some r])) = rl_by_id (fst (remember env r (hydrate env ls)))"
  "rl_leaves (hydrate env (ls @ [Some r])) = rl_leaves (fst (remember env r (hydrate env ls)))"
proof -
  let ?f = "fst (hydrate_lines env ls (empty_log (ls @ [Some r])) 0)"
  have "rl_by_id ?f = rl_by_id (hydrate env ls)" "rl_leaves ?f = rl_leaves (hydrate env ls)"
    using hydrate_core [of "empty_log (ls @ [Some r])" "empty_log ls" env ls 0 0]
    by (simp_all add: hydrate_def empty_log_def)
  then show "rl_by_id (hydrate env (ls @ [Some r])) = rl_by_id (fst (remember env r (hydrate env ls)))"
    "rl_leaves (hydrate env (ls @ [Some r])) = rl_leaves (fst (remember env r (hydrate env ls)))"
    using remember_core [of ?f "hydrate env ls" env r]
    by (simp_all add: hydrate_def hydrate_lines_app hydrate_Some del: hydrate_lines.simps(3))
qed

lemma synced_hydrate: "log_synced env (hydrate env file)"
  by (simp add: log_synced_def hydrate_def empty_log_def)

text \<open>Encoding a receipt for its hash fails only on values the signature is refused for.\<close>

definition hash_total :: "receipt_env \<Rightarrow> bool" where
  "hash_total env \<longleftrightarrow>
     (\<forall>opp h w p c. re_hrec env opp h w p c = None \<longrightarrow> re_sign env (ReceiptMsg chain_id opp h w p c) = None)"

lemma hash_totalD:
  "hash_total env \<Longrightarrow> re_sign env (ReceiptMsg chain_id opp h w p c) = Some s \<Longrightarrow> \<exists>x. re_hrec env opp h w p c = Some x"
  by (cases "re_hrec env opp h w p c") (auto simp: hash_total_def)

lemma signed_hash:
  assumes "hash_total env" "sign_receipt (re_hvec env) (re_hempty env) (re_sign env) chain_id d = Some r"
  shows "\<exists>h. env_hash env r = Some h"
proof -
  have "hash_bids (re_hvec env) (re_hempty env) (rc_bids d) = hash_bids (re_hvec env) (re_hempty env) (rc_bids r)"
    "rc_clearing r = rc_clearing d" "rc_opportunity r = rc_opportunity d" "rc_winner r = rc_winner d" "rc_closed_at r = rc_closed_at d"
    using assms(2) by (auto simp: sign_receipt_def split: option.splits)
  with assms show ?thesis
    by (auto simp: sign_receipt_def env_hash_def receipt_hash_def receipt_message_def split: option.splits
        dest: hash_totalD)
qed

lemma remember_hash: "snd (remember env r l) \<longleftrightarrow> env_hash env r \<noteq> None"
  by (auto simp: remember_def Let_def split: option.splits)

lemma synced_publish:
  assumes "log_synced env l" "hash_total env" "publish_receipt env True now opp bids winner clearing l = (l', res)"
  shows "log_synced env l'"
  using assms(3)
proof (rule publish_cases)
  assume "l' = l"
  with assms(1) show ?thesis by simp
next
  fix r assume "sign_receipt (re_hvec env) (re_hempty env) (re_sign env) chain_id (draft_receipt opp bids winner clearing now) = Some r"
    "\<not> snd (remember env r l)"
  then show ?thesis using signed_hash [OF assms(2)] by (simp add: remember_hash)
next
  fix r assume l': "l' = (if True then (fst (remember env r l))\<lparr>rl_file := rl_file l @ [Some r]\<rparr> else (fst (remember env r l))\<lparr>rl_warned := True\<rparr>)"
  have "rl_by_id l = rl_by_id (hydrate env (rl_file l))" "rl_leaves l = rl_leaves (hydrate env (rl_file l))"
    using assms(1) by (simp_all add: log_synced_def)
  from remember_core [OF this, of env r] l' show ?thesis by (simp add: log_synced_def hydrate_snoc)
qed

lemma synced_commit:
  "rl_by_id (commit_end n ok l) = rl_by_id l" "rl_leaves (commit_end n ok l) = rl_leaves l" "rl_file (commit_end n ok l) = rl_file l"
  "rl_by_id (fst (commit_begin env l)) = rl_by_id l" "rl_leaves (fst (commit_begin env l)) = rl_leaves l" "rl_file (fst (commit_begin env l)) = rl_file l"
  by (auto simp: commit_end_def commit_begin_def Let_def)

fun event_writable :: "log_event \<Rightarrow> bool" where
  "event_writable (Publish w now opp bids winner clearing) = w"
| "event_writable (CommitEnds ok) = True"

lemma synced_step:
  assumes "log_synced env (lr_log s)" "hash_total env" "event_writable e"
  shows "log_synced env (lr_log (log_step env e s))"
proof (cases e)
  case (CommitEnds ok)
  with assms(1) show ?thesis by (auto simp: log_synced_def synced_commit split: option.splits)
next
  case (Publish w now opp bids winner clearing)
  obtain l res where p: "publish_receipt env True now opp bids winner clearing (lr_log s) = (l, res)"
    by (cases "publish_receipt env True now opp bids winner clearing (lr_log s)")
  obtain l' c where c: "commit_begin env l = (l', c)" by (cases "commit_begin env l")
  have "log_synced env l" by (rule synced_publish [OF assms(1,2) p])
  moreover from this c have "log_synced env l'"
    using synced_commit(4-6) [of env l] by (simp add: log_synced_def)
  ultimately show ?thesis
    using Publish assms(3) p c by (auto split: sum.splits option.splits commit_start.splits)
qed



section \<open>Serving what was published\<close>

definition log_bounded :: "receipt_env \<Rightarrow> receipt_log \<Rightarrow> bool" where
  "log_bounded env l \<longleftrightarrow> jwf (rl_by_id l) \<and> length (rl_by_id l) \<le> re_keep env"

definition uuid_like :: "string \<Rightarrow> bool" where
  "uuid_like s \<longleftrightarrow> list_all (\<lambda>c. c = CHR ''-'' \<or> hex_char c) s \<and> length (filter (\<lambda>c. c \<noteq> CHR ''-'') s) \<le> 64"

lemma hex_zero: "hex_char CHR ''0''"
  by code_simp

lemma starts_0x: "starts_with ''0x'' (''0x'' @ s)"
  by (simp add: starts_with_def)

lemma uuid_bytes32:
  assumes "uuid_like s"
  shows "is_hex 64 (opportunity_id_to_bytes32 s)"
proof (cases "is_hex 64 s")
  case True
  then show ?thesis by (simp add: opportunity_id_to_bytes32_def)
next
  case False
  define t where "t = filter (\<lambda>c. c \<noteq> CHR ''-'') s"
  have h: "list_all hex_char t" "length t \<le> 64" using assms by (auto simp: t_def uuid_like_def list_all_iff)
  define p where "p = pad_end 64 CHR ''0'' t"
  have p: "list_all hex_char p" "length p = 64"
    using h hex_zero by (auto simp: p_def pad_end_def list_all_iff)
  have "opportunity_id_to_bytes32 s = ''0x'' @ p"
    using False by (simp add: opportunity_id_to_bytes32_def t_def p_def)
  then show ?thesis using p starts_0x [of p] by (simp add: is_hex_def)
qed

lemma bytes32_idem: "uuid_like s \<Longrightarrow> opportunity_id_to_bytes32 (opportunity_id_to_bytes32 s) = opportunity_id_to_bytes32 s"
  using uuid_bytes32 [of s] by (simp add: opportunity_id_to_bytes32_def [of "opportunity_id_to_bytes32 s"])

lemma evict_oldest:
  assumes "jwf m" "length m \<le> n" "1 \<le> n" "m' = jset k v m"
    "m2 = (if length m' > n then jdel (fst (hd m')) m' else m')"
  shows "jget m2 k = Some v \<and> jwf m2 \<and> length m2 \<le> n"
proof -
  have wf: "jwf m'" using assms(1,4) by simp
  show ?thesis
  proof (cases "length m' > n")
    case False
    with assms wf show ?thesis by simp
  next
    case True
    then have new: "jget m k = None" using assms(2,4) by (auto simp: length_jset split: if_splits)
    then have m': "m' = m @ [(k, v)]" using assms(4) by (simp add: jset_append)
    have "m \<noteq> []" using True m' assms(3) by auto
    then obtain k0 v0 r where m: "m = (k0, v0) # r" by (cases m) auto
    with new have "k0 \<noteq> k" by auto
    have "jget r k = None" using new m by (simp split: if_splits)
    then have "jget (r @ [(k, v)]) k = Some v" by (simp add: map_add_def)
    with True m m' assms(2,5) wf show ?thesis by (simp add: length_jdel)
  qed
qed

text \<open>
  A published receipt is served under the auction's id and under its signed form, and the table of
  receipts stays within its bound, the oldest one making room.
\<close>

theorem published_receipt_served:
  assumes "log_bounded env l" and "1 \<le> re_keep env" and "uuid_like opp"
    and "publish_receipt env writable now opp bids winner clearing l = (l', Inr (Some r))"
  shows "get_receipt opp l' = Some r \<and> get_receipt (rc_opportunity r) l' = Some r \<and> log_bounded env l'"
  using assms(4)
proof (rule publish_cases)
  fix r' assume r: "sign_receipt (re_hvec env) (re_hempty env) (re_sign env) chain_id (draft_receipt opp bids winner clearing now) = Some r'"
    and ok: "snd (remember env r' l)" and "Inr (Some r) = (Inr (Some r') :: unit + auction_receipt option)"
    and l': "l' = (if writable then (fst (remember env r' l))\<lparr>rl_file := rl_file l @ [Some r']\<rparr> else (fst (remember env r' l))\<lparr>rl_warned := True\<rparr>)"
  then have rr: "r' = r" "rc_opportunity r = opportunity_id_to_bytes32 opp"
    by (auto simp: sign_receipt_def draft_receipt_def split: option.splits)
  let ?m = "jset (lower (rc_opportunity r)) r (rl_by_id l)"
  have m: "rl_by_id l' = (if length ?m > re_keep env then jdel (fst (hd ?m)) ?m else ?m)"
    using ok l' rr by (auto simp: remember_def Let_def split: option.splits)
  have "jget (rl_by_id l') (lower (rc_opportunity r)) = Some r \<and> jwf (rl_by_id l') \<and> length (rl_by_id l') \<le> re_keep env"
    using assms(1,2) by (intro evict_oldest [OF _ _ _ refl m]) (simp_all add: log_bounded_def)
  then show ?thesis
    using bytes32_idem [OF assms(3)] rr by (simp add: get_receipt_def log_bounded_def)
qed auto

definition demo_published :: receipt_log where
  "demo_published = fst (publish_receipt demo_renv True 3 ''ab-cd'' [demo_bid ''0xa1'' ''70''] (Some ''0xa1'') ''70'' (empty_log []))"

theorem published_receipt_served_witness:
  "get_receipt ''ab-cd'' demo_published \<noteq> None \<and> log_bounded demo_renv demo_published"
proof -
  have "\<exists>r. publish_receipt demo_renv True 3 ''ab-cd'' [demo_bid ''0xa1'' ''70''] (Some ''0xa1'') ''70'' (empty_log []) =
    (demo_published, Inr (Some r))"
    by (simp add: demo_published_def publish_receipt_def receipts_enabled_def demo_renv_def sign_receipt_def receipt_message_def
        draft_receipt_def hash_bids_def bid_weis_def to_receipt_bid_def demo_bid_def js_defs remember_def env_hash_def receipt_hash_def Let_def)
  then obtain r where "publish_receipt demo_renv True 3 ''ab-cd'' [demo_bid ''0xa1'' ''70''] (Some ''0xa1'') ''70'' (empty_log []) =
    (demo_published, Inr (Some r))" ..
  moreover have "log_bounded demo_renv (empty_log [])" "1 \<le> re_keep demo_renv" "uuid_like ''ab-cd''"
    by code_simp+
  ultimately show ?thesis using published_receipt_served by blast
qed

end
