(* ===== verification/ReceiptAudit.thy ===== *)
theory ReceiptAudit
  imports ReceiptLog
begin

text \<open>
  The two ends of a receipt together: what the auctioneer publishes and acknowledges
  (\<open>apps/auction/src/receipts.ts\<close>, \<open>auctioneer.ts\<close>) against what a searcher's audit accepts
  (\<open>packages/core/src/receipt.ts\<close>).
\<close>

section \<open>Sorting commutes with the change of record\<close>

lemma ins_by_map: "ins_by cmp (g x) (map g ys) = map g (ins_by (\<lambda>a b. cmp (g a) (g b)) x ys)"
  by (induction ys) auto

lemma js_sort_map: "js_sort cmp (map g xs) = map g (js_sort (\<lambda>a b. cmp (g a) (g b)) xs)"
  by (induction xs rule: rev_induct) (simp_all add: js_sort_snoc ins_by_map)

lemma rb_wei_to_receipt [simp]: "rb_wei (to_receipt_bid b) = bid_value b"
  by (simp add: rb_wei_def to_receipt_bid_def bid_value_def)

lemma sort_receipt_bids:
  "js_sort (cmp_desc rb_wei) (map to_receipt_bid bids) = map to_receipt_bid (js_sort (cmp_desc bid_value) bids)"
  by (simp add: js_sort_map cmp_desc_def [abs_def])

section \<open>What the searcher signed\<close>

text \<open>Each bid carries its searcher's settlement signature over this opportunity and amount.\<close>

definition bid_signed :: "(typed_msg \<Rightarrow> string \<Rightarrow> string option) \<Rightarrow> string \<Rightarrow> string \<Rightarrow> bid \<Rightarrow> bool" where
  "bid_signed recover settlement opp b \<longleftrightarrow>
     (case bid_sig b of
        None \<Rightarrow> False
      | Some s \<Rightarrow> s \<noteq> [] \<and>
          (case recover (BidMsg chain_id settlement (bid_searcher b) (opportunity_id_to_bytes32 opp) (bid_value b)) s of
             None \<Rightarrow> False
           | Some signer \<Rightarrow> lower signer = lower (bid_searcher b)))"

text \<open>What the auctioneer signs recovers to its address.\<close>

definition signer_ok :: "receipt_env \<Rightarrow> (typed_msg \<Rightarrow> string \<Rightarrow> string option) \<Rightarrow> string \<Rightarrow> bool" where
  "signer_ok env recover auctioneer \<longleftrightarrow>
     (\<forall>m s. re_sign env m = Some s \<longrightarrow> s \<noteq> [] \<and> recover m s = Some auctioneer)"

lemma valid_bid_wei: "valid_bid b \<Longrightarrow> big_int (bid_wei b) = Some (bid_value b)"
  by (auto simp: valid_bid_iff bid_value_def)

lemma audit_bids_signed:
  "\<forall>b \<in> set bids. valid_bid b \<and> bid_signed recover st opp b \<Longrightarrow>
     audit_bids recover chain_id st opp (map to_receipt_bid bids) = AuditOk"
  by (induction bids) (auto simp: to_receipt_bid_def bid_signed_def valid_bid_wei split: option.splits)

lemma find_map: "find P (map g xs) = map_option g (find (P \<circ> g) xs)"
  by (induction xs) auto

lemma find_unique:
  assumes "distinct (map f xs)" "x \<in> set xs"
  shows "find (\<lambda>y. f y = f x) xs = Some x"
  using assms by (induction xs) auto

lemma clearing_of_resolved:
  assumes "bids \<noteq> []" "\<forall>b \<in> set bids. valid_bid b \<and> bid_searcher b \<notin> {[], zero_address}"
    and "rc_bids r = map to_receipt_bid bids" "rc_winner r = map_option bid_searcher (oc_winner (resolve_bids bids))"
    and "rc_clearing r = to_str (oc_clearing (resolve_bids bids))"
  shows "audit_clearing_price r = Some AuditOk"
proof -
  let ?s = "js_sort (cmp_desc bid_value) bids"
  have ne: "?s \<noteq> []" using assms(1) by (metis length_0_conv length_js_sort)
  then have in_bids: "?s ! 0 \<in> set bids" by (metis length_greater_0_conv nth_mem set_js_sort)
  have ws: "bid_weis (map to_receipt_bid bids) \<noteq> None"
    using assms(2) by (auto simp: bid_weis_def list_all_iff to_receipt_bid_def valid_bid_wei)
  have w: "rc_winner r = Some (bid_searcher (?s ! 0))" using assms(1,4) by (simp add: resolve_bids_def Let_def)
  have nw: "\<not> no_winner (rc_winner r)" using w assms(2) in_bids by (auto simp: no_winner_def)
  have c: "big_int (rc_clearing r) = Some (sorted_price bid_value ?s)"
    using assms(1,5) by (simp add: resolve_bids_def sorted_price_def Let_def)
  have p: "sorted_price rb_wei (map to_receipt_bid ?s) = sorted_price bid_value ?s"
    using ne nth_map [of 1 ?s to_receipt_bid] nth_map [of 0 ?s to_receipt_bid]
    by (simp add: sorted_price_def del: length_js_sort)
  have "lower (rb_searcher (map to_receipt_bid ?s ! 0)) = lower (bid_searcher (?s ! 0))"
    using assms(1) by (simp add: to_receipt_bid_def)
  then show ?thesis
    using assms(1,3) ws w nw c p by (auto simp: audit_clearing_price_def sort_receipt_bids Let_def)
qed

lemma published_fields:
  assumes "publish_receipt env writable now opp bids winner clearing l = (l', Inr (Some r))"
  shows "rc_opportunity r = opportunity_id_to_bytes32 opp" "rc_bids r = map to_receipt_bid bids"
    "rc_winner r = winner" "rc_clearing r = clearing"
    "\<exists>m s. receipt_message (re_hvec env) (re_hempty env) chain_id r = Some m \<and> rc_signature r = Some s \<and> re_sign env m = Some s"
proof -
  from assms have "sign_receipt (re_hvec env) (re_hempty env) (re_sign env) chain_id (draft_receipt opp bids winner clearing now) = Some r"
    by (rule publish_cases) auto
  then obtain m s where
    m: "receipt_message (re_hvec env) (re_hempty env) chain_id (draft_receipt opp bids winner clearing now) = Some m"
       "re_sign env m = Some s" and r: "r = (draft_receipt opp bids winner clearing now)\<lparr>rc_signature := Some s\<rparr>"
    by (auto simp: sign_receipt_def split: option.splits)
  have "receipt_message (re_hvec env) (re_hempty env) chain_id r = Some m"
    using m(1) by (auto simp: r receipt_message_def split: option.splits)
  with m(2) r show "\<exists>m s. receipt_message (re_hvec env) (re_hempty env) chain_id r = Some m \<and> rc_signature r = Some s \<and> re_sign env m = Some s"
    by simp
  show "rc_opportunity r = opportunity_id_to_bytes32 opp" "rc_bids r = map to_receipt_bid bids"
    "rc_winner r = winner" "rc_clearing r = clearing"
    by (simp_all add: r draft_receipt_def)
qed

lemma acknowledged_fields:
  assumes "acknowledge env b = Inr (Some a)"
  shows "ack_opportunity a = opportunity_id_to_bytes32 (bid_opportunity b)" "ack_searcher a = bid_searcher b" "ack_bid_wei a = bid_wei b"
    "\<exists>m. ack_message chain_id a = Some m \<and> re_sign env m = Some (ack_signature a)"
  using assms
  by (auto simp: acknowledge_def sign_ack_def ack_message_def split: if_splits option.splits)


definition signed_bid :: "string \<Rightarrow> string \<Rightarrow> bid" where
  "signed_bid who amount = (demo_bid who amount)\<lparr>bid_sig := Some who\<rparr>"

definition demo_bids :: "bid list" where
  "demo_bids = [signed_bid ''0xA1'' ''70'', signed_bid ''0xc3'' ''90'', signed_bid ''0xd4'' ''80'']"

definition demo_outcome_receipt :: auction_receipt where
  "demo_outcome_receipt = (draft_receipt ''ab'' demo_bids (Some ''0xc3'') ''80'' 7)\<lparr>rc_signature := Some ''0xau''\<rparr>"

definition demo_outcome_ack :: bid_ack where
  "demo_outcome_ack = \<lparr>ack_opportunity = opportunity_id_to_bytes32 ''ab'', ack_searcher = ''0xd4'', ack_bid_wei = ''80'',
     ack_received_at = 5, ack_signature = ''0xau''\<rparr>"

lemma demo_publish:
  "snd (publish_receipt demo_renv True 7 ''ab'' demo_bids (map_option bid_searcher (oc_winner (resolve_bids demo_bids)))
     (to_str (oc_clearing (resolve_bids demo_bids))) (empty_log [])) = Inr (Some demo_outcome_receipt)"
  by code_simp


text \<open>
  A searcher that bids again on the same opportunity is acknowledged twice and the receipt lists
  both bids, but its audit of that honest receipt against the second acknowledgement reports an
  altered bid, because the audit looks only at the searcher's first bid.
\<close>

theorem honest_rebid_fails_audit:
  "\<exists>r ack. snd (publish_receipt demo_renv True 7 ''ab'' [signed_bid ''0xa1'' ''70'', signed_bid ''0xa1'' ''90'']
       (Some ''0xa1'') ''70'' (empty_log [])) = Inr (Some r) \<and>
     acknowledge demo_renv (signed_bid ''0xa1'' ''90'') = Inr (Some ack) \<and>
     audit_receipt (re_hvec demo_renv) (re_hempty demo_renv) demo_recover r ack chain_id ''0xau'' (Some ''st'')
       = Some (AuditBad (BidAltered ''90'' ''70''))"
proof (intro exI conjI)
  let ?r = "(draft_receipt ''ab'' [signed_bid ''0xa1'' ''70'', signed_bid ''0xa1'' ''90''] (Some ''0xa1'') ''70'' 7)\<lparr>rc_signature := Some ''0xau''\<rparr>"
  let ?a = "demo_outcome_ack\<lparr>ack_searcher := ''0xa1'', ack_bid_wei := ''90''\<rparr>"
  show "snd (publish_receipt demo_renv True 7 ''ab'' [signed_bid ''0xa1'' ''70'', signed_bid ''0xa1'' ''90'']
       (Some ''0xa1'') ''70'' (empty_log [])) = Inr (Some ?r)" by code_simp
  show "acknowledge demo_renv (signed_bid ''0xa1'' ''90'') = Inr (Some ?a)" by code_simp
  show "audit_receipt (re_hvec demo_renv) (re_hempty demo_renv) demo_recover ?r ?a chain_id ''0xau'' (Some ''st'')
       = Some (AuditBad (BidAltered ''90'' ''70''))" by code_simp
qed

end
