(* ===== verification/AuctionMain.thy ===== *)
theory AuctionMain
  imports Bonds ReceiptLog Ledger
begin

text \<open>
  The auction service (\<open>apps/auction/src/main.ts\<close>, \<open>settle.ts\<close>): building a hint, a bid message from
  its arrival to its acknowledgement, and a submission from the sealed-bid window to the dispatch.

  What runs between two \<open>await\<close>s is one operation; the events of a run (\<open>service_step\<close>) are the
  operations in the order the event loop happens to run them. The network, the wallet and the
  signature recovery are the fields of \<open>auction_env\<close> and \<open>submit_io\<close>.
\<close>

section \<open>Environment\<close>

record settle_args =
  sa_searcher :: string
  sa_opportunity :: string
  sa_max :: int
  sa_charge :: int
  sa_user :: string
  sa_app :: string
  sa_sig :: string

record auction_env =
  ae_parse :: "string \<Rightarrow> parsed_tx option"
  ae_recover :: "string \<Rightarrow> string option"
  ae_sim_rpc :: "sim_call \<Rightarrow> string option \<Rightarrow> string \<Rightarrow> unit + sim_out option"
  ae_index :: "(string list \<Rightarrow> unit + (string \<rightharpoonup> pool_key)) option"
  ae_level :: hint_level
  ae_window :: int
  ae_bond :: bond_env
  ae_collateral :: "string \<Rightarrow> int option"
  ae_receipt :: receipt_env
  ae_split :: split
  ae_key :: "string option"

section \<open>Hints\<close>

definition sim_parse :: "auction_env \<Rightarrow> string \<Rightarrow> parsed_tx option" where
  "sim_parse env raw =
     (case (ae_parse env raw, ae_recover env raw) of
        (Some tx, Some from) \<Rightarrow> Some (tx\<lparr>tx_from := from\<rparr>)
      | _ \<Rightarrow> None)"

definition selector_of :: "parsed_tx \<Rightarrow> string option" where
  "selector_of tx =
     (let data = (case tx_data tx of None \<Rightarrow> ''0x'' | Some d \<Rightarrow> d) in
      if length data \<ge> 10 then Some (str_slice 0 10 data) else None)"

definition touched_target :: "parsed_tx \<Rightarrow> string list" where
  "touched_target tx = (case tx_to tx of None \<Rightarrow> [] | Some t \<Rightarrow> if t = [] then [] else [lower t])"

definition base_hint :: "auction_env \<Rightarrow> parsed_tx \<Rightarrow> string list \<Rightarrow> swap_hint list \<Rightarrow> bool \<Rightarrow> opportunity_hint" where
  "base_hint env tx pools swaps simulated =
     \<lparr>oh_pools_touched = pools, oh_swaps = swaps, oh_to = tx_to tx, oh_selector = selector_of tx,
      oh_value = hex_quantity (case tx_value tx of None \<Rightarrow> 0 | Some v \<Rightarrow> v),
      oh_simulated = simulated, oh_level = ae_level env\<rparr>"

text \<open>\<open>None\<close>: the transaction does not parse, and the submission fails.\<close>

definition build_hint :: "auction_env \<Rightarrow> string \<Rightarrow> bool \<Rightarrow> opportunity_hint option" where
  "build_hint env raw simulate =
     (case ae_parse env raw of
        None \<Rightarrow> None
      | Some tx \<Rightarrow>
          if ae_level env = Minimal \<or> \<not> simulate \<or> selector_of tx = None
          then Some (base_hint env tx [] [] False)
          else (case simulate_tx (sim_parse env) (ae_sim_rpc env) raw (Some True) None of
                  None \<Rightarrow> Some (base_hint env tx (touched_target tx) [] False)
                | Some sim \<Rightarrow>
                    if \<not> sim_ok sim \<or> sim_degraded sim
                    then Some (base_hint env tx (touched_target tx) [] False)
                    else (case extract_swap_hints (sim_logs sim) (ae_level env) of
                            Inl _ \<Rightarrow> Some (base_hint env tx (touched_target tx) [] False)
                          | Inr hs \<Rightarrow>
                              let swaps = with_v4_keys hs (ae_index env) in
                              Some (base_hint env tx (js_uniq (map hint_pool swaps)) swaps True))))"

section \<open>Settlement\<close>

definition settlement_enabled :: "auction_env \<Rightarrow> bool" where
  "settlement_enabled env = (bonding_enabled (ae_bond env) \<and> ae_key env \<noteq> None)"

text \<open>The replay key as \<open>settle.ts\<close> makes it.\<close>

definition settle_bytes32 :: "string \<Rightarrow> string" where
  "settle_bytes32 i = ''0x'' @ pad_end 64 CHR ''0'' (filter (\<lambda>c. c \<noteq> CHR ''-'') i)"

definition as_address :: "string option \<Rightarrow> string" where
  "as_address v = (case v of None \<Rightarrow> zero_address | Some a \<Rightarrow> if is_hex 40 a then a else zero_address)"

text \<open>\<open>Inl ()\<close> is a rejected promise; \<open>Inr None\<close> where settlement is not possible.\<close>

definition submit_settlement ::
  "auction_env \<Rightarrow> (settle_args \<Rightarrow> unit + string) \<Rightarrow> settlement_record \<Rightarrow> unit + string option" where
  "submit_settlement env write rec =
     (if \<not> settlement_enabled env then Inr None
      else case sr_searcher_sig rec of
             None \<Rightarrow> Inr None
           | Some s \<Rightarrow>
               if s = [] then Inr None
               else (case (big_int (sr_max_amount rec), big_int (sr_charge rec)) of
                       (Some m, Some c) \<Rightarrow>
                         (case write \<lparr>sa_searcher = as_address (Some (sr_searcher rec)),
                                      sa_opportunity = settle_bytes32 (sr_opportunity rec), sa_max = m, sa_charge = c,
                                      sa_user = as_address (Some (sr_user rec)), sa_app = as_address (Some (sr_app rec)), sa_sig = s\<rparr> of
                            Inl u \<Rightarrow> Inl u
                          | Inr h \<Rightarrow> Inr (Some h))
                     | _ \<Rightarrow> Inl ()))"

section \<open>The service\<close>

record auction_stats =
  st_opportunities :: nat
  st_bids :: nat
  st_rejected :: nat
  st_dispatched :: nat
  st_backruns :: nat
  st_settled :: nat
  st_unbiddable :: nat

text \<open>A bid whose bond check has begun; the verdict is \<open>None\<close> until the collateral is known.\<close>

record pending_check =
  pc_bid :: bid
  pc_needed :: int
  pc_own :: int
  pc_verdict :: "bond_reason option option"

datatype bid_answer = UnknownAuction | BondRefused bond_reason | Answered bid_reply "unit + bid_ack option"

text \<open>The messages sent to searchers' sockets, the transactions broadcast, and the lines appended.\<close>

record service =
  sv_auctions :: "(string \<times> auction) list"
  sv_active :: "string list"
  sv_raw :: "(string \<times> string) list"
  sv_bonds :: bond_state
  sv_log :: receipt_log
  sv_ledger :: rebate_ledger
  sv_pending :: "(nat \<times> pending_check) list"
  sv_stats :: auction_stats
  sv_broadcast :: "opportunity list"
  sv_answers :: "(string \<times> bid_answer) list"
  sv_sent :: "string list"
  sv_settlements :: "settlement_record list"

subsection \<open>Opening a submission\<close>

record submit_body =
  sb_raw :: "string option"
  sb_origin :: "string option"
  sb_rebate :: "string option"

text \<open>
  \<open>handleSubmit\<close> up to \<open>await auction.settled\<close>; \<open>None\<close> where it throws. The result carries the
  window the auction's timer was set to.
\<close>

definition open_submission ::
  "auction_env \<Rightarrow> nat \<Rightarrow> int \<Rightarrow> string \<Rightarrow> submit_body \<Rightarrow> service \<Rightarrow> (service \<times> int) option" where
  "open_submission env searchers now i body sv =
     (case sb_raw body of
        None \<Rightarrow> None
      | Some raw \<Rightarrow>
          if \<not> starts_with ''0x'' raw then None
          else case build_hint env raw (searchers > 0) of
                 None \<Rightarrow> None
               | Some hint \<Rightarrow>
                   let opp = \<lparr>opp_id = i, opp_created_at = now, opp_hint = hint,
                              opp_origin_label = (case sb_origin body of None \<Rightarrow> ''anon'' | Some l \<Rightarrow> l),
                              opp_origin_rebate = sb_rebate body\<rparr>;
                       biddable = (searchers > 0 \<and> oh_selector hint \<noteq> None);
                       st = sv_stats sv in
                   Some (sv\<lparr>sv_auctions := jset i (new_auction opp) (sv_auctions sv),
                            sv_active := sv_active sv @ [i],
                            sv_raw := jset i raw (sv_raw sv),
                            sv_stats := st\<lparr>st_opportunities := st_opportunities st + 1,
                                           st_unbiddable := st_unbiddable st + (if biddable then 0 else 1)\<rparr>,
                            sv_broadcast := (if biddable then sv_broadcast sv @ [opp] else sv_broadcast sv)\<rparr>,
                         close_delay (if biddable then ae_window env else 0)))"

subsection \<open>Bids\<close>

record bid_msg =
  bm_opportunity :: string
  bm_searcher :: "string option"
  bm_wei :: "string option"
  bm_backrun :: "string option"
  bm_sig :: "string option"

definition bid_of_msg :: "int \<Rightarrow> bid_msg \<Rightarrow> bid" where
  "bid_of_msg now m =
     \<lparr>bid_opportunity = bm_opportunity m,
      bid_searcher = (case bm_searcher m of None \<Rightarrow> ''anon'' | Some s \<Rightarrow> s),
      bid_wei = (case bm_wei m of None \<Rightarrow> ''0'' | Some w \<Rightarrow> w),
      bid_backrun = (case bm_backrun m of None \<Rightarrow> [] | Some b \<Rightarrow> b),
      bid_sig = bm_sig m, bid_received_at = now\<rparr>"

text \<open>A bid message arrives: up to the first \<open>await\<close> of \<open>checkBond\<close>.\<close>

definition bid_arrives :: "auction_env \<Rightarrow> nat \<Rightarrow> int \<Rightarrow> bid_msg \<Rightarrow> service \<Rightarrow> service" where
  "bid_arrives env n now m sv =
     (let b = bid_of_msg now m in
      if bid_opportunity b \<notin> set (sv_active sv)
      then sv\<lparr>sv_answers := sv_answers sv @ [(bid_searcher b, UnknownAuction)]\<rparr>
      else let pc = (case bond_begin (ae_bond env) (bid_searcher b) (bid_wei b) (Some (bid_opportunity b)) (sv_bonds sv) of
                       Inl v \<Rightarrow> \<lparr>pc_bid = b, pc_needed = 0, pc_own = 0, pc_verdict = Some v\<rparr>
                     | Inr (needed, own) \<Rightarrow> \<lparr>pc_bid = b, pc_needed = needed, pc_own = own, pc_verdict = None\<rparr>) in
           sv\<lparr>sv_pending := jset n pc (sv_pending sv)\<rparr>)"

text \<open>The collateral is known: the free collateral is evaluated.\<close>

definition collateral_arrives :: "auction_env \<Rightarrow> nat \<Rightarrow> int \<Rightarrow> service \<Rightarrow> service" where
  "collateral_arrives env n now sv =
     (case jget (sv_pending sv) n of
        None \<Rightarrow> sv
      | Some pc \<Rightarrow>
          (case pc_verdict pc of
             Some v \<Rightarrow> sv
           | None \<Rightarrow>
               (case bond_verdict (ae_bond env) (ae_collateral env) now (bid_searcher (pc_bid pc)) (pc_needed pc) (pc_own pc) (sv_bonds sv) of
                  (v, bs) \<Rightarrow> sv\<lparr>sv_bonds := bs, sv_pending := jset n (pc\<lparr>pc_verdict := Some v\<rparr>) (sv_pending sv)\<rparr>)))"

text \<open>The verdict is handled: the bid is submitted and its amount held, or it is refused.\<close>

definition verdict_arrives :: "auction_env \<Rightarrow> nat \<Rightarrow> int \<Rightarrow> service \<Rightarrow> service" where
  "verdict_arrives env n now sv =
     (case jget (sv_pending sv) n of
        None \<Rightarrow> sv
      | Some pc \<Rightarrow>
          let b = pc_bid pc; i = bid_opportunity b; st = sv_stats sv; sv1 = sv\<lparr>sv_pending := jdel n (sv_pending sv)\<rparr> in
          (case pc_verdict pc of
             None \<Rightarrow> sv
           | Some (Some r) \<Rightarrow>
               sv1\<lparr>sv_stats := st\<lparr>st_rejected := st_rejected st + 1\<rparr>,
                   sv_answers := sv_answers sv @ [(bid_searcher b, BondRefused r)]\<rparr>
           | Some None \<Rightarrow>
               (case jget (sv_auctions sv) i of
                  None \<Rightarrow> sv
                | Some a \<Rightarrow>
                    (case submit_bid a b of
                       (a', Accepted) \<Rightarrow>
                         sv1\<lparr>sv_auctions := jset i a' (sv_auctions sv),
                             sv_stats := st\<lparr>st_bids := st_bids st + 1\<rparr>,
                             sv_bonds := (if bonding_enabled (ae_bond env) then hold now (bid_searcher b) i (bid_value b) (sv_bonds sv) else sv_bonds sv),
                             sv_answers := sv_answers sv @ [(bid_searcher b, Answered Accepted (acknowledge (ae_receipt env) b))]\<rparr>
                     | (a', r) \<Rightarrow>
                         sv1\<lparr>sv_answers := sv_answers sv @ [(bid_searcher b, Answered r (Inr None))]\<rparr>))))"

subsection \<open>Closing\<close>

text \<open>Losers' holds are released, the winner's becomes the clearing price, bid by bid.\<close>

fun settle_holds :: "int \<Rightarrow> string \<Rightarrow> outcome \<Rightarrow> bid list \<Rightarrow> bond_state \<Rightarrow> bond_state" where
  "settle_holds now i oc [] s = s"
| "settle_holds now i oc (b # bs) s =
     settle_holds now i oc bs
       (if (case oc_winner oc of None \<Rightarrow> False | Some w \<Rightarrow> bid_searcher b = bid_searcher w)
        then hold now (bid_searcher b) i (oc_clearing oc) s
        else release (bid_searcher b) i s)"

text \<open>The timer fires, and the submission resumes in the same tick.\<close>

definition window_closes :: "int \<Rightarrow> string \<Rightarrow> service \<Rightarrow> service" where
  "window_closes now i sv =
     (case jget (sv_auctions sv) i of
        None \<Rightarrow> sv
      | Some a \<Rightarrow>
          if au_closed a then sv
          else let a' = close_auction a in
               sv\<lparr>sv_auctions := jset i a' (sv_auctions sv), sv_active := filter (\<lambda>j. j \<noteq> i) (sv_active sv),
                  sv_bonds := settle_holds now i (resolve_bids (au_bids a)) (au_bids a) (sv_bonds sv)\<rparr>)"

subsection \<open>Dispatching\<close>

record submit_io =
  io_now :: int
  io_writable :: bool
  io_settle :: "settle_args \<Rightarrow> unit + string"
  io_send :: "string \<Rightarrow> string + string"

record submit_reply =
  rp_result :: auction_result
  rp_rebate :: "ledger_entry option"
  rp_settlement :: "settlement_record option"
  rp_settlement_tx :: "string option"
  rp_receipt :: "auction_receipt option"
  rp_user_error :: "string option"
  rp_hint :: "hint_level \<times> bool \<times> nat"

definition charged :: "outcome \<Rightarrow> bid option" where
  "charged oc = (case oc_winner oc of None \<Rightarrow> None | Some w \<Rightarrow> if oc_clearing oc > 0 then Some w else None)"

definition settlement_of :: "auction_env \<Rightarrow> int \<Rightarrow> opportunity \<Rightarrow> string \<Rightarrow> outcome \<Rightarrow> bid \<Rightarrow> settlement_record" where
  "settlement_of env now opp raw oc w =
     \<lparr>sr_opportunity = opp_id opp, sr_searcher = bid_searcher w, sr_max_amount = bid_wei w,
      sr_charge = to_str (oc_clearing oc),
      sr_user = (case ae_recover env raw of None \<Rightarrow> zero_address | Some u \<Rightarrow> u),
      sr_app = (case opp_origin_rebate opp of None \<Rightarrow> zero_address | Some a \<Rightarrow> a),
      sr_searcher_sig = bid_sig w, sr_created_at = now\<rparr>"

text \<open>The settlement leg: the record is appended, sent if settlement is on, and the hold released.\<close>

definition settle_leg ::
  "auction_env \<Rightarrow> submit_io \<Rightarrow> opportunity \<Rightarrow> string \<Rightarrow> outcome \<Rightarrow> service \<Rightarrow> service \<times> settlement_record option \<times> string option" where
  "settle_leg env io opp raw oc sv =
     (case charged oc of
        None \<Rightarrow> (sv, None, None)
      | Some w \<Rightarrow>
          let rec = settlement_of env (io_now io) opp raw oc w;
              tx = (if settlement_enabled env
                    then (case submit_settlement env (io_settle io) rec of
                            Inr (Some h) \<Rightarrow> if h = [] then None else Some h
                          | _ \<Rightarrow> None)
                    else None);
              st = sv_stats sv in
          (sv\<lparr>sv_settlements := sv_settlements sv @ [rec],
              sv_stats := st\<lparr>st_settled := st_settled st + (if tx = None then 0 else 1)\<rparr>,
              sv_bonds := release (bid_searcher w) (opp_id opp) (sv_bonds sv)\<rparr>, Some rec, tx))"

text \<open>The two broadcasts: the user's transaction, then the winner's backrun if there is one.\<close>

definition send_leg ::
  "submit_io \<Rightarrow> string \<Rightarrow> outcome \<Rightarrow> service \<Rightarrow> service \<times> string option \<times> string option \<times> string option" where
  "send_leg io raw oc sv =
     (let user = io_send io raw;
          back = (case oc_winner oc of None \<Rightarrow> None | Some w \<Rightarrow> Some (io_send io (bid_backrun w)));
          st = sv_stats sv in
      (sv\<lparr>sv_sent := sv_sent sv @ raw # (case oc_winner oc of None \<Rightarrow> [] | Some w \<Rightarrow> [bid_backrun w]),
          sv_stats := st\<lparr>st_dispatched := st_dispatched st + 1,
                         st_backruns := st_backruns st + (case back of Some (Inr _) \<Rightarrow> 1 | _ \<Rightarrow> 0)\<rparr>\<rparr>,
       (case user of Inl _ \<Rightarrow> None | Inr h \<Rightarrow> Some h),
       (case user of Inl e \<Rightarrow> Some e | Inr _ \<Rightarrow> None),
       (case back of Some (Inr h) \<Rightarrow> Some h | _ \<Rightarrow> None)))"

text \<open>
  \<open>handleSubmit\<close> after the holds: the receipt, the settlement, the broadcasts and the ledger entry.
  \<open>None\<close> as the reply is a submission that throws.
\<close>

definition finish_submission ::
  "auction_env \<Rightarrow> submit_io \<Rightarrow> string \<Rightarrow> service \<Rightarrow> service \<times> submit_reply option" where
  "finish_submission env io i sv =
     (case (jget (sv_auctions sv) i, jget (sv_raw sv) i) of
        (Some a, Some raw) \<Rightarrow>
          (case au_settled a of
             None \<Rightarrow> (sv, None)
           | Some oc \<Rightarrow>
               let opp = au_opportunity a in
               (case publish_receipt (ae_receipt env) (io_writable io) (io_now io) i (au_bids a)
                       (map_option bid_searcher (oc_winner oc)) (to_str (oc_clearing oc)) (sv_log sv) of
                  (l, Inl _) \<Rightarrow> (sv\<lparr>sv_log := l\<rparr>, None)
                | (l, Inr receipt) \<Rightarrow>
                    let (sv1, rec, stx) = settle_leg env io opp raw oc (sv\<lparr>sv_log := l\<rparr>);
                        (sv2, utx, uerr, btx) = send_leg io raw oc sv1;
                        result = to_result opp oc (bid_count a) utx btx (io_now io);
                        (led, entry) =
                          (case charged oc of
                             None \<Rightarrow> (sv_ledger sv2, None)
                           | Some w \<Rightarrow>
                               (case ledger_record (ae_split env) (sv_ledger sv2) result w (opp_origin_rebate opp) (io_now io) of
                                  None \<Rightarrow> (sv_ledger sv2, None)
                                | Some (l', e) \<Rightarrow> (l', Some e))) in
                    (sv2\<lparr>sv_ledger := led\<rparr>,
                     Some \<lparr>rp_result = result, rp_rebate = entry, rp_settlement = rec, rp_settlement_tx = stx,
                           rp_receipt = receipt, rp_user_error = uerr,
                           rp_hint = (oh_level (opp_hint opp), oh_simulated (opp_hint opp), length (oh_pools_touched (opp_hint opp)))\<rparr>)))
      | _ \<Rightarrow> (sv, None))"

section \<open>Runs of the service\<close>

datatype service_event =
    Submit nat int string submit_body
  | BidMessage nat int bid_msg
  | CollateralKnown nat int
  | VerdictHandled nat int
  | WindowCloses int string
  | Dispatch submit_io string

fun service_step :: "auction_env \<Rightarrow> service_event \<Rightarrow> service \<Rightarrow> service" where
  "service_step env (Submit k now i body) sv =
     (case open_submission env k now i body sv of None \<Rightarrow> sv | Some (sv', _) \<Rightarrow> sv')"
| "service_step env (BidMessage n now m) sv = bid_arrives env n now m sv"
| "service_step env (CollateralKnown n now) sv = collateral_arrives env n now sv"
| "service_step env (VerdictHandled n now) sv = verdict_arrives env n now sv"
| "service_step env (WindowCloses now i) sv = window_closes now i sv"
| "service_step env (Dispatch io i) sv = fst (finish_submission env io i sv)"

definition new_service :: service where
  "new_service =
     \<lparr>sv_auctions = [], sv_active = [], sv_raw = [], sv_bonds = \<lparr>bs_cache = [], bs_holds = []\<rparr>,
      sv_log = empty_log [], sv_ledger = new_ledger [], sv_pending = [],
      sv_stats = \<lparr>st_opportunities = 0, st_bids = 0, st_rejected = 0, st_dispatched = 0, st_backruns = 0, st_settled = 0, st_unbiddable = 0\<rparr>,
      sv_broadcast = [], sv_answers = [], sv_sent = [], sv_settlements = []\<rparr>"

definition service_run :: "auction_env \<Rightarrow> service_event list \<Rightarrow> service \<Rightarrow> service" where
  "service_run env es sv = fold (service_step env) es sv"

end
