(* ===== verification/AuctionService.thy ===== *)
theory AuctionService
  imports AuctionMain
begin

text \<open>
  Properties of the auction service: what a broadcast hint carries, that a user's transaction is sent
  whatever happens to the other legs, the state every reachable service is in, and the interleavings
  in which the holds on a searcher exceed its collateral.
\<close>

section \<open>Hints\<close>

lemma with_v4_keys_amounts:
  "\<forall>h \<in> set hs. hint_amount0 h = None \<and> hint_amount1 h = None \<Longrightarrow>
     \<forall>h \<in> set (with_v4_keys hs ix). hint_amount0 h = None \<and> hint_amount1 h = None"
  by (auto simp: with_v4_keys_def Let_def split: option.splits sum.splits)

lemma extract_no_amounts:
  assumes "extract_swap_hints logs level = Inr hs" "level \<noteq> Full"
  shows "\<forall>h \<in> set hs. hint_amount0 h = None \<and> hint_amount1 h = None"
proof (cases "level = Minimal")
  case True
  with assms show ?thesis by (simp add: extract_swap_hints_def)
next
  case False
  then obtain seen where s: "collect_hints level [] logs = Inr seen" "hs = map snd seen"
    using assms(1) by (auto simp: extract_swap_hints_def split: sum.splits)
  then have "hints_inv level seen"
    using collect_hints_inv [of level "[]" logs seen] by (simp add: hints_inv_def)
  with assms(2) s(2) show ?thesis by (auto simp: hints_inv_def)
qed

definition hint_safe :: "opportunity_hint \<Rightarrow> bool" where
  "hint_safe h \<longleftrightarrow>
     list_all (\<lambda>s. hint_amount0 s = None \<and> hint_amount1 s = None) (oh_swaps h) \<and>
     (case oh_selector h of None \<Rightarrow> True | Some s \<Rightarrow> length s = 10) \<and>
     distinct (oh_pools_touched h) \<and> (oh_simulated h \<or> oh_swaps h = [])"

lemma base_hint_safe:
  "list_all (\<lambda>s. hint_amount0 s = None \<and> hint_amount1 s = None) swaps \<Longrightarrow> distinct pools \<Longrightarrow> b \<or> swaps = [] \<Longrightarrow>
     hint_safe (base_hint env tx pools swaps b)"
  by (auto simp: hint_safe_def base_hint_def selector_of_def str_slice_def Let_def split: option.splits)

lemma distinct_touched [simp]: "distinct (touched_target tx)"
  by (simp add: touched_target_def split: option.splits)

text \<open>
  At every hint level but \<open>full\<close> a hint built from a transaction carries no amounts, of the
  calldata only the selector, each pool once, and swaps only when the simulation succeeded; whatever
  the endpoint and the pool index answer.
\<close>

theorem build_hint_safe:
  assumes "build_hint env raw simulate = Some h" and "ae_level env \<noteq> Full"
  shows "hint_safe h"
proof -
  have e: "hint_safe (base_hint env tx [] [] False)" "hint_safe (base_hint env tx (touched_target tx) [] False)" for tx
    by (simp_all add: base_hint_safe)
  have s: "hint_safe (base_hint env tx (js_uniq (map hint_pool (with_v4_keys hs ix))) (with_v4_keys hs ix) True)"
    if "extract_swap_hints logs (ae_level env) = Inr hs" for tx hs ix logs
    using with_v4_keys_amounts [OF extract_no_amounts [OF that assms(2)]]
    by (intro base_hint_safe) (auto simp: list_all_iff)
  show ?thesis
    using assms(1) e s by (auto simp: build_hint_def Let_def split: option.splits if_splits sum.splits)
qed

definition demo_tx :: parsed_tx where
  "demo_tx = \<lparr>tx_from = [], tx_to = Some ''0xDe'', tx_data = Some ''0x3593564c00'', tx_value = Some 5, tx_gas = None\<rparr>"

definition demo_aenv :: auction_env where
  "demo_aenv = \<lparr>ae_parse = \<lambda>s. if starts_with ''0x'' s then Some demo_tx else None, ae_recover = \<lambda>s. Some ''0x05'',
     ae_sim_rpc = \<lambda>_ _ _. Inr (Some \<lparr>out_status = ''0x1'', out_logs = Some [demo_log], out_gas_used = Some ''0x5'', out_error = None, out_return = None\<rparr>),
     ae_index = None, ae_level = Pools, ae_window = 200, ae_bond = demo_env, ae_collateral = \<lambda>_. Some 100,
     ae_receipt = demo_renv, ae_split = rebate_split, ae_key = Some ''0xkey''\<rparr>"

lemma demo_build: "map_option oh_pools_touched (build_hint demo_aenv ''0x02'' True) = Some [''0xab'']"
  by code_simp

theorem build_hint_safe_witness: "hint_safe (the (build_hint demo_aenv ''0x02'' True))"
proof -
  have "build_hint demo_aenv ''0x02'' True = Some (the (build_hint demo_aenv ''0x02'' True))"
    using demo_build by (cases "build_hint demo_aenv ''0x02'' True") auto
  moreover have "ae_level demo_aenv \<noteq> Full" by (simp add: demo_aenv_def)
  ultimately show ?thesis using build_hint_safe by blast
qed

section \<open>Dispatch\<close>

lemma settle_leg_keeps [simp]:
  "sv_sent (fst (settle_leg env io opp raw oc sv)) = sv_sent sv"
  "sv_ledger (fst (settle_leg env io opp raw oc sv)) = sv_ledger sv"
  "sv_auctions (fst (settle_leg env io opp raw oc sv)) = sv_auctions sv"
  "sv_active (fst (settle_leg env io opp raw oc sv)) = sv_active sv"
  "sv_pending (fst (settle_leg env io opp raw oc sv)) = sv_pending sv"
  "sv_raw (fst (settle_leg env io opp raw oc sv)) = sv_raw sv"
  by (simp_all add: settle_leg_def Let_def split: option.splits)

lemma send_leg_keeps [simp]:
  "sv_ledger (fst (send_leg io raw oc sv)) = sv_ledger sv"
  "sv_auctions (fst (send_leg io raw oc sv)) = sv_auctions sv"
  "sv_active (fst (send_leg io raw oc sv)) = sv_active sv"
  "sv_pending (fst (send_leg io raw oc sv)) = sv_pending sv"
  "sv_raw (fst (send_leg io raw oc sv)) = sv_raw sv"
  "sv_bonds (fst (send_leg io raw oc sv)) = sv_bonds sv"
  by (simp_all add: send_leg_def Let_def)

lemma send_leg_sent:
  "sv_sent (fst (send_leg io raw oc sv)) = sv_sent sv @ raw # (case oc_winner oc of None \<Rightarrow> [] | Some w \<Rightarrow> [bid_backrun w])"
  "fst (snd (send_leg io raw oc sv)) = (case io_send io raw of Inl _ \<Rightarrow> None | Inr h \<Rightarrow> Some h)"
  "fst (snd (snd (send_leg io raw oc sv))) = (case io_send io raw of Inl e \<Rightarrow> Some e | Inr _ \<Rightarrow> None)"
  by (simp_all add: send_leg_def Let_def)

text \<open>The dispatch, with its legs projected.\<close>

lemma finish_unfold:
  assumes "jget (sv_auctions sv) i = Some a" "jget (sv_raw sv) i = Some raw" "au_settled a = Some oc"
    and "publish_receipt (ae_receipt env) (io_writable io) (io_now io) i (au_bids a)
           (map_option bid_searcher (oc_winner oc)) (to_str (oc_clearing oc)) (sv_log sv) = (l, res)"
  shows "finish_submission env io i sv =
    (case res of
       Inl _ \<Rightarrow> (sv\<lparr>sv_log := l\<rparr>, None)
     | Inr receipt \<Rightarrow>
         let opp = au_opportunity a;
             sl = settle_leg env io opp raw oc (sv\<lparr>sv_log := l\<rparr>);
             sd = send_leg io raw oc (fst sl);
             result = to_result opp oc (bid_count a) (fst (snd sd)) (snd (snd (snd sd))) (io_now io);
             le = (case charged oc of
                     None \<Rightarrow> (sv_ledger (fst sd), None)
                   | Some w \<Rightarrow>
                       (case ledger_record (ae_split env) (sv_ledger (fst sd)) result w (opp_origin_rebate opp) (io_now io) of
                          None \<Rightarrow> (sv_ledger (fst sd), None)
                        | Some (l', e) \<Rightarrow> (l', Some e))) in
         ((fst sd)\<lparr>sv_ledger := fst le\<rparr>,
          Some \<lparr>rp_result = result, rp_rebate = snd le, rp_settlement = fst (snd sl), rp_settlement_tx = snd (snd sl),
                rp_receipt = receipt, rp_user_error = fst (snd (snd sd)),
                rp_hint = (oh_level (opp_hint opp), oh_simulated (opp_hint opp), length (oh_pools_touched (opp_hint opp)))\<rparr>))"
  unfolding finish_submission_def assms option.case prod.case Let_def split_def fst_conv snd_conv
  by (rule refl)


definition demo_io :: submit_io where
  "demo_io = \<lparr>io_now = 300, io_writable = False, io_settle = \<lambda>_. Inl (),
     io_send = \<lambda>t. if t = ''0x02'' then Inr ''0xhash'' else Inl ''nonce too low''\<rparr>"

definition demo_body :: submit_body where
  "demo_body = \<lparr>sb_raw = Some ''0x02'', sb_origin = None, sb_rebate = Some ''0xApp''\<rparr>"

definition demo_msg :: "string \<Rightarrow> string \<Rightarrow> string \<Rightarrow> bid_msg" where
  "demo_msg i who amount = \<lparr>bm_opportunity = i, bm_searcher = Some who, bm_wei = Some amount, bm_backrun = Some ''0xbe'', bm_sig = Some ''0x51''\<rparr>"

definition demo_bid_events :: "nat \<Rightarrow> int \<Rightarrow> string \<Rightarrow> string \<Rightarrow> string \<Rightarrow> service_event list" where
  "demo_bid_events n now i who amount =
     [BidMessage n now (demo_msg i who amount), CollateralKnown n now, VerdictHandled n now]"

definition demo_closed :: service where
  "demo_closed = new_service\<lparr>
     sv_auctions := [(''ab'', close_auction ((new_auction demo_opp)\<lparr>au_bids := [demo_bid ''0xa1'' ''7'', demo_bid ''0xc3'' ''9'']\<rparr>))],
     sv_raw := [(''ab'', ''0x03'')]\<rparr>"


text \<open>
  The bids of a round reach the receipt's encoder as they came. Without bond gating any text is
  accepted as a searcher, while the encoder rejects what is no address.
\<close>

definition open_env :: auction_env where
  "open_env = demo_aenv\<lparr>ae_bond := demo_env\<lparr>be_settlement := None\<rparr>,
     ae_receipt := demo_renv\<lparr>re_hvec := \<lambda>as _ _. if list_all (is_hex 40) as then Some ''h'' else None\<rparr>\<rparr>"

text \<open>
  One bid of a searcher that is no address, accepted when bonds are not gated, keeps the user's
  transaction from being sent at all: the receipt cannot be encoded, the submission throws before the
  dispatch, and nothing is broadcast.
\<close>

theorem malformed_searcher_blocks_user:
  "(let s = service_run open_env
       ([Submit 1 10 ''ab'' demo_body] @ demo_bid_events 1 20 ''ab'' ''anon'' ''70'' @ [WindowCloses 210 ''ab'', Dispatch demo_io ''ab''])
       new_service
    in sv_sent s = [] \<and> st_bids (sv_stats s) = 1 \<and> st_opportunities (sv_stats s) = 1)"
  by code_simp

section \<open>Holds and concurrency\<close>

text \<open>
  Two bids of one searcher whose checks interleave are both accepted: each is checked before the
  other's hold is taken, and the holds then exceed the collateral.
\<close>

theorem concurrent_checks_overcommit:
  "(let s = service_run demo_aenv
       [Submit 1 10 ''ab'' demo_body, Submit 1 10 ''cd'' demo_body,
        BidMessage 1 20 (demo_msg ''ab'' ''0xa1'' ''80''), BidMessage 2 20 (demo_msg ''cd'' ''0xa1'' ''80''),
        CollateralKnown 1 21, CollateralKnown 2 21, VerdictHandled 1 21, VerdictHandled 2 21] new_service
    in held_amount demo_env 22 ''0xa1'' (bs_holds (sv_bonds s)) = 160 \<and> ae_collateral demo_aenv ''0xa1'' = Some 100)"
  by code_simp

text \<open>
  With every check and hold strictly in sequence, a lower bid after a higher one on the same
  opportunity shrinks the hold while the higher bid stays in the round; the collateral it frees backs a
  bid elsewhere, and when the higher bid wins the holds exceed the collateral.
\<close>

theorem lower_rebid_overcommits:
  "(let s = service_run demo_aenv
       ([Submit 1 10 ''ab'' demo_body, Submit 1 10 ''cd'' demo_body] @
        demo_bid_events 1 20 ''ab'' ''0xa1'' ''100'' @ demo_bid_events 2 21 ''ab'' ''0xa1'' ''10'' @
        demo_bid_events 3 22 ''ab'' ''0xc3'' ''95'' @ demo_bid_events 4 23 ''cd'' ''0xa1'' ''90'' @
        [WindowCloses 210 ''ab'']) new_service
    in held_amount demo_env 211 ''0xa1'' (bs_holds (sv_bonds s)) = 185 \<and> ae_collateral demo_aenv ''0xa1'' = Some 100)"
  by code_simp

text \<open>
  The winner's hold is dropped at the close when the same searcher also bid under another spelling
  of its address: the loop compares spellings, the holds do not.
\<close>

theorem other_spelling_releases_winner:
  "(let s = service_run demo_aenv
       ([Submit 1 10 ''ab'' demo_body] @ demo_bid_events 1 20 ''ab'' ''0xA1'' ''90'' @ demo_bid_events 2 21 ''ab'' ''0xa1'' ''70'' @
        [WindowCloses 210 ''ab'']) new_service
    in bs_holds (sv_bonds s) = [] \<and>
       map_option (\<lambda>a. map_option (\<lambda>oc. (map_option bid_searcher (oc_winner oc), oc_clearing oc)) (au_settled a)) (jget (sv_auctions s) ''ab'')
         = Some (Some (Some ''0xA1'', 70)))"
  by code_simp

section \<open>Reachable services\<close>

text \<open>A submission gets a fresh identifier without a colon (\<open>randomUUID()\<close>).\<close>

definition event_ok :: "service_event \<Rightarrow> service \<Rightarrow> bool" where
  "event_ok e sv = (case e of Submit k now i body \<Rightarrow> jget (sv_auctions sv) i = None \<and> CHR '':'' \<notin> set i | _ \<Rightarrow> True)"

inductive reachable :: "auction_env \<Rightarrow> service \<Rightarrow> bool" for env where
  start: "reachable env new_service"
| step: "reachable env sv \<Longrightarrow> event_ok e sv \<Longrightarrow> reachable env (service_step env e sv)"

definition auction_entry_ok :: "service \<Rightarrow> string \<Rightarrow> auction \<Rightarrow> bool" where
  "auction_entry_ok sv i a \<longleftrightarrow>
     auction_inv a \<and> opp_id (au_opportunity a) = i \<and> CHR '':'' \<notin> set i \<and> (\<forall>b \<in> set (au_bids a). bid_opportunity b = i) \<and>
     (i \<in> set (sv_active sv) \<longleftrightarrow> \<not> au_closed a)"

definition service_inv :: "service \<Rightarrow> bool" where
  "service_inv sv \<longleftrightarrow>
     (\<forall>i a. jget (sv_auctions sv) i = Some a \<longrightarrow> auction_entry_ok sv i a) \<and>
     (\<forall>i \<in> set (sv_active sv). jget (sv_auctions sv) i \<noteq> None) \<and>
     holds_inv (bs_holds (sv_bonds sv)) \<and> ledger_synced (sv_ledger sv)"

lemma holds_inv_live: "holds_inv hs \<Longrightarrow> holds_inv (filter (\<lambda>(k, h). P h) hs)"
  unfolding holds_inv_def
proof (elim conjE, intro conjI)
  show "distinct (map fst hs) \<Longrightarrow> distinct (map fst (filter (\<lambda>(k, h). P h) hs))"
    by (induction hs) auto
qed auto

lemma bond_verdict_bs:
  "bs_holds (snd (bond_verdict env read now a needed own s)) = filter (\<lambda>(k, h). \<not> expired env now h) (bs_holds s)"
  by (simp add: bond_verdict_def free_collateral_spec held_by_spec split_def Let_def)

lemma bond_verdict_holds:
  "bond_verdict env read now a needed own s = (v, s') \<Longrightarrow> holds_inv (bs_holds s) \<Longrightarrow> holds_inv (bs_holds s')"
  using bond_verdict_bs [of env read now a needed own s] by (simp add: holds_inv_live)

lemma settle_holds_inv:
  "holds_inv (bs_holds s) \<Longrightarrow> CHR '':'' \<notin> set i \<Longrightarrow> holds_inv (bs_holds (settle_holds now i oc bs s))"
  by (induction now i oc bs s rule: settle_holds.induct)
    (auto simp: holds_inv_hold holds_inv_release split: option.splits)

lemma service_inv_open:
  assumes "service_inv sv" "event_ok (Submit k now i body) sv"
  shows "service_inv (service_step env (Submit k now i body) sv)"
proof -
  have n: "jget (sv_auctions sv) i = None" "CHR '':'' \<notin> set i" using assms(2) by (auto simp: event_ok_def)
  then have "i \<notin> set (sv_active sv)" using assms(1) by (auto simp: service_inv_def)
  with n assms(1) show ?thesis
    by (auto simp: service_inv_def auction_entry_ok_def open_submission_def auction_inv_new Let_def new_auction_def auction_inv_def
        split: option.splits if_splits)
qed

lemma service_inv_bid: "service_inv sv \<Longrightarrow> service_inv (bid_arrives env n now m sv)"
  by (auto simp: service_inv_def auction_entry_ok_def bid_arrives_def Let_def)

lemma service_inv_collateral: "service_inv sv \<Longrightarrow> service_inv (collateral_arrives env n now sv)"
  by (auto simp: service_inv_def auction_entry_ok_def collateral_arrives_def bond_verdict_holds
      split: option.splits prod.splits)

lemma service_inv_accept:
  assumes "service_inv sv" "jget (sv_auctions sv) (bid_opportunity b) = Some a" "submit_bid a b = (a', Accepted)"
    "sv_auctions sv' = jset (bid_opportunity b) a' (sv_auctions sv)" "sv_active sv' = sv_active sv" "sv_ledger sv' = sv_ledger sv"
    "bs_holds (sv_bonds sv') = bs_holds (sv_bonds sv) \<or>
       bs_holds (sv_bonds sv') = bs_holds (hold now (bid_searcher b) (bid_opportunity b) (bid_value b) (sv_bonds sv))"
  shows "service_inv sv'"
proof -
  have e: "auction_entry_ok sv (bid_opportunity b) a" using assms(1,2) by (simp add: service_inv_def)
  have a': "a' = a\<lparr>au_bids := au_bids a @ [b]\<rparr>" "\<not> au_closed a" "valid_bid b"
    using submit_bid_cases [of a b] assms(3) by auto
  have "auction_inv a'" using auction_inv_step [of a "BidArrives b"] e assms(3) by (simp add: auction_entry_ok_def)
  with e a' have "auction_entry_ok sv' (bid_opportunity b) a'"
    using assms(5) by (auto simp: auction_entry_ok_def)
  moreover have "auction_entry_ok sv' i c = auction_entry_ok sv i c" for i c
    using assms(5) by (simp add: auction_entry_ok_def)
  moreover have "holds_inv (bs_holds (sv_bonds sv'))"
    using assms(1,7) e holds_inv_hold [of "sv_bonds sv" "bid_opportunity b"]
    by (auto simp: service_inv_def auction_entry_ok_def)
  ultimately show ?thesis using assms(1,4-6) by (auto simp: service_inv_def)
qed

lemma service_inv_fields:
  "service_inv sv \<Longrightarrow> sv_auctions sv' = sv_auctions sv \<Longrightarrow> sv_active sv' = sv_active sv \<Longrightarrow>
     bs_holds (sv_bonds sv') = bs_holds (sv_bonds sv) \<Longrightarrow> sv_ledger sv' = sv_ledger sv \<Longrightarrow> service_inv sv'"
  by (auto simp: service_inv_def auction_entry_ok_def)

lemma service_inv_verdict:
  assumes "service_inv sv"
  shows "service_inv (verdict_arrives env n now sv)"
proof (cases "jget (sv_pending sv) n")
  case None
  with assms show ?thesis by (simp add: verdict_arrives_def)
next
  case (Some pc)
  let ?b = "pc_bid pc"
  show ?thesis
  proof (cases "pc_verdict pc = Some None \<and> (\<exists>a. jget (sv_auctions sv) (bid_opportunity ?b) = Some a \<and> snd (submit_bid a ?b) = Accepted)")
    case True
    then obtain a a' where a: "jget (sv_auctions sv) (bid_opportunity ?b) = Some a" "submit_bid a ?b = (a', Accepted)"
      by (metis prod.collapse)
    show ?thesis
      by (rule service_inv_accept [OF assms a, where now = now])
        (use True Some a in \<open>auto simp: verdict_arrives_def Let_def\<close>)
  next
    case False
    with Some show ?thesis
      by (intro service_inv_fields [OF assms])
        (auto simp: verdict_arrives_def Let_def split: option.splits prod.splits bid_reply.splits)
  qed
qed

lemma service_inv_close:
  assumes "service_inv sv"
  shows "service_inv (window_closes now i sv)"
proof (cases "jget (sv_auctions sv) i")
  case None
  with assms show ?thesis by (simp add: window_closes_def)
next
  case (Some a)
  then have e: "auction_entry_ok sv i a" using assms by (simp add: service_inv_def)
  have "auction_inv (close_auction a)" using auction_inv_step [of a CloseTimer] e by (simp add: auction_entry_ok_def)
  moreover have "au_closed (close_auction a)" "au_bids (close_auction a) = au_bids a" "au_opportunity (close_auction a) = au_opportunity a"
    by (simp_all add: close_auction_def)
  moreover have "holds_inv (bs_holds (settle_holds now i (resolve_bids (au_bids a)) (au_bids a) (sv_bonds sv)))"
    using assms e by (intro settle_holds_inv) (auto simp: service_inv_def auction_entry_ok_def)
  ultimately show ?thesis
    using assms Some e by (auto simp: service_inv_def window_closes_def auction_entry_ok_def Let_def)
qed

lemma holds_settle_leg:
  "holds_inv (bs_holds (sv_bonds sv)) \<Longrightarrow> holds_inv (bs_holds (sv_bonds (fst (settle_leg env io opp raw oc sv))))"
  by (auto simp: settle_leg_def Let_def holds_inv_release split: option.splits)

lemma ledger_synced_leg:
  "ledger_synced l \<Longrightarrow>
     ledger_synced (fst (case c of
        None \<Rightarrow> (l, None)
      | Some w \<Rightarrow> (case ledger_record sp l result w app now of None \<Rightarrow> (l, None) | Some (l', e) \<Rightarrow> (l', Some e))))"
  using ledger_synced_record [of l sp result _ app now] by (auto split: option.splits)

lemma service_inv_dispatch:
  assumes "service_inv sv"
  shows "service_inv (fst (finish_submission env io i sv))"
proof (cases "\<exists>a raw oc. jget (sv_auctions sv) i = Some a \<and> jget (sv_raw sv) i = Some raw \<and> au_settled a = Some oc")
  case False
  then have "finish_submission env io i sv = (sv, None)"
    by (auto simp: finish_submission_def split: option.splits)
  with assms show ?thesis by simp
next
  case True
  then obtain a raw oc where a: "jget (sv_auctions sv) i = Some a" "jget (sv_raw sv) i = Some raw" "au_settled a = Some oc"
    by blast
  obtain l res where p: "publish_receipt (ae_receipt env) (io_writable io) (io_now io) i (au_bids a)
           (map_option bid_searcher (oc_winner oc)) (to_str (oc_clearing oc)) (sv_log sv) = (l, res)"
    by (metis surj_pair)
  have h: "holds_inv (bs_holds (sv_bonds sv))" "ledger_synced (sv_ledger sv)" using assms by (auto simp: service_inv_def)
  show ?thesis
  proof (cases res)
    case (Inl u)
    with assms show ?thesis
      by (simp add: finish_unfold [OF a p]) (rule service_inv_fields, simp_all)
  next
    case (Inr receipt)
    let ?sv' = "fst (finish_submission env io i sv)"
    have "sv_auctions ?sv' = sv_auctions sv" "sv_active ?sv' = sv_active sv"
      by (simp_all add: finish_unfold [OF a p] Inr Let_def)
    moreover have "holds_inv (bs_holds (sv_bonds ?sv'))"
      using h(1) by (simp add: finish_unfold [OF a p] Inr Let_def holds_settle_leg)
    moreover have "ledger_synced (sv_ledger ?sv')"
      using h(2) by (simp add: finish_unfold [OF a p] Inr Let_def ledger_synced_leg)
    ultimately show ?thesis using assms by (auto simp: service_inv_def auction_entry_ok_def)
  qed
qed

lemma service_inv_step: "service_inv sv \<Longrightarrow> event_ok e sv \<Longrightarrow> service_inv (service_step env e sv)"
  by (cases e)
    (simp_all add: service_inv_open service_inv_bid service_inv_collateral service_inv_verdict service_inv_close
      service_inv_dispatch del: service_step.simps(1))

lemma reachable_inv: "reachable env sv \<Longrightarrow> service_inv sv"
proof (induction rule: reachable.induct)
  case start
  then show ?case by (simp add: service_inv_def new_service_def holds_inv_def ledger_synced_new)
next
  case (step sv e)
  then show ?case by (simp add: service_inv_step)
qed



end
