(* ===== verification/Chain.thy ===== *)
theory Chain
  imports Prelude
begin

text \<open>
  What the components know of the chain (\<open>packages/core/src/index.ts\<close>): the wrapped coin, the quote
  assets, and the event of an ERC-20 transfer.
\<close>

definition weth :: string where
  "weth = ''0x0bd7d308f8e1639fab988df18a8011f41eacad73''"

definition usdg :: string where
  "usdg = ''0x5fc5360d0400a0fd4f2af552add042d716f1d168''"

definition quote_tokens :: "string list" where
  "quote_tokens =
     [weth, usdg, ''0xaf88d065e77c8cc2239327c5edb3a432268e5831'', ''0xfd086bc7cd5c481dcc9c85ebe478a1c0b69fcbb9'']"

text \<open>
  \<open>addr in QUOTE_TOKENS\<close>. The members every object inherits (\<open>constructor\<close>, \<open>toString\<close>) are no addresses.
\<close>

definition is_quote_token :: "string \<Rightarrow> bool" where
  "is_quote_token a = (lower a \<in> set quote_tokens)"

definition transfer_topic :: string where
  "transfer_topic = ''0xddf252ad1be2c89b69c2b068fc378daa952ba7f163c4a11628f55a4df523b3ef''"

definition pool_manager :: string where
  "pool_manager = ''0x8366a39cc670b4001a1121b8f6a443a643e40951''"

lemma lower_weth [simp]: "lower weth = weth" by code_simp

lemma lower_zero_address [simp]: "lower zero_address = zero_address" by code_simp

lemma weth_not_zero [simp]: "weth \<noteq> zero_address" "zero_address \<noteq> weth" by code_simp+

text \<open>A JavaScript \<open>Set\<close> made of a list keeps the first of equal elements.\<close>

definition js_set :: "'a list \<Rightarrow> 'a list" where "js_set xs = rev (remdups (rev xs))"

lemma set_js_set [simp]: "set (js_set xs) = set xs" by (simp add: js_set_def)

lemma distinct_js_set [simp]: "distinct (js_set xs)" by (simp add: js_set_def)

end
