(* ===== verification/Solver.thy ===== *)
theory Solver
  imports Chain "HOL-Library.List_Lexorder" "HOL-Library.Char_ord"
begin

text \<open>
  The netting solver of one pair (\<open>apps/batcher/src/solver.ts\<close>, types in \<open>types.ts\<close>). Amounts and
  prices are \<open>bigint\<close>s; a \<open>SimResult\<close>'s parallel arrays are the rows \<open>(token, delta, owed)\<close>. An
  order of a batch is the value itself: the batcher keys orders by their hash, so a batch holds no
  order twice. A price of zero makes \<open>buyAmount\<close> throw; \<open>price_throws\<close> says when.
\<close>

section \<open>Types\<close>

record order =
  o_owner :: string
  o_receiver :: string
  o_sell :: string
  o_buy :: string
  o_amount :: int
  o_min :: int
  o_valid :: int
  o_nonce :: int
  o_app :: string

record leg_key =
  lk_currency0 :: string
  lk_currency1 :: string
  lk_fee :: int
  lk_spacing :: int
  lk_hooks :: string

record leg =
  leg_venue :: int
  leg_path :: string
  leg_key :: leg_key
  leg_zero_for_one :: bool

record interaction =
  in_legs :: "leg list"
  in_amount :: int

record sim_result =
  sim_rows :: "(string \<times> int \<times> int) list"
  sim_buys :: "int list"

section \<open>Pairs\<close>

definition as_token :: "string \<Rightarrow> string" where
  "as_token t = (if lower t = zero_address then weth else lower t)"

definition sort_pair :: "string \<Rightarrow> string \<Rightarrow> string \<times> string" where
  "sort_pair s t = (if s \<le> t then (s, t) else (t, s))"

definition pair_key :: "order \<Rightarrow> string" where
  "pair_key ord = (case sort_pair (as_token (o_sell ord)) (as_token (o_buy ord)) of (a, b) \<Rightarrow> a @ CHR '':'' # b)"

record pair_batch =
  pb_a :: string
  pb_b :: string
  pb_sell_a :: "order list"
  pb_sell_b :: "order list"

definition add_order :: "(string \<times> pair_batch) list \<Rightarrow> order \<Rightarrow> (string \<times> pair_batch) list" where
  "add_order m ord =
     (let s = as_token (o_sell ord);
          (a, b) = sort_pair s (as_token (o_buy ord));
          k = pair_key ord;
          pb = (case jget m k of Some p \<Rightarrow> p | None \<Rightarrow> \<lparr>pb_a = a, pb_b = b, pb_sell_a = [], pb_sell_b = []\<rparr>) in
      jset k (if s = a then pb\<lparr>pb_sell_a := pb_sell_a pb @ [ord]\<rparr> else pb\<lparr>pb_sell_b := pb_sell_b pb @ [ord]\<rparr>) m)"

definition group_by_pair :: "order list \<Rightarrow> pair_batch list" where
  "group_by_pair ords = map snd (foldl add_order [] ords)"

definition all_orders :: "pair_batch \<Rightarrow> order list" where
  "all_orders pb = pb_sell_a pb @ pb_sell_b pb"

section \<open>Clearing\<close>

definition big_sum :: "int list \<Rightarrow> int" where
  "big_sum xs = foldl (+) 0 xs"

record clearing =
  p_a :: int
  p_b :: int

definition buy_amount :: "order \<Rightarrow> pair_batch \<Rightarrow> clearing \<Rightarrow> int" where
  "buy_amount ord pb c =
     (if as_token (o_sell ord) = pb_a pb then tdiv (o_amount ord * p_a c) (p_b c) else tdiv (o_amount ord * p_b c) (p_a c))"

definition price_throws :: "pair_batch \<Rightarrow> clearing \<Rightarrow> bool" where
  "price_throws pb c =
     list_ex (\<lambda>ord. if as_token (o_sell ord) = pb_a pb then p_b c = 0 else p_a c = 0) (all_orders pb)"

definition batch_prices :: "pair_batch \<Rightarrow> clearing \<Rightarrow> (string \<times> int) list" where
  "batch_prices pb c = [(pb_a pb, p_a c), (pb_b pb, p_b c)]"

record residue =
  res_a :: int
  res_b :: int

definition sold_a :: "pair_batch \<Rightarrow> int" where "sold_a pb = big_sum (map o_amount (pb_sell_a pb))"
definition sold_b :: "pair_batch \<Rightarrow> int" where "sold_b pb = big_sum (map o_amount (pb_sell_b pb))"
definition owed_b :: "pair_batch \<Rightarrow> clearing \<Rightarrow> int" where
  "owed_b pb c = big_sum (map (\<lambda>ord. buy_amount ord pb c) (pb_sell_a pb))"
definition owed_a :: "pair_batch \<Rightarrow> clearing \<Rightarrow> int" where
  "owed_a pb c = big_sum (map (\<lambda>ord. buy_amount ord pb c) (pb_sell_b pb))"

definition residual :: "pair_batch \<Rightarrow> clearing \<Rightarrow> residue" where
  "residual pb c =
     (if owed_b pb c > sold_b pb
      then \<lparr>res_a = (if sold_a pb > owed_a pb c then sold_a pb - owed_a pb c else 0), res_b = 0\<rparr>
      else if owed_a pb c > sold_a pb
      then \<lparr>res_a = 0, res_b = (if sold_b pb > owed_b pb c then sold_b pb - owed_b pb c else 0)\<rparr>
      else \<lparr>res_a = 0, res_b = 0\<rparr>)"

definition sim_row :: "sim_result \<Rightarrow> string \<Rightarrow> (int \<times> int) option" where
  "sim_row sim t = map_option snd (find (\<lambda>(u, _). lower u = t) (sim_rows sim))"

definition fee_target :: "int \<Rightarrow> int \<Rightarrow> int" where
  "fee_target fee_bps d = tdiv (d * (10000 - fee_bps)) 10000"

definition next_clearing :: "pair_batch \<Rightarrow> clearing \<Rightarrow> sim_result \<Rightarrow> int \<Rightarrow> residue \<Rightarrow> clearing" where
  "next_clearing pb c sim fee_bps res =
     (case (sim_row sim (pb_a pb), sim_row sim (pb_b pb)) of
        (Some (da, oa), Some (db, ob)) \<Rightarrow>
          let feed_b = c\<lparr>p_a := tdiv (p_a c * fee_target fee_bps db) ob\<rparr>;
              feed_a = c\<lparr>p_b := tdiv (p_b c * fee_target fee_bps da) oa\<rparr>;
              move_b = (if ob = 0 \<or> db \<le> 0 then c else feed_b);
              move_a = (if oa = 0 \<or> da \<le> 0 then c else feed_a) in
          if res_a res > 0 then move_b
          else if res_b res > 0 then move_a
          else if \<bar>da - oa\<bar> = 0 \<and> \<bar>db - ob\<bar> = 0 then c
          else if \<bar>db - ob\<bar> \<ge> \<bar>da - oa\<bar> then move_b else move_a
      | _ \<Rightarrow> c)"

datatype verdict = Acceptable | Short int string | FeeAbove int int string

fun accept_rows :: "pair_batch \<Rightarrow> int \<Rightarrow> (string \<times> int \<times> int) list \<Rightarrow> verdict" where
  "accept_rows pb max_fee [] = Acceptable"
| "accept_rows pb max_fee ((u, d, ow) # rows) =
     (let t = lower u in
      if t \<noteq> pb_a pb \<and> t \<noteq> pb_b pb then accept_rows pb max_fee rows
      else if d < ow then Short (ow - d) t
      else let fee = d - ow;
               sold = big_sum (map o_amount (filter (\<lambda>ord. as_token (o_sell ord) = t) (all_orders pb)));
               cap = tdiv ((sold + ow) * max_fee) 10000 in
           if fee > cap then FeeAbove fee cap t else accept_rows pb max_fee rows)"

definition acceptable :: "pair_batch \<Rightarrow> sim_result \<Rightarrow> int \<Rightarrow> verdict" where
  "acceptable pb sim max_fee = accept_rows pb max_fee (sim_rows sim)"

definition limit_failures :: "pair_batch \<Rightarrow> clearing \<Rightarrow> order list" where
  "limit_failures pb c = filter (\<lambda>ord. buy_amount ord pb c < o_min ord) (all_orders pb)"

definition without :: "pair_batch \<Rightarrow> order list \<Rightarrow> pair_batch" where
  "without pb gone =
     pb\<lparr>pb_sell_a := filter (\<lambda>ord. ord \<notin> set gone) (pb_sell_a pb),
        pb_sell_b := filter (\<lambda>ord. ord \<notin> set gone) (pb_sell_b pb)\<rparr>"

definition netted_a :: "pair_batch \<Rightarrow> clearing \<Rightarrow> int" where
  "netted_a pb c = (if sold_a pb < owed_a pb c then sold_a pb else owed_a pb c)"

section \<open>Routes\<close>

record allocation =
  al_parts :: "(leg list \<times> int) list"
  al_den :: int

definition single :: "leg list \<Rightarrow> allocation" where
  "single legs = \<lparr>al_parts = [(legs, 1)], al_den = 1\<rparr>"

fun spread_parts :: "int \<Rightarrow> int \<Rightarrow> int \<Rightarrow> (leg list \<times> int) list \<Rightarrow> interaction list" where
  "spread_parts amount den used [] = []"
| "spread_parts amount den used ((legs, n) # ps) =
     (let amt = (if ps = [] then amount - used else tdiv (amount * n) den) in
      (if amt > 0 then [\<lparr>in_legs = legs, in_amount = amt\<rparr>] else []) @ spread_parts amount den (used + amt) ps)"

definition spread :: "int \<Rightarrow> allocation \<Rightarrow> interaction list" where
  "spread amount al = spread_parts amount (al_den al) 0 (filter (\<lambda>(_, n). n > 0) (al_parts al))"

definition interactions_for :: "residue \<Rightarrow> allocation option \<Rightarrow> allocation option \<Rightarrow> interaction list" where
  "interactions_for res ab ba =
     (case ab of Some al \<Rightarrow> if res_a res > 0 then spread (res_a res) al else [] | None \<Rightarrow> []) @
     (case ba of Some al \<Rightarrow> if res_b res > 0 then spread (res_b res) al else [] | None \<Rightarrow> [])"

text \<open>The sources call it with at least one route; \<open>compositions(0, _)\<close> does not return.\<close>

fun compositions :: "nat \<Rightarrow> nat \<Rightarrow> nat list list" where
  "compositions 0 den = []"
| "compositions (Suc 0) den = [[den]]"
| "compositions (Suc (Suc n)) den =
     concat (map (\<lambda>first. map (\<lambda>rest. first # rest) (compositions (Suc n) (den - first))) [0..<Suc den])"

definition discovery_clearing :: "pair_batch \<Rightarrow> int \<Rightarrow> int \<Rightarrow> clearing option" where
  "discovery_clearing pb out_b out_a =
     (if sold_a pb > 0 \<and> out_b > 0 then Some \<lparr>p_a = out_b, p_b = sold_a pb\<rparr>
      else if sold_b pb > 0 \<and> out_a > 0 then Some \<lparr>p_a = sold_b pb, p_b = out_a\<rparr>
      else None)"

section \<open>Sums and rounding\<close>

lemma big_sum_list [simp]: "big_sum xs = sum_list xs"
proof -
  have "foldl (+) (a :: int) xs = a + sum_list xs" for a by (induction xs arbitrary: a) auto
  then show ?thesis by (simp add: big_sum_def)
qed

text \<open>Rounding down loses less than one unit per order.\<close>

lemma sum_tdiv_bounds:
  assumes "0 < q" "0 \<le> p" "\<forall>x \<in> set xs. 0 \<le> f x"
  shows "(\<Sum>x \<leftarrow> xs. tdiv (f x * p) q) * q \<le> (\<Sum>x \<leftarrow> xs. f x) * p"
    and "(\<Sum>x \<leftarrow> xs. f x) * p \<le> ((\<Sum>x \<leftarrow> xs. tdiv (f x * p) q) + int (length xs)) * q"
  using assms(3)
proof (induction xs)
  case (Cons x xs)
  { case 1
    have "0 \<le> f x * p" using 1 assms(2) by simp
    from tdiv_le [OF this assms(1)] Cons(1) 1 show ?case by (simp add: algebra_simps) }
  { case 2
    have n: "0 \<le> f x * p" using 2 assms(2) by simp
    define u where "u = f x * p"
    have "u = q * (u div q) + u mod q" "u mod q < q" using assms(1) by simp_all
    then have "u \<le> q * (u div q) + q" by linarith
    then have "f x * p \<le> (f x * p div q + 1) * q" by (simp add: u_def algebra_simps)
    then have "f x * p \<le> (tdiv (f x * p) q + 1) * q" using tdiv_nonneg [OF n assms(1)] by simp
    with Cons(2) 2 show ?case by (simp add: algebra_simps) }
qed auto

text \<open>A well-formed batch: both sides are on their side, and amounts are not negative.\<close>

definition batch_ok :: "pair_batch \<Rightarrow> bool" where
  "batch_ok pb \<longleftrightarrow>
     list_all (\<lambda>ord. as_token (o_sell ord) = pb_a pb \<and> 0 \<le> o_amount ord) (pb_sell_a pb) \<and>
     list_all (\<lambda>ord. as_token (o_sell ord) \<noteq> pb_a pb \<and> 0 \<le> o_amount ord) (pb_sell_b pb)"

lemma owed_b_eq: "batch_ok pb \<Longrightarrow> owed_b pb c = (\<Sum>ord \<leftarrow> pb_sell_a pb. tdiv (o_amount ord * p_a c) (p_b c))"
  unfolding owed_b_def big_sum_list batch_ok_def
  by (intro arg_cong [where f = sum_list] map_cong) (auto simp: list_all_iff buy_amount_def)

lemma owed_a_eq: "batch_ok pb \<Longrightarrow> owed_a pb c = (\<Sum>ord \<leftarrow> pb_sell_b pb. tdiv (o_amount ord * p_b c) (p_a c))"
  unfolding owed_a_def big_sum_list batch_ok_def
  by (intro arg_cong [where f = sum_list] map_cong) (auto simp: list_all_iff buy_amount_def)

lemma owed_bounds:
  assumes "batch_ok pb" "0 < p_a c" "0 < p_b c"
  shows "owed_b pb c * p_b c \<le> sold_a pb * p_a c" "owed_a pb c * p_a c \<le> sold_b pb * p_b c"
    "sold_a pb * p_a c \<le> (owed_b pb c + int (length (pb_sell_a pb))) * p_b c"
    "sold_b pb * p_b c \<le> (owed_a pb c + int (length (pb_sell_b pb))) * p_a c"
  using assms sum_tdiv_bounds [of "p_b c" "p_a c" "pb_sell_a pb" o_amount] sum_tdiv_bounds [of "p_a c" "p_b c" "pb_sell_b pb" o_amount]
  by (simp_all add: owed_b_eq owed_a_eq sold_a_def sold_b_def batch_ok_def list_all_iff)

text \<open>The two sides cannot both be in net demand: at one price, what is owed is worth at most what was sold.\<close>

lemma not_both_in_demand:
  assumes "batch_ok pb" "0 < p_a c" "0 < p_b c"
  shows "owed_b pb c > sold_b pb \<Longrightarrow> owed_a pb c < sold_a pb"
    and "owed_a pb c > sold_a pb \<Longrightarrow> owed_b pb c < sold_b pb"
proof -
  note b = owed_bounds [OF assms]
  show "owed_a pb c < sold_a pb" if "owed_b pb c > sold_b pb"
  proof -
    have "owed_a pb c * p_a c \<le> sold_b pb * p_b c" by (rule b(2))
    also have "\<dots> < owed_b pb c * p_b c" using that assms(3) by simp
    also have "\<dots> \<le> sold_a pb * p_a c" by (rule b(1))
    finally show ?thesis using assms(2) by simp
  qed
  show "owed_b pb c < sold_b pb" if "owed_a pb c > sold_a pb"
  proof -
    have "owed_b pb c * p_b c \<le> sold_a pb * p_a c" by (rule b(1))
    also have "\<dots> < owed_a pb c * p_a c" using that assms(2) by simp
    also have "\<dots> \<le> sold_b pb * p_b c" by (rule b(2))
    finally show ?thesis using assms(3) by simp
  qed
qed

text \<open>
  C19: the residual is exact: at any positive price at most one side goes to the pool, and the side that
  does keeps exactly what the other side is owed, so the absorbed token comes out even to the unit;
  with no residual, both sides cover each other.
\<close>

theorem residual_even:
  assumes "batch_ok pb" and "0 < p_a c" and "0 < p_b c"
  shows "let r = residual pb c in
    (res_a r = 0 \<or> res_b r = 0) \<and> 0 \<le> res_a r \<and> 0 \<le> res_b r \<and>
    (if res_a r > 0 then sold_a pb - res_a r = owed_a pb c \<and> owed_b pb c > sold_b pb
     else if res_b r > 0 then sold_b pb - res_b r = owed_b pb c \<and> owed_a pb c > sold_a pb
     else owed_a pb c \<le> sold_a pb \<and> owed_b pb c \<le> sold_b pb)"
  using not_both_in_demand [OF assms] by (auto simp: residual_def Let_def)

definition demo_order :: "string \<Rightarrow> string \<Rightarrow> int \<Rightarrow> int \<Rightarrow> order" where
  "demo_order sell buy amount min_buy =
     \<lparr>o_owner = ''0x01'', o_receiver = zero_address, o_sell = sell, o_buy = buy, o_amount = amount, o_min = min_buy,
      o_valid = 2000000000, o_nonce = amount, o_app = ''0x''\<rparr>"

definition demo_batch :: pair_batch where
  "demo_batch = \<lparr>pb_a = ''0xaa'', pb_b = ''0xbb'',
     pb_sell_a = [demo_order ''0xaa'' ''0xbb'' 10 900, demo_order ''0xAA'' ''0xbb'' 7 0],
     pb_sell_b = [demo_order ''0xbb'' ''0xaa'' 4001 0]\<rparr>"

definition demo_clearing :: clearing where
  "demo_clearing = \<lparr>p_a = 1000, p_b = 1\<rparr>"

lemma demo_batch_ok: "batch_ok demo_batch"
  by code_simp

theorem residual_even_witness:
  "res_a (residual demo_batch demo_clearing) = 13 \<and> sold_a demo_batch - 13 = owed_a demo_batch demo_clearing"
proof -
  have "res_a (residual demo_batch demo_clearing) = 13" by code_simp
  then show ?thesis
    using residual_even [OF demo_batch_ok, of demo_clearing] by (simp add: demo_clearing_def Let_def)
qed

section \<open>Grouping\<close>

definition group_ok :: "pair_batch \<Rightarrow> bool" where
  "group_ok pb \<longleftrightarrow> pb_a pb \<le> pb_b pb \<and>
     list_all (\<lambda>ord. as_token (o_sell ord) = pb_a pb \<and> as_token (o_buy ord) = pb_b pb) (pb_sell_a pb) \<and>
     list_all (\<lambda>ord. as_token (o_sell ord) = pb_b pb \<and> as_token (o_buy ord) = pb_a pb \<and> pb_a pb \<noteq> pb_b pb) (pb_sell_b pb)"

text \<open>The tokens of an order are addresses; all that matters of them here is that they have no colon.\<close>

definition plain_order :: "order \<Rightarrow> bool" where
  "plain_order ord \<longleftrightarrow> CHR '':'' \<notin> set (as_token (o_sell ord)) \<and> CHR '':'' \<notin> set (as_token (o_buy ord))"

definition groups_inv :: "(string \<times> pair_batch) list \<Rightarrow> order list \<Rightarrow> bool" where
  "groups_inv m ords \<longleftrightarrow> jwf m \<and>
     (\<forall>(k, pb) \<in> set m. k = pb_a pb @ CHR '':'' # pb_b pb \<and> CHR '':'' \<notin> set (pb_b pb) \<and> group_ok pb \<and> all_orders pb \<noteq> []) \<and>
     mset (concat (map (\<lambda>p. all_orders (snd p)) m)) = mset ords"

lemma groups_inv_add:
  assumes "groups_inv m ords" "plain_order ord"
  shows "groups_inv (add_order m ord) (ords @ [ord])"
proof -
  let ?s = "as_token (o_sell ord)" and ?t = "as_token (o_buy ord)"
  obtain a b where ab: "sort_pair ?s ?t = (a, b)" by (cases "sort_pair ?s ?t")
  then have tok: "a \<le> b" "(?s = a \<and> ?t = b) \<or> (?s = b \<and> ?t = a \<and> a \<noteq> b)"
    by (auto simp: sort_pair_def split: if_splits)
  have plain: "CHR '':'' \<notin> set b" using tok(2) assms(2) by (auto simp: plain_order_def)
  have key: "pair_key ord = a @ CHR '':'' # b" by (simp add: pair_key_def ab)
  define pb where "pb = (case jget m (pair_key ord) of Some p \<Rightarrow> p | None \<Rightarrow> \<lparr>pb_a = a, pb_b = b, pb_sell_a = [], pb_sell_b = []\<rparr>)"
  have pb: "pb_a pb = a \<and> pb_b pb = b \<and> group_ok pb"
  proof (cases "jget m (pair_key ord)")
    case None
    with tok(1) show ?thesis by (simp add: pb_def group_ok_def)
  next
    case (Some p)
    then have "(pair_key ord, p) \<in> set m" by (rule map_of_SomeD)
    with assms(1) have p: "pair_key ord = pb_a p @ CHR '':'' # pb_b p" "CHR '':'' \<notin> set (pb_b p)" "group_ok p"
      by (auto simp: groups_inv_def)
    with key plain have "a = pb_a p \<and> b = pb_b p" using colon_inj [of a b "pb_a p" "pb_b p"] by simp
    with p(3) Some show ?thesis by (simp add: pb_def)
  qed
  define pb' where "pb' = (if ?s = a then pb\<lparr>pb_sell_a := pb_sell_a pb @ [ord]\<rparr> else pb\<lparr>pb_sell_b := pb_sell_b pb @ [ord]\<rparr>)"
  have add: "add_order m ord = jset (pair_key ord) pb' m"
    by (simp add: add_order_def ab Let_def pb'_def pb_def)
  have ok: "group_ok pb'" "pb_a pb' = a" "pb_b pb' = b" "mset (all_orders pb') = add_mset ord (mset (all_orders pb))" "all_orders pb' \<noteq> []"
    using pb tok(2) by (auto simp: pb'_def group_ok_def all_orders_def)
  have "mset (case jget m (pair_key ord) of None \<Rightarrow> [] | Some w \<Rightarrow> all_orders w) = mset (all_orders pb)"
    by (simp add: pb_def all_orders_def split: option.splits)
  with mset_concat_jset [of all_orders "pair_key ord" pb' m] ok(4) assms(1)
  have "mset (concat (map (\<lambda>p. all_orders (snd p)) (add_order m ord))) = mset (ords @ [ord])"
    by (simp add: add groups_inv_def)
  moreover have "\<forall>(k, p) \<in> set (add_order m ord). k = pb_a p @ CHR '':'' # pb_b p \<and> CHR '':'' \<notin> set (pb_b p) \<and> group_ok p \<and> all_orders p \<noteq> []"
    using assms(1) ok plain key by (auto simp: add groups_inv_def dest!: set_jset)
  moreover have "jwf (add_order m ord)" using assms(1) by (simp add: add groups_inv_def)
  ultimately show ?thesis by (simp add: groups_inv_def)
qed

lemma groups_inv_all: "\<forall>ord \<in> set ords. plain_order ord \<Longrightarrow> groups_inv (foldl add_order [] ords) ords"
proof (induction ords rule: rev_induct)
  case Nil
  then show ?case by (simp add: groups_inv_def)
next
  case (snoc ord ords)
  then show ?case using groups_inv_add [of "foldl add_order [] ords" ords ord] by simp
qed

text \<open>That no order is lost does not depend on the tokens.\<close>

lemma group_by_pair_mset: "mset (concat (map all_orders (group_by_pair ords))) = mset ords"
proof -
  have "mset (concat (map (\<lambda>p. all_orders (snd p)) (add_order m ord))) = mset (concat (map (\<lambda>p. all_orders (snd p)) m)) + {#ord#}" for m ord
  proof -
    obtain a b where ab: "sort_pair (as_token (o_sell ord)) (as_token (o_buy ord)) = (a, b)" by (metis surj_pair)
    define pb where "pb = (case jget m (pair_key ord) of Some p \<Rightarrow> p | None \<Rightarrow> \<lparr>pb_a = a, pb_b = b, pb_sell_a = [], pb_sell_b = []\<rparr>)"
    define pb' where "pb' = (if as_token (o_sell ord) = a then pb\<lparr>pb_sell_a := pb_sell_a pb @ [ord]\<rparr> else pb\<lparr>pb_sell_b := pb_sell_b pb @ [ord]\<rparr>)"
    have "add_order m ord = jset (pair_key ord) pb' m" by (simp add: add_order_def ab Let_def pb'_def pb_def)
    moreover have "mset (all_orders pb') = add_mset ord (mset (all_orders pb))" by (simp add: pb'_def all_orders_def)
    moreover have "mset (case jget m (pair_key ord) of None \<Rightarrow> [] | Some w \<Rightarrow> all_orders w) = mset (all_orders pb)"
      by (simp add: pb_def all_orders_def split: option.splits)
    ultimately show ?thesis using mset_concat_jset [of all_orders "pair_key ord" pb' m] by simp
  qed
  then have "mset (concat (map (\<lambda>p. all_orders (snd p)) (foldl add_order m ords))) = mset (concat (map (\<lambda>p. all_orders (snd p)) m)) + mset ords" for m
    by (induction ords arbitrary: m) simp_all
  from this [of "[]"] show ?thesis by (simp add: group_by_pair_def comp_def)
qed

text \<open>
  Grouping loses no order and mixes no pair: every order is in exactly one batch, on the side it
  sells, ether and its wrapped form being one token; a batch has one sorted pair, and no two batches
  have the same one.
\<close>

theorem group_by_pair_partition:
  assumes "list_all plain_order ords"
  shows "mset (concat (map all_orders (group_by_pair ords))) = mset ords \<and>
    list_all group_ok (group_by_pair ords) \<and> distinct (map (\<lambda>pb. (pb_a pb, pb_b pb)) (group_by_pair ords))"
proof -
  let ?m = "foldl add_order [] ords"
  have inv: "groups_inv ?m ords" using assms by (intro groups_inv_all) (auto simp: list_all_iff)
  have "map fst ?m = map (\<lambda>pb. pb_a pb @ CHR '':'' # pb_b pb) (map snd ?m)"
    using inv by (auto simp: groups_inv_def)
  moreover have "distinct (map fst ?m)" using inv by (simp add: groups_inv_def)
  ultimately have "distinct (map (\<lambda>pb. pb_a pb @ CHR '':'' # pb_b pb) (group_by_pair ords))"
    unfolding group_by_pair_def by (simp only:)
  then have "distinct (map (\<lambda>pb. (pb_a pb, pb_b pb)) (group_by_pair ords))"
    by (auto simp: distinct_map inj_on_def)
  moreover have "mset (concat (map all_orders (group_by_pair ords))) = mset ords" "list_all group_ok (group_by_pair ords)"
    using inv by (auto simp: groups_inv_def group_by_pair_def list_all_iff comp_def)
  ultimately show ?thesis by blast
qed

definition demo_orders :: "order list" where
  "demo_orders = [demo_order weth ''0xfe'' 10 0, demo_order ''0xFE'' zero_address 500 0, demo_order ''0xaa'' ''0xfe'' 3 0]"

theorem group_by_pair_partition_witness:
  "list_all group_ok (group_by_pair demo_orders) \<and> map (\<lambda>pb. (length (pb_sell_a pb), length (pb_sell_b pb))) (group_by_pair demo_orders) = [(1, 1), (1, 0)]"
proof -
  have "list_all plain_order demo_orders" by code_simp
  moreover have "map (\<lambda>pb. (length (pb_sell_a pb), length (pb_sell_b pb))) (group_by_pair demo_orders) = [(1, 1), (1, 0)]"
    by code_simp
  ultimately show ?thesis using group_by_pair_partition by blast
qed

section \<open>Moving the price\<close>

lemma rounding_chain:
  fixes s p q ob t n :: int
  assumes "0 < q" "0 < ob" "0 \<le> p" "0 \<le> t" "0 \<le> s" "0 \<le> n"
    "o' * q \<le> s * p'" "p' * ob \<le> p * t" "s * p \<le> (ob + n) * q"
  shows "o' * ob \<le> t * (ob + n)"
proof -
  have "(o' * ob) * q = (o' * q) * ob" by simp
  also have "\<dots> \<le> (s * p') * ob" using assms(2,7) by (intro mult_right_mono) auto
  also have "\<dots> = s * (p' * ob)" by simp
  also have "\<dots> \<le> s * (p * t)" using assms(5,8) by (intro mult_left_mono) auto
  also have "\<dots> = (s * p) * t" by simp
  also have "\<dots> \<le> ((ob + n) * q) * t" using assms(4,9) by (intro mult_right_mono) auto
  also have "\<dots> = (t * (ob + n)) * q" by simp
  finally show ?thesis using assms(1) by simp
qed

lemma sold_nonneg: "batch_ok pb \<Longrightarrow> 0 \<le> sold_a pb \<and> 0 \<le> sold_b pb"
  by (auto simp: batch_ok_def sold_a_def sold_b_def list_all_iff intro!: sum_list_nonneg)

lemma fee_target_nonneg: "0 \<le> d \<Longrightarrow> f \<le> 10000 \<Longrightarrow> 0 \<le> fee_target f d"
  by (simp add: fee_target_def tdiv_nonneg_ge0)

lemma new_price:
  assumes "0 \<le> p" "0 \<le> t" "0 < (ob :: int)"
  shows "0 \<le> tdiv (p * t) ob" "tdiv (p * t) ob * ob \<le> p * t"
  using assms tdiv_le [of "p * t" ob] tdiv_nonneg_ge0 [of "p * t" ob] by auto

text \<open>
  The price moves to what is held: when the pool fed one token and the simulation reports what the
  current price owes of it, the next price leaves the other token's price alone and promises at most
  the held amount less the fee, up to one rounding unit per order.
\<close>

theorem next_clearing_promise:
  assumes "batch_ok pb" and "0 < p_a c" and "0 < p_b c" and "fee \<le> 10000"
    and "sim_row sim (pb_a pb) = Some (da, oa)" and "sim_row sim (pb_b pb) = Some (db, ob)"
    and "ob = owed_b pb c" and "0 < ob" and "0 < db" and "res_a res > 0"
    and "c' = next_clearing pb c sim fee res" and "0 < p_a c'"
  shows "p_b c' = p_b c \<and> owed_b pb c' * ob \<le> fee_target fee db * (ob + int (length (pb_sell_a pb)))"
proof -
  let ?t = "fee_target fee db"
  have c': "c' = c\<lparr>p_a := tdiv (p_a c * ?t) ob\<rparr>"
    using assms(5-11) by (simp add: next_clearing_def Let_def)
  have t: "0 \<le> ?t" using assms(4,9) by (intro fee_target_nonneg) auto
  have "owed_b pb c' * p_b c \<le> sold_a pb * p_a c'"
    using owed_bounds(1) [OF assms(1), of c'] assms(3,12) by (simp add: c')
  moreover have "sold_a pb * p_a c \<le> (ob + int (length (pb_sell_a pb))) * p_b c"
    using owed_bounds(3) [OF assms(1-3)] assms(7) by simp
  moreover have "p_a c' * ob \<le> p_a c * ?t"
    using new_price(2) [of "p_a c" ?t ob] assms(2,8) t by (simp add: c')
  ultimately have "owed_b pb c' * ob \<le> ?t * (ob + int (length (pb_sell_a pb)))"
    using rounding_chain [of "p_b c" ob "p_a c" ?t "sold_a pb"] sold_nonneg [OF assms(1)] assms(2,3,8) t by simp
  then show ?thesis by (simp add: c')
qed

definition demo_sim :: sim_result where
  "demo_sim = \<lparr>sim_rows = [(''0xAA'', 4, 4), (''0xbb'', 16900, 17000)], sim_buys = []\<rparr>"

theorem next_clearing_promise_witness:
  "owed_b demo_batch (next_clearing demo_batch demo_clearing demo_sim 10 (residual demo_batch demo_clearing)) * 17000
     \<le> fee_target 10 16900 * (17000 + 2)"
proof -
  let ?c' = "next_clearing demo_batch demo_clearing demo_sim 10 (residual demo_batch demo_clearing)"
  have e: "sim_row demo_sim (pb_a demo_batch) = Some (4, 4)" "sim_row demo_sim (pb_b demo_batch) = Some (16900, 17000)"
    "17000 = owed_b demo_batch demo_clearing" "0 < res_a (residual demo_batch demo_clearing)" "0 < p_a ?c'"
    "0 < p_a demo_clearing" "0 < p_b demo_clearing" "int (length (pb_sell_a demo_batch)) = 2"
    by code_simp+
  show ?thesis
    using next_clearing_promise [OF demo_batch_ok e(6,7) _ e(1,2,3) _ _ e(4) refl e(5)] e(8) by simp
qed

section \<open>Accepting a simulation\<close>

definition row_fair :: "pair_batch \<Rightarrow> int \<Rightarrow> string \<times> int \<times> int \<Rightarrow> bool" where
  "row_fair pb max_fee r =
     (case r of (u, d, ow) \<Rightarrow>
        lower u \<notin> {pb_a pb, pb_b pb} \<or>
        (ow \<le> d \<and> d - ow \<le> tdiv ((big_sum (map o_amount (filter (\<lambda>ord. as_token (o_sell ord) = lower u) (all_orders pb))) + ow) * max_fee) 10000))"

lemma accept_rows_fair: "accept_rows pb mf rows = Acceptable \<longleftrightarrow> list_all (row_fair pb mf) rows"
  by (induction pb mf rows rule: accept_rows.induct) (auto simp: row_fair_def Let_def split: if_splits)

section \<open>Spreading an amount\<close>

lemma spread_parts_sum:
  assumes "0 < den" "0 \<le> amount" "\<forall>(l, n) \<in> set ps. 0 < n" "ps \<noteq> []"
    "used * den \<le> amount * (den - (\<Sum>(l, n) \<leftarrow> ps. n))" "(\<Sum>(l, n) \<leftarrow> ps. n) \<le> den"
  shows "(\<Sum>x \<leftarrow> spread_parts amount den used ps. in_amount x) = amount - used"
  using assms(3-6)
proof (induction ps arbitrary: used)
  case (Cons p ps)
  obtain l n where p: "p = (l, n)" by (cases p)
  show ?case
  proof (cases "ps = []")
    case True
    have "used * den \<le> amount * den" using Cons.prems(1,3) p True assms(2)
      by (smt (verit) mult_left_mono list.set_intros(1) case_prodD sum_list.Cons sum_list.Nil list.simps(8,9) case_prod_conv)
    then have "used \<le> amount" using assms(1) by simp
    with True p show ?thesis by simp
  next
    case False
    let ?amt = "tdiv (amount * n) den"
    have n: "0 < n" using Cons.prems(1) p by auto
    have a: "0 \<le> ?amt" "?amt * den \<le> amount * n"
      using assms(1,2) n tdiv_le [of "amount * n" den] tdiv_nonneg_ge0 [of "amount * n" den] by auto
    have "(used + ?amt) * den \<le> amount * (den - (\<Sum>(l, n) \<leftarrow> ps. n))"
      using Cons.prems(3) a(2) p by (simp add: algebra_simps)
    with Cons False p n have "(\<Sum>x \<leftarrow> spread_parts amount den (used + ?amt) ps. in_amount x) = amount - (used + ?amt)"
      by auto
    with False p a(1) show ?thesis by (auto simp: Let_def)
  qed
qed simp

lemma spread_parts_pos: "\<forall>x \<in> set (spread_parts amount den used ps). 0 < in_amount x"
  by (induction amount den used ps rule: spread_parts.induct) (auto simp: Let_def)

lemma sum_filter_pos: "\<forall>(l, n) \<in> set ps. 0 \<le> n \<Longrightarrow> (\<Sum>(l, n) \<leftarrow> filter (\<lambda>(_, n). n > (0 :: int)) ps. n) = (\<Sum>(l, n) \<leftarrow> ps. n)"
  by (induction ps) auto

text \<open>
  Spreading loses nothing: when the numerators add up to the denominator, the amounts sent down the
  routes add up to the whole amount, dust included, and no route is sent nothing.
\<close>

theorem spread_exact:
  assumes "0 < al_den al" and "list_all (\<lambda>(l, n). 0 \<le> n) (al_parts al)" and "(\<Sum>(l, n) \<leftarrow> al_parts al. n) = al_den al"
    and "0 \<le> amount"
  shows "(\<Sum>x \<leftarrow> spread amount al. in_amount x) = amount \<and> list_all (\<lambda>x. 0 < in_amount x) (spread amount al)"
proof -
  let ?ps = "filter (\<lambda>(_, n). n > 0) (al_parts al)"
  have s: "(\<Sum>(l, n) \<leftarrow> ?ps. n) = al_den al"
    using sum_filter_pos [of "al_parts al"] assms(2,3) by (auto simp: list_all_iff)
  then have "?ps \<noteq> []" using assms(1) by (metis list.simps(8) sum_list.Nil less_irrefl)
  then have "(\<Sum>x \<leftarrow> spread amount al. in_amount x) = amount - 0"
    unfolding spread_def using s assms(1,4) by (intro spread_parts_sum) auto
  then show ?thesis using spread_parts_pos by (simp add: spread_def list_all_iff)
qed

definition demo_alloc :: allocation where
  "demo_alloc = \<lparr>al_parts = [([], 3), ([], 0), ([], 1)], al_den = 4\<rparr>"

theorem spread_exact_witness:
  "(\<Sum>x \<leftarrow> spread 1001 demo_alloc. in_amount x) = 1001 \<and> map in_amount (spread 1001 demo_alloc) = [750, 251]"
proof -
  have "map in_amount (spread 1001 demo_alloc) = [750, 251]" by code_simp
  then show ?thesis using spread_exact [of demo_alloc 1001] by (simp add: demo_alloc_def)
qed

section \<open>Compositions\<close>

text \<open>
  The grid is every split: the compositions of the denominator over the routes are exactly the lists
  of that length with that sum, each once.
\<close>

theorem compositions_complete:
  "set (compositions (Suc n) den) = {xs. length xs = Suc n \<and> sum_list xs = den} \<and> distinct (compositions (Suc n) den)"
proof (induction n arbitrary: den)
  case 0
  have "{xs :: nat list. length xs = Suc 0 \<and> sum_list xs = den} = {[den]}"
    by (auto simp: length_Suc_conv)
  then show ?case by simp
next
  case (Suc n)
  have "set (compositions (Suc (Suc n)) den) = {x # xs | x xs. x \<le> den \<and> length xs = Suc n \<and> sum_list xs = den - x}"
    using Suc by (auto simp: image_iff)
  also have "\<dots> = {xs. length xs = Suc (Suc n) \<and> sum_list xs = den}"
  proof -
    have "\<exists>x ys. xs = x # ys \<and> x \<le> den \<and> length ys = Suc n \<and> sum_list ys = den - x"
      if "length xs = Suc (Suc n)" "sum_list xs = den" for xs :: "nat list"
      using that by (cases xs) auto
    then show ?thesis by auto
  qed
  finally have s: "set (compositions (Suc (Suc n)) den) = {xs. length xs = Suc (Suc n) \<and> sum_list xs = den}" .
  have "distinct (concat (map (\<lambda>first. map (\<lambda>rest. first # rest) (compositions (Suc n) (den - first))) xs))"
    if "distinct xs" for xs
    using that Suc by (induction xs) (auto simp: distinct_map inj_on_def)
  then have "distinct (compositions (Suc (Suc n)) den)" by (simp only: compositions.simps distinct_upt)
  with s show ?case by blast
qed

end
