(* ===== verification/BatchSolve.thy ===== *)
theory BatchSolve
  imports Solver
begin

text \<open>
  Solving one batch (\<open>bestRoute\<close> and \<open>solve\<close> of \<open>apps/batcher/src/main.ts\<close>). The chain's answers are
  the fields of \<open>solve_env\<close>: the candidate routes of each direction, the simulations that compare
  routes, and the simulation of each round (the chain may have moved between two rounds, so a round
  has its own).
\<close>

section \<open>Environment and results\<close>

type_synonym simulate_fn = "order list \<Rightarrow> (string \<times> int) list \<Rightarrow> interaction list \<Rightarrow> string + sim_result"

record solve_env =
  se_routes_ab :: "leg list list"
  se_routes_ba :: "leg list list"
  se_probe :: simulate_fn
  se_round :: "nat \<Rightarrow> simulate_fn"
  se_fee_bps :: int
  se_max_fee :: int

record route_choice =
  br_alloc :: allocation
  br_out :: int
  br_single :: int

datatype drop_reason = LimitNotMet int int | LimitMoved

datatype solve_error =
    NoRate
  | NoLimitMet
  | NoRoute
  | SimulateFailed string
  | UnacceptableSim verdict
  | NoSimulation
  | NotConverged verdict
  | LimitsMoved

record solved =
  so_batch :: pair_batch
  so_clearing :: clearing
  so_interactions :: "interaction list"
  so_sim :: sim_result
  so_dropped :: "(order \<times> drop_reason) list"
  so_alone_b :: int
  so_alone_a :: int

text \<open>\<open>SolveThrows\<close>: a division by a price of zero.\<close>

datatype solve_result = Solved solved | Failed solve_error "(order \<times> drop_reason) list" | SolveThrows

section \<open>The best split over the routes\<close>

definition allocation_of :: "leg list list \<Rightarrow> int \<Rightarrow> nat list \<Rightarrow> allocation" where
  "allocation_of rts den nums = \<lparr>al_parts = map (\<lambda>(legs, n). (legs, int n)) (zip rts nums), al_den = den\<rparr>"

definition out_of :: "simulate_fn \<Rightarrow> pair_batch \<Rightarrow> string \<Rightarrow> int \<Rightarrow> allocation \<Rightarrow> int" where
  "out_of sim pb want amount al =
     (let xs = spread amount al in
      if xs = [] then 0
      else case sim (all_orders pb) (batch_prices pb \<lparr>p_a = 1, p_b = 1\<rparr>) xs of
             Inl _ \<Rightarrow> 0
           | Inr s \<Rightarrow> (case find (\<lambda>(t, _). t = want) (sim_rows s) of None \<Rightarrow> 0 | Some (_, d, _) \<Rightarrow> d))"

definition better :: "(allocation \<times> int) option \<Rightarrow> allocation \<times> int \<Rightarrow> (allocation \<times> int) option" where
  "better best x =
     (if snd x > 0 \<and> (case best of None \<Rightarrow> True | Some b \<Rightarrow> snd x > snd b) then Some x else best)"

definition evaluate_grid ::
  "simulate_fn \<Rightarrow> pair_batch \<Rightarrow> string \<Rightarrow> int \<Rightarrow> leg list list \<Rightarrow> int \<Rightarrow> nat list list \<Rightarrow> (allocation \<times> int) option" where
  "evaluate_grid sim pb want amount rts den grid =
     foldl better None (map (\<lambda>nums. let al = allocation_of rts den nums in (al, out_of sim pb want amount al)) grid)"

definition single_nums :: "nat list \<Rightarrow> bool" where
  "single_nums nums = (length (filter (\<lambda>n. n > 0) nums) = 1)"

definition near_nums :: "nat list \<Rightarrow> nat list \<Rightarrow> bool" where
  "near_nums centre nums = list_all2 (\<lambda>n m. (if n > m then n - m else m - n) \<le> 1) nums centre"

definition best_route :: "simulate_fn \<Rightarrow> pair_batch \<Rightarrow> leg list list \<Rightarrow> bool \<Rightarrow> route_choice option" where
  "best_route sim pb routes side_a =
     (let amount = big_sum (map o_amount (if side_a then pb_sell_a pb else pb_sell_b pb));
          want = (if side_a then pb_b pb else pb_a pb);
          rts = take 3 routes in
      if amount = 0 \<or> routes = [] then None
      else let grid = compositions (length rts) 4 in
           case evaluate_grid sim pb want amount rts 4 grid of
             None \<Rightarrow> None
           | Some first \<Rightarrow>
               let single_out = foldl max 0
                     (map (\<lambda>nums. out_of sim pb want amount (allocation_of rts 4 nums)) (filter single_nums grid)) in
               if length rts = 1 then Some \<lparr>br_alloc = fst first, br_out = snd first, br_single = single_out\<rparr>
               else let centre = map (\<lambda>(_, n). 2 * nat n) (al_parts (fst first));
                        near = js_uniq (filter (near_nums centre) (compositions (length rts) 8));
                        best = (case evaluate_grid sim pb want amount rts 8 near of
                                  Some second \<Rightarrow> if snd second > snd first then second else first
                                | None \<Rightarrow> first) in
                    Some \<lparr>br_alloc = fst best, br_out = snd best, br_single = single_out\<rparr>)"

section \<open>The rounds\<close>

definition price_rel :: "int \<Rightarrow> int \<Rightarrow> int" where
  "price_rel x y = (if x = y then 0 else tdiv ((if x > y then x - y else y - x) * 100000) (if y = 0 then 1 else y))"

definition one_sided :: "pair_batch \<Rightarrow> bool" where
  "one_sided pb = (pb_sell_a pb = [] \<or> pb_sell_b pb = [])"

definition drop_all :: "pair_batch \<Rightarrow> clearing \<Rightarrow> (order \<times> drop_reason) list" where
  "drop_all pb c = map (\<lambda>ord. (ord, LimitNotMet (buy_amount ord pb c) (o_min ord))) (limit_failures pb c)"

text \<open>What the code does after the loop, with the last simulation and its interactions.\<close>

definition finish_solve ::
  "solve_env \<Rightarrow> route_choice option \<Rightarrow> route_choice option \<Rightarrow> pair_batch \<Rightarrow> clearing \<Rightarrow> (order \<times> drop_reason) list \<Rightarrow>
   (sim_result \<times> interaction list) option \<Rightarrow> solve_result" where
  "finish_solve env ab ba pb c dropped lastsim =
     (case lastsim of
        None \<Rightarrow> Failed NoSimulation dropped
      | Some (sim, xs) \<Rightarrow>
          if acceptable pb sim (se_max_fee env) \<noteq> Acceptable
          then Failed (NotConverged (acceptable pb sim (se_max_fee env))) dropped
          else if price_throws pb c then SolveThrows
          else if limit_failures pb c \<noteq> []
          then Failed LimitsMoved (dropped @ map (\<lambda>ord. (ord, LimitMoved)) (limit_failures pb c))
          else Solved \<lparr>so_batch = pb, so_clearing = c, so_interactions = xs, so_sim = sim, so_dropped = dropped,
                       so_alone_b = (case ab of None \<Rightarrow> 0 | Some r \<Rightarrow> br_single r),
                       so_alone_a = (case ba of None \<Rightarrow> 0 | Some r \<Rightarrow> br_single r)\<rparr>)"

text \<open>One pass through the loop's body: it returns, breaks out of the loop, or goes on.\<close>

datatype round_result =
    Stop solve_result
  | Break pair_batch "(order \<times> drop_reason) list" sim_result "interaction list"
  | Continue pair_batch clearing "(order \<times> drop_reason) list" sim_result "interaction list"

definition price_round :: "solve_env \<Rightarrow> pair_batch \<Rightarrow> clearing \<Rightarrow> residue \<Rightarrow> (order \<times> drop_reason) list \<Rightarrow> interaction list \<Rightarrow> sim_result \<Rightarrow> round_result" where
  "price_round env pb c res dropped xs sim =
     (let nxt = next_clearing pb c sim (if one_sided pb then 0 else se_fee_bps env) res;
          v = acceptable pb sim (se_max_fee env) in
      if v = Acceptable \<and> price_rel (p_a nxt) (p_a c) < 10 \<and> price_rel (p_b nxt) (p_b c) < 10
      then Break pb dropped sim xs
      else if nxt = c \<and> v \<noteq> Acceptable then Stop (Failed (UnacceptableSim v) dropped)
      else Continue pb nxt dropped sim xs)"

definition solve_round ::
  "solve_env \<Rightarrow> route_choice option \<Rightarrow> route_choice option \<Rightarrow> nat \<Rightarrow> pair_batch \<Rightarrow> clearing \<Rightarrow>
   (order \<times> drop_reason) list \<Rightarrow> round_result" where
  "solve_round env ab ba round pb c dropped =
     (if price_throws pb c then Stop SolveThrows
      else let fails = limit_failures pb c;
               dropped1 = dropped @ drop_all pb c;
               pb1 = (if fails = [] then pb else without pb fails) in
           if fails \<noteq> [] \<and> all_orders pb1 = [] then Stop (Failed NoLimitMet dropped1)
           else let res = residual pb1 c;
                    xs = interactions_for res (map_option br_alloc ab) (map_option br_alloc ba) in
                if (res_a res > 0 \<and> ab = None) \<or> (res_b res > 0 \<and> ba = None) then Stop (Failed NoRoute dropped1)
                else (case se_round env round (all_orders pb1) (batch_prices pb1 c) xs of
                        Inl e \<Rightarrow> Stop (Failed (SimulateFailed e) dropped1)
                      | Inr sim \<Rightarrow> price_round env pb1 c res dropped1 xs sim))"

text \<open>\<open>left\<close> rounds are left, and \<open>round\<close> counts them from zero.\<close>

fun solve_rounds ::
  "solve_env \<Rightarrow> route_choice option \<Rightarrow> route_choice option \<Rightarrow> nat \<Rightarrow> nat \<Rightarrow> pair_batch \<Rightarrow> clearing \<Rightarrow>
   (order \<times> drop_reason) list \<Rightarrow> (sim_result \<times> interaction list) option \<Rightarrow> solve_result" where
  "solve_rounds env ab ba 0 round pb c dropped lastsim = finish_solve env ab ba pb c dropped lastsim"
| "solve_rounds env ab ba (Suc left) round pb c dropped lastsim =
     (case solve_round env ab ba round pb c dropped of
        Stop r \<Rightarrow> r
      | Break pb1 dropped1 sim xs \<Rightarrow> finish_solve env ab ba pb1 c dropped1 (Some (sim, xs))
      | Continue pb1 nxt dropped1 sim xs \<Rightarrow> solve_rounds env ab ba left (Suc round) pb1 nxt dropped1 (Some (sim, xs)))"

definition solve :: "solve_env \<Rightarrow> pair_batch \<Rightarrow> solve_result" where
  "solve env pb =
     (let ab = best_route (se_probe env) pb (se_routes_ab env) True;
          ba = best_route (se_probe env) pb (se_routes_ba env) False in
      case discovery_clearing pb (case ab of None \<Rightarrow> 0 | Some r \<Rightarrow> br_out r) (case ba of None \<Rightarrow> 0 | Some r \<Rightarrow> br_out r) of
        None \<Rightarrow> Failed NoRate []
      | Some c \<Rightarrow> solve_rounds env ab ba 6 0 pb c [] None)"

section \<open>What a solution guarantees\<close>

lemma mset_without:
  "mset (all_orders (without pb (limit_failures pb c))) + mset (limit_failures pb c) = mset (all_orders pb)"
proof -
  let ?bad = "\<lambda>ord. buy_amount ord pb c < o_min ord"
  have "filter (\<lambda>ord. ord \<notin> set (limit_failures pb c)) xs = filter (\<lambda>ord. \<not> ?bad ord) xs"
    if "set xs \<subseteq> set (all_orders pb)" for xs
    using that by (intro filter_cong) (auto simp: limit_failures_def)
  from this [of "pb_sell_a pb"] this [of "pb_sell_b pb"]
  have "all_orders (without pb (limit_failures pb c)) = filter (\<lambda>ord. \<not> ?bad ord) (all_orders pb)"
    by (simp add: all_orders_def without_def)
  then have "mset (all_orders (without pb (limit_failures pb c))) = filter_mset (\<lambda>ord. \<not> ?bad ord) (mset (all_orders pb))"
    by simp
  moreover have "mset (limit_failures pb c) = filter_mset ?bad (mset (all_orders pb))"
    by (simp add: limit_failures_def)
  ultimately show ?thesis
    using multiset_partition [of "mset (all_orders pb)" ?bad] by (simp only: add.commute)
qed

lemma without_none: "limit_failures pb c = [] \<Longrightarrow> mset (all_orders pb) + mset (limit_failures pb c) = mset (all_orders pb)"
  by simp

lemma map_fst_drop_all [simp]: "map fst (drop_all pb c) = limit_failures pb c"
  by (simp add: drop_all_def comp_def)

lemma pair_without [simp]: "pb_a (without pb xs) = pb_a pb" "pb_b (without pb xs) = pb_b pb"
  by (simp_all add: without_def)

definition solution_ok :: "solve_env \<Rightarrow> pair_batch \<Rightarrow> solved \<Rightarrow> bool" where
  "solution_ok env pb s \<longleftrightarrow>
     mset (all_orders (so_batch s)) + mset (map fst (so_dropped s)) = mset (all_orders pb) \<and>
     pb_a (so_batch s) = pb_a pb \<and> pb_b (so_batch s) = pb_b pb \<and>
     list_all (\<lambda>ord. o_min ord \<le> buy_amount ord (so_batch s) (so_clearing s)) (all_orders (so_batch s)) \<and>
     list_all (row_fair (so_batch s) (se_max_fee env)) (sim_rows (so_sim s))"

lemma finish_solve_ok:
  assumes "finish_solve env ab ba pb1 c dropped lastsim = Solved s"
    and "mset (all_orders pb1) + mset (map fst dropped) = mset (all_orders pb)" "pb_a pb1 = pb_a pb" "pb_b pb1 = pb_b pb"
  shows "solution_ok env pb s"
  using assms
  by (auto simp: finish_solve_def solution_ok_def acceptable_def accept_rows_fair limit_failures_def filter_empty_conv
      list_all_iff not_less split: option.splits if_splits)

lemma round_partition:
  assumes "mset (all_orders pb1) + mset (map fst dropped) = mset (all_orders pb)"
  shows "mset (all_orders (if limit_failures pb1 c = [] then pb1 else without pb1 (limit_failures pb1 c))) +
    mset (map fst (dropped @ drop_all pb1 c)) = mset (all_orders pb)"
  using mset_without [of pb1 c] assms by (auto simp: ac_simps)

definition kept_ok :: "pair_batch \<Rightarrow> pair_batch \<Rightarrow> (order \<times> drop_reason) list \<Rightarrow> bool" where
  "kept_ok pb pb1 dropped \<longleftrightarrow>
     mset (all_orders pb1) + mset (map fst dropped) = mset (all_orders pb) \<and> pb_a pb1 = pb_a pb \<and> pb_b pb1 = pb_b pb"

definition round_kept :: "pair_batch \<Rightarrow> round_result \<Rightarrow> bool" where
  "round_kept pb r \<longleftrightarrow>
     (case r of
        Stop r \<Rightarrow> (\<forall>s. r \<noteq> Solved s)
      | Break pb2 dropped2 sim xs \<Rightarrow> kept_ok pb pb2 dropped2
      | Continue pb2 nxt dropped2 sim xs \<Rightarrow> kept_ok pb pb2 dropped2)"

lemma price_round_kept: "kept_ok pb pb2 dropped2 \<Longrightarrow> round_kept pb (price_round env pb2 c res dropped2 xs sim)"
  by (simp add: price_round_def round_kept_def Let_def)

lemma solve_round_ok:
  assumes "kept_ok pb pb1 dropped"
  shows "round_kept pb (solve_round env ab ba round pb1 c dropped)"
proof -
  define pb2 where "pb2 = (if limit_failures pb1 c = [] then pb1 else without pb1 (limit_failures pb1 c))"
  define dropped2 where "dropped2 = dropped @ drop_all pb1 c"
  have k: "kept_ok pb pb2 dropped2"
    using assms round_partition [of pb1 dropped pb c] by (auto simp: kept_ok_def pb2_def dropped2_def)
  have st: "round_kept pb (Stop (Failed e d))" "round_kept pb (Stop SolveThrows)" for e d
    by (simp_all add: round_kept_def)
  show ?thesis
    unfolding solve_round_def Let_def pb2_def [symmetric] dropped2_def [symmetric]
    by (simp add: st price_round_kept [OF k] split: sum.split)
qed

lemma solve_rounds_ok:
  "solve_rounds env ab ba left round pb1 c dropped lastsim = Solved s \<Longrightarrow> kept_ok pb pb1 dropped \<Longrightarrow> solution_ok env pb s"
proof (induction left arbitrary: round pb1 c dropped lastsim)
  case 0
  then show ?case by (auto simp: kept_ok_def intro: finish_solve_ok)
next
  case (Suc left)
  from solve_round_ok [OF Suc.prems(2), of env ab ba round c] Suc.prems(1) Suc.IH show ?case
    by (cases "solve_round env ab ba round pb1 c dropped")
      (auto simp: kept_ok_def round_kept_def intro: finish_solve_ok)
qed

text \<open>A failure names as dropped only orders of the batch, each as often as it occurs.\<close>

definition drops_ok :: "pair_batch \<Rightarrow> (order \<times> drop_reason) list \<Rightarrow> bool" where
  "drops_ok pb ds \<longleftrightarrow> (\<exists>kept. mset kept + mset (map fst ds) = mset (all_orders pb))"

lemma drops_within:
  assumes "kept_ok pb pb1 dropped"
  shows "drops_ok pb dropped" and "drops_ok pb (dropped @ map (\<lambda>ord. (ord, r)) (limit_failures pb1 c))"
proof -
  show "drops_ok pb dropped" using assms by (auto simp: kept_ok_def drops_ok_def)
  have "mset (all_orders (without pb1 (limit_failures pb1 c))) + mset (map fst (dropped @ map (\<lambda>ord. (ord, r)) (limit_failures pb1 c)))
    = mset (all_orders pb)"
    using assms mset_without [of pb1 c] by (auto simp: kept_ok_def comp_def ac_simps)
  then show "drops_ok pb (dropped @ map (\<lambda>ord. (ord, r)) (limit_failures pb1 c))" unfolding drops_ok_def ..
qed

lemma finish_failed: "finish_solve env ab ba pb1 c dropped l = Failed e ds \<Longrightarrow> kept_ok pb pb1 dropped \<Longrightarrow> drops_ok pb ds"
  using drops_within [of pb pb1 dropped] by (auto simp: finish_solve_def split: option.splits if_splits)

definition stop_within :: "pair_batch \<Rightarrow> round_result \<Rightarrow> bool" where
  "stop_within pb r \<longleftrightarrow> (\<forall>e ds. r = Stop (Failed e ds) \<longrightarrow> drops_ok pb ds)"

lemma round_failed:
  assumes "kept_ok pb pb1 dropped"
  shows "stop_within pb (solve_round env ab ba round pb1 c dropped)"
proof -
  define pb2 where "pb2 = (if limit_failures pb1 c = [] then pb1 else without pb1 (limit_failures pb1 c))"
  define dropped2 where "dropped2 = dropped @ drop_all pb1 c"
  have "kept_ok pb pb2 dropped2"
    using assms round_partition [of pb1 dropped pb c] by (auto simp: kept_ok_def pb2_def dropped2_def)
  from drops_within(1) [OF this] have st: "stop_within pb (Stop (Failed e dropped2))" "stop_within pb (Stop SolveThrows)" for e
    by (simp_all add: stop_within_def)
  have "stop_within pb (price_round env pb2 c' res dropped2 xs sim)" for c' res xs sim
    using st by (auto simp: price_round_def Let_def stop_within_def)
  with st show ?thesis
    unfolding solve_round_def Let_def pb2_def [symmetric] dropped2_def [symmetric]
    by (simp split: sum.split)
qed

lemma rounds_failed:
  "solve_rounds env ab ba left round pb1 c dropped lastsim = Failed e ds \<Longrightarrow> kept_ok pb pb1 dropped \<Longrightarrow> drops_ok pb ds"
proof (induction left arbitrary: round pb1 c dropped lastsim)
  case 0
  show ?case by (rule finish_failed [OF "0.prems"(1) [unfolded solve_rounds.simps] "0.prems"(2)])
next
  case (Suc left)
  note ok = round_failed [OF Suc.prems(2), of env ab ba round c] solve_round_ok [OF Suc.prems(2), of env ab ba round c]
  show ?case
  proof (cases "solve_round env ab ba round pb1 c dropped")
    case (Stop r)
    with ok(1) Suc.prems(1) show ?thesis by (auto simp: stop_within_def)
  next
    case (Break pb2 dropped2 sim xs)
    with ok(2) Suc.prems(1) have "finish_solve env ab ba pb2 c dropped2 (Some (sim, xs)) = Failed e ds" "kept_ok pb pb2 dropped2"
      by (simp_all add: round_kept_def)
    then show ?thesis by (rule finish_failed)
  next
    case (Continue pb2 nxt dropped2 sim xs)
    with ok(2) Suc.prems(1) have "solve_rounds env ab ba left (Suc round) pb2 nxt dropped2 (Some (sim, xs)) = Failed e ds" "kept_ok pb pb2 dropped2"
      by (simp_all add: round_kept_def)
    then show ?thesis by (rule Suc.IH)
  qed
qed

lemma solve_failed_partition:
  assumes "solve env pb = Failed e ds"
  shows "\<exists>kept. mset kept + mset (map fst ds) = mset (all_orders pb)"
proof -
  have k: "kept_ok pb pb []" by (simp add: kept_ok_def)
  from rounds_failed [OF _ k] drops_within(1) [OF k] assms have "drops_ok pb ds"
    unfolding solve_def Let_def by (auto split: option.splits)
  then show ?thesis by (simp only: drops_ok_def)
qed

lemma solve_solution_ok: "solve env pb = Solved s \<Longrightarrow> solution_ok env pb s"
  by (auto simp: solve_def Let_def kept_ok_def split: option.splits intro: solve_rounds_ok)

text \<open>
  C21: a solution is safe for everyone in it: whatever the chain answers, the orders of the batch are
  either kept or named as dropped, none lost; every kept order is paid at least its limit at the
  clearing price; and the last simulation owes no more than is held in either token, with the
  difference within the fee cap.
\<close>

theorem solve_sound:
  assumes "solve env pb = Solved s"
  shows "mset (all_orders (so_batch s)) + mset (map fst (so_dropped s)) = mset (all_orders pb) \<and>
    list_all (\<lambda>ord. o_min ord \<le> buy_amount ord (so_batch s) (so_clearing s)) (all_orders (so_batch s)) \<and>
    list_all (row_fair (so_batch s) (se_max_fee env)) (sim_rows (so_sim s))"
  using solve_solution_ok [OF assms] by (simp add: solution_ok_def)

text \<open>A chain whose pool pays 990 of the second token per unit of the first, and holds what is owed.\<close>

definition demo_pool :: "int \<Rightarrow> simulate_fn" where
  "demo_pool bonus os px xs =
     (let held = 990 * big_sum (map in_amount xs) in
      Inr \<lparr>sim_rows = [(''0xaa'', 0, 0), (''0xbb'', held + bonus, held)], sim_buys = []\<rparr>)"

definition demo_senv :: "int \<Rightarrow> solve_env" where
  "demo_senv bonus = \<lparr>se_routes_ab = [[]], se_routes_ba = [], se_probe = demo_pool 0, se_round = \<lambda>_. demo_pool bonus,
     se_fee_bps = 10, se_max_fee = 30\<rparr>"

definition demo_sell :: pair_batch where
  "demo_sell = \<lparr>pb_a = ''0xaa'', pb_b = ''0xbb'',
     pb_sell_a = [demo_order ''0xaa'' ''0xbb'' 1000 980000, demo_order ''0xaa'' ''0xbb'' 500 600000], pb_sell_b = []\<rparr>"

definition demo_solved :: solved where
  "demo_solved = \<lparr>so_batch = demo_sell\<lparr>pb_sell_a := [demo_order ''0xaa'' ''0xbb'' 1000 980000]\<rparr>,
     so_clearing = \<lparr>p_a = 1485000, p_b = 1500\<rparr>, so_interactions = [\<lparr>in_legs = [], in_amount = 1000\<rparr>],
     so_sim = \<lparr>sim_rows = [(''0xaa'', 0, 0), (''0xbb'', 990000, 990000)], sim_buys = []\<rparr>,
     so_dropped = [(demo_order ''0xaa'' ''0xbb'' 500 600000, LimitNotMet 495000 600000)], so_alone_b = 1485000, so_alone_a = 0\<rparr>"

lemma demo_solve: "solve (demo_senv 0) demo_sell = Solved demo_solved"
  by code_simp

theorem solve_sound_witness:
  "mset (all_orders (so_batch demo_solved)) + mset (map fst (so_dropped demo_solved)) = mset (all_orders demo_sell)"
  using solve_sound [OF demo_solve] by (elim conjE)

section \<open>The price that is returned\<close>

text \<open>A chain that answers only for the prices listed.\<close>

definition demo_picky :: "int list \<Rightarrow> solve_env" where
  "demo_picky ps = (demo_senv 2000)\<lparr>se_round := \<lambda>_ os px xs. if snd (hd px) \<in> set ps then demo_pool 2000 os px xs else Inl ''unseen''\<rparr>"

text \<open>
  When six rounds pass without convergence but the last simulation is acceptable, the solution
  carries a price no round has simulated: a chain that answers for six prices only is left with a
  seventh.
\<close>

theorem unconverged_price_unsimulated:
  "(case solve (demo_picky [990000, 992000, 994004, 996012, 998024, 1000040]) (demo_sell\<lparr>pb_sell_a := [demo_order ''0xaa'' ''0xbb'' 1000 0]\<rparr>) of
      Solved s \<Rightarrow> p_a (so_clearing s) \<notin> set [990000, 992000, 994004, 996012, 998024, 1000040] \<and> length ([990000, 992000, 994004, 996012, 998024, 1000040] :: int list) = 6
    | _ \<Rightarrow> False)"
  by code_simp

end
