(* ===== verification/HexWords.thy ===== *)
theory HexWords
  imports Prelude
begin

text \<open>
  Numbers written as hexadecimal words of a fixed length, the way calldata, keys and metadata are put
  together: the digits, that they read back as the number, and what lower case does to them.
\<close>

lemma lower_append: "lower (xs @ ys) = lower xs @ lower ys"
  by (simp add: lower_def)

lemma digit_val_lower: "hex_char c \<Longrightarrow> digit_val (lower_char c) = digit_val c"
  by (cases c; rename_tac b0 b1 b2 b3 b4 b5 b6 b7; case_tac b0; case_tac b1; case_tac b2; case_tac b3; case_tac b4; case_tac b5; case_tac b6; case_tac b7)
    (simp_all add: hex_char_def digit_ok_def digit_val_code lower_char_code)

lemma hex_digit_lower: "hex_char c \<Longrightarrow> hex_char (lower_char c)"
  by (simp add: digit_val_lower hex_char_def digit_ok_def)

lemma nat_str_length: "0 \<le> n \<Longrightarrow> n < b ^ Suc k \<Longrightarrow> 2 \<le> b \<Longrightarrow> length (nat_str b n) \<le> Suc k"
proof (induction k arbitrary: n)
  case 0
  then show ?case by (simp add: nat_str.simps [of b n])
next
  case (Suc k)
  have "n < b ^ Suc k * b" using Suc.prems(2) by (simp add: mult.commute mult.left_commute)
  moreover have "n div b * b \<le> n" using Suc.prems(3) by (simp add: div_mult_mod_eq minus_mod_eq_div_mult [symmetric])
  ultimately have "n div b * b < b ^ Suc k * b" by linarith
  then have "n div b < b ^ Suc k" by (rule mult_right_less_imp_less) (use Suc.prems(3) in simp)
  moreover have "0 \<le> n div b" using Suc.prems by (simp add: pos_imp_zdiv_nonneg_iff)
  ultimately have "length (nat_str b (n div b)) \<le> Suc k" using Suc.IH Suc.prems(3) by blast
  then show ?case by (simp add: nat_str.simps [of b n])
qed

lemma num_val_zeros: "num_val b 0 (replicate k CHR ''0'' @ s) = num_val b 0 s"
  by (induction k) (simp_all add: digit_val_def)

lemma zero_hex: "hex_char CHR ''0''"
  by (simp add: hex_char_def digit_ok_def digit_val_def)

definition hex_word :: "nat \<Rightarrow> int \<Rightarrow> string" where
  "hex_word k n = pad_start k CHR ''0'' (nat_str 16 n)"

lemma hex_word:
  assumes "0 \<le> n" "n < 16 ^ k" "0 < k"
  shows "length (hex_word k n) = k" "list_all hex_char (hex_word k n)" "num_val 16 0 (hex_word k n) = n"
proof -
  obtain j where k: "k = Suc j" using assms(3) by (cases k) auto
  have "length (nat_str 16 n) \<le> Suc j" by (rule nat_str_length) (use assms k in simp_all)
  then show "length (hex_word k n) = k" using k by (simp add: hex_word_def pad_start_def)
  have "list_all hex_char (nat_str 16 n)"
    using nat_str_digits [of n 16] assms(1) by (auto simp: list_all_iff hex_char_def digit_ok_def digit_val_char)
  then show "list_all hex_char (hex_word k n)"
    by (auto simp: hex_word_def pad_start_def zero_hex list_all_iff)
  show "num_val 16 0 (hex_word k n) = n"
    using assms(1) by (simp add: hex_word_def pad_start_def num_val_zeros nat_str_val)
qed

lemma trim_hex: "list_all hex_char s \<Longrightarrow> big_int (''0x'' @ s) = parse_digits 16 s"
proof -
  assume h: "list_all hex_char s"
  have sp: "\<not> is_space c" if "hex_char c" for c
    using that by (auto simp: is_space_def hex_char_def digit_ok_def digit_val_def)
  have "trim (''0x'' @ s) = ''0x'' @ s"
    by (rule trim_no_space) (use h sp in \<open>auto simp: list_all_iff is_space_def\<close>)
  then show ?thesis by (simp add: big_int_def starts_with_def)
qed

lemma big_int_hex_word:
  assumes "0 \<le> n" "n < 16 ^ k" "0 < k"
  shows "big_int (''0x'' @ hex_word k n) = Some n"
proof -
  note w = hex_word [OF assms]
  then have "hex_word k n \<noteq> []" using assms(3) by auto
  then have "parse_digits 16 (hex_word k n) = Some n" using w by (simp add: parse_digits_def hex_char_def [abs_def])
  then show ?thesis using trim_hex [OF w(2)] by simp
qed

lemma is_hex_word: "list_all hex_char s \<Longrightarrow> length s = k \<Longrightarrow> is_hex k (''0x'' @ s)"
  by (simp add: is_hex_def starts_with_def)

lemma is_hexE:
  assumes "is_hex k s"
  obtains r where "s = ''0x'' @ r" "length r = k" "list_all hex_char r"
proof
  show "s = ''0x'' @ drop 2 s" using assms unfolding is_hex_def starts_with_def
    by (metis append_take_drop_id length_Cons list.size(3) numeral_2_eq_2)
  show "length (drop 2 s) = k" "list_all hex_char (drop 2 s)" using assms by (simp_all add: is_hex_def)
qed

section \<open>Reading digits\<close>

text \<open>\<open>parseInt(s, 16)\<close>: leading space, a sign and a prefix are skipped, and reading stops at the first other character.\<close>

definition parse_int16 :: "string \<Rightarrow> int option" where
  "parse_int16 s0 =
     (let s1 = dropWhile is_space s0;
          neg = starts_with ''-'' s1;
          s2 = (if neg \<or> starts_with ''+'' s1 then tl s1 else s1);
          s3 = (if starts_with ''0x'' (lower s2) then drop 2 s2 else s2);
          ds = takeWhile hex_char s3 in
      if ds = [] then None else Some (if neg then - num_val 16 0 ds else num_val 16 0 ds))"

end
