(* ===== verification/BatchChain.thy ===== *)
theory BatchChain
  imports Solver HexWords
begin

text \<open>
  What the batcher asks the chain (\<open>apps/batcher/src/chain.ts\<close>). A call is what the request encodes;
  \<open>rpc\<close> answers it with a string or an error. The order hash, the signature recovery, the decoding of
  reverts and the wallet's signature are parameters.
\<close>

datatype chain_call =
    CallAllowance string string
  | CallBalance string string
  | CallEscrowed string
  | CallNonceUsed string int
  | CallMaxFee
  | GetCode string
  | GetNonce
  | GetGasPrice

type_synonym rpc_fn = "chain_call \<Rightarrow> string + string"

definition read_int :: "rpc_fn \<Rightarrow> chain_call \<Rightarrow> string + int" where
  "read_int rpc call = sbind (rpc call) (\<lambda>r. of_opt ''SyntaxError'' (big_int r))"

definition signer :: "(order \<Rightarrow> string \<Rightarrow> string option) \<Rightarrow> order \<Rightarrow> string \<Rightarrow> string option" where
  "signer recover ord sg = map_option lower (recover ord sg)"

definition has_code :: "rpc_fn \<Rightarrow> string \<Rightarrow> string + bool" where
  "has_code rpc addr = sbind (rpc (GetCode addr)) (\<lambda>code. Inr (length code > 2))"

datatype pull_verdict = PullOk | ShortBalance int int | ShortAllowance int int

definition can_pull :: "rpc_fn \<Rightarrow> string \<Rightarrow> string \<Rightarrow> int \<Rightarrow> string + pull_verdict" where
  "can_pull rpc own token amount =
     sbind (read_int rpc (CallAllowance token own)) (\<lambda>allowance.
     sbind (read_int rpc (CallBalance token own)) (\<lambda>balance.
       Inr (if balance < amount then ShortBalance balance amount
            else if allowance < amount then ShortAllowance allowance amount else PullOk)))"

definition escrowed :: "rpc_fn \<Rightarrow> string \<Rightarrow> string + int" where
  "escrowed rpc h = read_int rpc (CallEscrowed h)"

definition nonce_used :: "rpc_fn \<Rightarrow> (string \<Rightarrow> bool option) \<Rightarrow> string \<Rightarrow> int \<Rightarrow> string + bool" where
  "nonce_used rpc decode_bool own n =
     sbind (rpc (CallNonceUsed own n)) (\<lambda>r. of_opt ''decode'' (decode_bool r))"

definition max_fee_bps :: "rpc_fn \<Rightarrow> string + int" where
  "max_fee_bps rpc = read_int rpc CallMaxFee"

section \<open>Simulation and dry run\<close>

text \<open>
  The outcome of an \<open>eth_call\<close> or \<open>eth_estimateGas\<close>: an answer, or an error message with the revert's
  bytes where there are any. A revert decodes to a named error with its arguments.
\<close>

datatype revert_data = SimResultArgs "string list" "int list" "int list" "int list" | NamedError string

definition simulate_call ::
  "(string \<Rightarrow> revert_data option) \<Rightarrow> string \<times> string option + string \<Rightarrow> string + sim_result" where
  "simulate_call decode answer =
     (case answer of
        Inr _ \<Rightarrow> Inl ''simulate returned instead of reverting''
      | Inl (msg, None) \<Rightarrow> Inl msg
      | Inl (msg, Some bytes) \<Rightarrow>
          if bytes = [] then Inl msg
          else (case decode bytes of
                  None \<Rightarrow> Inl (''revert '' @ take 10 bytes)
                | Some (SimResultArgs tokens delta owed buys) \<Rightarrow>
                    Inr \<lparr>sim_rows = zip (map lower tokens) (zip delta owed), sim_buys = buys\<rparr>
                | Some (NamedError e) \<Rightarrow> Inl e))"

definition dry_run_settle ::
  "(string \<Rightarrow> revert_data option) \<Rightarrow> string \<times> string option + string \<Rightarrow> string + int" where
  "dry_run_settle decode answer =
     (case answer of
        Inr gas \<Rightarrow> (case big_int gas of Some g \<Rightarrow> Inr g | None \<Rightarrow> Inl ''SyntaxError'')
      | Inl (msg, None) \<Rightarrow> Inl msg
      | Inl (msg, Some bytes) \<Rightarrow>
          if bytes = [] then Inl msg
          else (case decode bytes of
                  Some (NamedError e) \<Rightarrow> Inl e
                | Some (SimResultArgs _ _ _ _) \<Rightarrow> Inl ''SimResult''
                | None \<Rightarrow> Inl msg))"

section \<open>Sending\<close>

text \<open>The nonce is \<open>None\<close> for \<open>NaN\<close>.\<close>

record chain_state =
  ch_nonce :: "int option"
  ch_fee :: int
  ch_loaded :: bool

definition chain_refresh :: "rpc_fn \<Rightarrow> chain_state \<Rightarrow> string + chain_state" where
  "chain_refresh rpc st =
     sbind (rpc GetNonce) (\<lambda>n. sbind (read_int rpc GetGasPrice) (\<lambda>g.
       Inr (st\<lparr>ch_nonce := parse_int16 n, ch_fee := g * 2, ch_loaded := True\<rparr>)))"

record settle_tx =
  tx_gas_limit :: int
  tx_max_fee :: int
  tx_nonce :: "int option"

text \<open>The state after a settlement attempt, the transaction that was signed, and the outcome of the send.\<close>

definition chain_settle ::
  "rpc_fn \<Rightarrow> (settle_tx \<Rightarrow> string + string) \<Rightarrow> int \<Rightarrow> chain_state \<Rightarrow> chain_state \<times> settle_tx option \<times> (string + string)" where
  "chain_settle rpc send gas st =
     (case (if ch_loaded st then Inr st else chain_refresh rpc st) of
        Inl e \<Rightarrow> (st, None, Inl e)
      | Inr st1 \<Rightarrow>
          let tx = \<lparr>tx_gas_limit = tdiv (gas * 13) 10, tx_max_fee = ch_fee st1, tx_nonce = ch_nonce st1\<rparr>;
              st2 = st1\<lparr>ch_nonce := map_option (\<lambda>n. n + 1) (ch_nonce st1)\<rparr> in
          (case send tx of
             Inl e \<Rightarrow> (st2\<lparr>ch_loaded := False\<rparr>, Some tx, Inl e)
           | Inr h \<Rightarrow> (st2, Some tx, Inr h)))"

text \<open>
  Polling for a receipt: one answer per poll, as long as the deadline has not passed. An answer is a
  failed request (\<open>None\<close>), no receipt yet (\<open>Some None\<close>), or a status with the gas used.
\<close>

fun poll_receipt :: "int \<Rightarrow> (int \<times> (string \<times> string option) option) list \<Rightarrow> (bool \<times> int) option" where
  "poll_receipt until [] = None"
| "poll_receipt until ((now, r) # rs) =
     (if now \<ge> until then None
      else case r of
             None \<Rightarrow> poll_receipt until rs
           | Some (status, gas) \<Rightarrow>
               map_option (\<lambda>g. (status = ''0x1'', g)) (big_int (case gas of None \<Rightarrow> ''0x0'' | Some g \<Rightarrow> g)))"

section \<open>Nonces\<close>

text \<open>A send that failed leaves the nonce to be read again: the next transaction carries the chain's answer.\<close>

lemma settle_reloads:
  assumes "chain_settle rpc send gas st = (st', tx, Inl e)" "chain_settle rpc' send' gas' st' = (st2, Some tx2, r)"
    and "rpc' GetNonce = Inr n"
  shows "tx_nonce tx2 = parse_int16 n"
  using assms
  by (auto simp: chain_settle_def chain_refresh_def Let_def sbind_def split: sum.splits if_splits)

text \<open>Sends that succeed use consecutive nonces.\<close>

lemma settle_consecutive:
  assumes "chain_settle rpc send gas st = (st', Some tx, Inr h)" "chain_settle rpc' send' gas' st' = (st2, Some tx2, r)"
  shows "tx_nonce tx2 = map_option (\<lambda>n. n + 1) (tx_nonce tx)"
  using assms
  by (auto simp: chain_settle_def chain_refresh_def Let_def sbind_def split: sum.splits if_splits)

end
