(* ===== verification/Batcher.thy ===== *)
theory Batcher
  imports BatchSolve BatchChain
begin

text \<open>
  The batcher (\<open>apps/batcher/src/main.ts\<close>): intake of orders, settlement of one pair, and the window.
  Times are milliseconds (\<open>now\<close>), an order's validity seconds. The pairs of a window are settled
  concurrently by the code; they share no order, and are settled here one after the other.
\<close>

section \<open>State\<close>

datatype reject_reason =
    DroppedOrder drop_reason
  | PairUnsolved solve_error
  | DryRunReverts string
  | CouldNotSubmit string
  | RevertedOnChain
  | NotMined

datatype order_status =
    Pending
  | AwaitingDeposit
  | Settling string
  | Filled string int "int option" bool
  | RejectedOrder reject_reason
  | Expired

record pending =
  pd_order :: order
  pd_sig :: string
  pd_hash :: string
  pd_deposited :: bool
  pd_received :: int
  pd_attempts :: nat
  pd_status :: order_status

record batch_record =
  rec_at :: int
  rec_tx :: string
  rec_a :: string
  rec_b :: string
  rec_orders :: nat
  rec_netted :: int
  rec_res_a :: int
  rec_res_b :: int
  rec_fee_token :: string
  rec_fee :: int
  rec_gas :: "int option"
  rec_ok :: bool

record batch_stats =
  bs_received :: nat
  bs_rejected :: nat
  bs_filled :: nat
  bs_expired :: nat
  bs_batches :: nat
  bs_failed :: nat
  bs_netted :: nat
  bs_windows :: nat

record batcher =
  bt_orders :: "(string \<times> pending) list"
  bt_in_flight :: "string list"
  bt_paused :: int
  bt_recent :: "batch_record list"
  bt_stats :: batch_stats

definition max_attempts :: nat where
  "max_attempts = 3"

text \<open>Lines that do not parse are skipped; the last 200 are kept, newest first.\<close>

definition load_ledger :: "batch_record option list \<Rightarrow> batch_record list" where
  "load_ledger lines = rev (List.map_filter id (drop (length lines - 200) lines))"

section \<open>Intake\<close>

datatype js_val = JStr string | JInt int | JFrac | JNull | JUndef | JOther

datatype intake_error =
    NotAddress string
  | NotNumeric string
  | NotInteger string
  | AmountNotPositive
  | SameToken
  | EtherSell
  | AlreadyExpired
  | ValidTooLong
  | NonceUsed
  | EscrowMismatch
  | BadSignatureLength
  | WrongSigner
  | PullFails pull_verdict
  | ChainError string

definition field_addr :: "(string \<Rightarrow> js_val) \<Rightarrow> string \<Rightarrow> bool \<Rightarrow> intake_error + string" where
  "field_addr raw k optional =
     (case raw k of
        JStr v \<Rightarrow> if is_hex 40 v then Inr (lower v) else if optional \<and> v = [] then Inr zero_address else Inl (NotAddress k)
      | JNull \<Rightarrow> if optional then Inr zero_address else Inl (NotAddress k)
      | JUndef \<Rightarrow> if optional then Inr zero_address else Inl (NotAddress k)
      | _ \<Rightarrow> Inl (NotAddress k))"

definition field_big :: "(string \<Rightarrow> js_val) \<Rightarrow> string \<Rightarrow> intake_error + int" where
  "field_big raw k =
     (case raw k of
        JStr v \<Rightarrow> of_opt (NotInteger k) (big_int v)
      | JInt n \<Rightarrow> Inr n
      | JFrac \<Rightarrow> Inl (NotInteger k)
      | _ \<Rightarrow> Inl (NotNumeric k))"

definition field_app :: "(string \<Rightarrow> js_val) \<Rightarrow> string" where
  "field_app raw =
     (case raw ''appData'' of
        JStr v \<Rightarrow> if is_hex 64 v then lower v else ''0x'' @ replicate 64 CHR ''0''
      | _ \<Rightarrow> ''0x'' @ replicate 64 CHR ''0'')"

definition parse_order :: "(string \<Rightarrow> js_val) \<Rightarrow> intake_error + order" where
  "parse_order raw =
     sbind (field_addr raw ''owner'' False) (\<lambda>own.
     sbind (field_addr raw ''receiver'' True) (\<lambda>rcv.
     sbind (field_addr raw ''sellToken'' False) (\<lambda>sell.
     sbind (field_addr raw ''buyToken'' True) (\<lambda>buy.
     sbind (field_big raw ''sellAmount'') (\<lambda>amount.
     sbind (field_big raw ''minBuyAmount'') (\<lambda>min_buy.
     sbind (field_big raw ''validTo'') (\<lambda>valid.
     sbind (field_big raw ''nonce'') (\<lambda>n.
       Inr \<lparr>o_owner = own, o_receiver = rcv, o_sell = sell, o_buy = buy, o_amount = amount, o_min = min_buy,
            o_valid = valid, o_nonce = n, o_app = field_app raw\<rparr>))))))))"

text \<open>The chain as intake sees it. \<open>ci_hash\<close> throws (\<open>None\<close>) on a value the type does not hold.\<close>

record intake_chain =
  ci_rpc :: rpc_fn
  ci_hash :: "order \<Rightarrow> string"
  ci_hashable :: "order \<Rightarrow> bool"
  ci_recover :: "order \<Rightarrow> string \<Rightarrow> string option"
  ci_bool :: "string \<Rightarrow> bool option"
  ci_max_valid :: int

definition chk :: "string + 'a \<Rightarrow> intake_error + 'a" where
  "chk x = (case x of Inl e \<Rightarrow> Inl (ChainError e) | Inr a \<Rightarrow> Inr a)"

text \<open>The checks of an order before it is looked up.\<close>

definition intake_fields :: "intake_chain \<Rightarrow> int \<Rightarrow> (string \<Rightarrow> js_val) \<Rightarrow> intake_error + order" where
  "intake_fields ch now raw =
     sbind (parse_order raw) (\<lambda>ord.
     sbind (guard (o_amount ord \<le> 0) AmountNotPositive) (\<lambda>_.
     sbind (guard (as_token (o_sell ord) = as_token (o_buy ord)) SameToken) (\<lambda>_.
     sbind (guard (o_sell ord = zero_address) EtherSell) (\<lambda>_.
     sbind (guard (o_valid ord \<le> now div 1000 + 1) AlreadyExpired) (\<lambda>_.
     sbind (guard (o_valid ord > now div 1000 + ci_max_valid ch) ValidTooLong) (\<lambda>_.
     sbind (guard (\<not> ci_hashable ch ord) (ChainError ''hash'')) (\<lambda>_. Inr ord)))))))"

definition deposited_sig :: "string option \<Rightarrow> bool" where
  "deposited_sig sg = (case sg of None \<Rightarrow> True | Some s \<Rightarrow> s = [] \<or> s = ''0x'')"

text \<open>The funding of a new order: escrow for a deposit, signature and pull otherwise.\<close>

definition intake_funding :: "intake_chain \<Rightarrow> order \<Rightarrow> string option \<Rightarrow> intake_error + order_status" where
  "intake_funding ch ord sg =
     (if deposited_sig sg
      then sbind (chk (escrowed (ci_rpc ch) (ci_hash ch ord))) (\<lambda>esc.
             if esc = 0 then Inr AwaitingDeposit
             else sbind (guard (esc \<noteq> o_amount ord) EscrowMismatch) (\<lambda>_. Inr Pending))
      else sbind (guard (\<not> is_hex 130 (the sg)) BadSignatureLength) (\<lambda>_.
           sbind (if signer (ci_recover ch) ord (the sg) \<noteq> Some (o_owner ord)
                  then sbind (chk (has_code (ci_rpc ch) (o_owner ord))) (\<lambda>code. guard (\<not> code) WrongSigner)
                  else Inr ()) (\<lambda>_.
           sbind (chk (can_pull (ci_rpc ch) (o_owner ord) (o_sell ord) (o_amount ord))) (\<lambda>pull.
           sbind (guard (pull \<noteq> PullOk) (PullFails pull)) (\<lambda>_. Inr Pending)))))"

definition intake ::
  "intake_chain \<Rightarrow> int \<Rightarrow> (string \<Rightarrow> js_val) \<Rightarrow> string option \<Rightarrow> batcher \<Rightarrow> intake_error + batcher \<times> string \<times> order_status" where
  "intake ch now raw sg s =
     sbind (intake_fields ch now raw) (\<lambda>ord.
       let h = ci_hash ch ord in
       case jget (bt_orders s) h of
         Some p \<Rightarrow> Inr (s, h, pd_status p)
       | None \<Rightarrow>
           sbind (chk (nonce_used (ci_rpc ch) (ci_bool ch) (o_owner ord) (o_nonce ord))) (\<lambda>used.
           sbind (guard used NonceUsed) (\<lambda>_.
           sbind (intake_funding ch ord sg) (\<lambda>status.
             let p = \<lparr>pd_order = ord, pd_sig = (if deposited_sig sg then ''0x'' else the sg), pd_hash = h,
                      pd_deposited = deposited_sig sg, pd_received = now, pd_attempts = 0, pd_status = status\<rparr>;
                 st = bt_stats s in
             Inr (s\<lparr>bt_orders := jset h p (bt_orders s), bt_stats := st\<lparr>bs_received := bs_received st + 1\<rparr>\<rparr>, h, status)))))"

section \<open>Changing one order\<close>

definition set_status :: "string \<Rightarrow> order_status \<Rightarrow> batcher \<Rightarrow> batcher" where
  "set_status h st s =
     (case jget (bt_orders s) h of
        None \<Rightarrow> s
      | Some p \<Rightarrow> s\<lparr>bt_orders := jset h (p\<lparr>pd_status := st\<rparr>) (bt_orders s)\<rparr>)"

definition leave_flight :: "string \<Rightarrow> batcher \<Rightarrow> batcher" where
  "leave_flight h s = s\<lparr>bt_in_flight := filter (\<lambda>k. k \<noteq> h) (bt_in_flight s)\<rparr>"

definition count_rejected :: "batcher \<Rightarrow> batcher" where
  "count_rejected s = (let st = bt_stats s in s\<lparr>bt_stats := st\<lparr>bs_rejected := bs_rejected st + 1\<rparr>\<rparr>)"

text \<open>
  A failed attempt: counted against the order, which is rejected at the limit and otherwise keeps its
  status (\<open>retry = None\<close>) or gets the one given.
\<close>

definition fail_attempt :: "nat \<Rightarrow> reject_reason \<Rightarrow> order_status option \<Rightarrow> string \<Rightarrow> batcher \<Rightarrow> batcher" where
  "fail_attempt limit reason retry h s =
     (case jget (bt_orders s) h of
        None \<Rightarrow> s
      | Some p \<Rightarrow>
          let a = pd_attempts p + 1;
              over = (a \<ge> limit);
              st = (if over then RejectedOrder reason else (case retry of None \<Rightarrow> pd_status p | Some x \<Rightarrow> x));
              s1 = s\<lparr>bt_orders := jset h (p\<lparr>pd_attempts := a, pd_status := st\<rparr>) (bt_orders s)\<rparr> in
          leave_flight h (if over then count_rejected s1 else s1))"

section \<open>Settling a pair\<close>

text \<open>\<open>/reset in (\d+) seconds?/i\<close> on a lower-cased message: the number at the first match.\<close>

fun match_reset :: "string \<Rightarrow> int option" where
  "match_reset [] = None"
| "match_reset (c # cs) =
     (let s = c # cs; rest = drop 9 s; ds = takeWhile (digit_ok 10) rest in
      if starts_with ''reset in '' s \<and> ds \<noteq> [] \<and> starts_with '' second'' (drop (length ds) rest)
      then Some (num_val 10 0 ds) else match_reset cs)"

definition send_pause :: "string \<Rightarrow> int" where
  "send_pause msg =
     (let m = lower msg in
      if str_includes ''429'' m \<or> str_includes ''rate limit'' m \<or> str_includes ''too many'' m
      then (case match_reset m of Some n \<Rightarrow> n * 1000 | None \<Rightarrow> 5000) else 2000)"

record pair_io =
  pi_solve :: solve_env
  pi_dry :: "string + int"
  pi_send :: "string + string"
  pi_receipt :: "(bool \<times> int) option"
  pi_now :: int

definition reject_dropped :: "(order \<Rightarrow> string) \<Rightarrow> (order \<times> drop_reason) list \<Rightarrow> batcher \<Rightarrow> batcher" where
  "reject_dropped hsh ds s =
     fold (\<lambda>(ord, r) s. leave_flight (hsh ord) (set_status (hsh ord) (RejectedOrder (DroppedOrder r)) (count_rejected s))) ds s"

definition pair_failed :: "(order \<Rightarrow> string) \<Rightarrow> solve_error \<Rightarrow> order list \<Rightarrow> batcher \<Rightarrow> batcher" where
  "pair_failed hsh e os s =
     fold (\<lambda>ord s. if map_option pd_status (jget (bt_orders s) (hsh ord)) = Some Pending
                   then fail_attempt max_attempts (PairUnsolved e) None (hsh ord) s else s) os s"

definition fail_all :: "(order \<Rightarrow> string) \<Rightarrow> nat \<Rightarrow> reject_reason \<Rightarrow> order_status option \<Rightarrow> order list \<Rightarrow> batcher \<Rightarrow> batcher" where
  "fail_all hsh limit reason retry os s = fold (\<lambda>ord s. fail_attempt limit reason retry (hsh ord) s) os s"

definition fee_of :: "sim_result \<Rightarrow> string \<Rightarrow> int" where
  "fee_of sim t = (case find (\<lambda>(u, _). u = t) (sim_rows sim) of None \<Rightarrow> 0 | Some (_, d, ow) \<Rightarrow> d - ow)"

definition make_record :: "solved \<Rightarrow> string \<Rightarrow> (bool \<times> int) option \<Rightarrow> int \<Rightarrow> batch_record" where
  "make_record so tx rc now =
     (let pb = so_batch so; c = so_clearing so; res = residual pb c;
          fa = fee_of (so_sim so) (pb_a pb); fb = fee_of (so_sim so) (pb_b pb) in
      \<lparr>rec_at = now, rec_tx = tx, rec_a = pb_a pb, rec_b = pb_b pb, rec_orders = length (all_orders pb),
       rec_netted = netted_a pb c, rec_res_a = res_a res, rec_res_b = res_b res,
       rec_fee_token = (if fb \<ge> fa then pb_b pb else pb_a pb), rec_fee = (if fb \<ge> fa then fb else fa),
       rec_gas = map_option snd rc, rec_ok = (map_option fst rc = Some True)\<rparr>)"

definition record_batch :: "batch_record \<Rightarrow> batcher \<Rightarrow> batcher" where
  "record_batch r s = s\<lparr>bt_recent := take 200 (r # bt_recent s)\<rparr>"

definition fill_status :: "solved \<Rightarrow> string \<Rightarrow> order \<Rightarrow> order_status" where
  "fill_status so tx ord =
     (let pb = so_batch so in
      Filled tx (buy_amount ord pb (so_clearing so))
        (if length (all_orders pb) = 1 then Some (if as_token (o_sell ord) = pb_a pb then so_alone_b so else so_alone_a so) else None)
        (\<not> one_sided pb))"

definition fill_all :: "(order \<Rightarrow> string) \<Rightarrow> solved \<Rightarrow> string \<Rightarrow> batcher \<Rightarrow> batcher" where
  "fill_all hsh so tx s =
     fold (\<lambda>ord s. let st = bt_stats s in
             leave_flight (hsh ord) (set_status (hsh ord) (fill_status so tx ord)
               (s\<lparr>bt_stats := st\<lparr>bs_filled := bs_filled st + 1,
                                  bs_netted := bs_netted st + (if one_sided (so_batch so) then 0 else 1)\<rparr>\<rparr>)))
       (all_orders (so_batch so)) s"

text \<open>A rejected \<open>solve\<close> (a division by zero) rejects \<open>settlePair\<close>; the window logs it and goes on.\<close>

definition settle_pair :: "(order \<Rightarrow> string) \<Rightarrow> pair_io \<Rightarrow> pair_batch \<Rightarrow> batcher \<Rightarrow> batcher" where
  "settle_pair hsh io pb s =
     (case solve (pi_solve io) pb of
        SolveThrows \<Rightarrow> s
      | Failed e ds \<Rightarrow> pair_failed hsh e (all_orders pb) (reject_dropped hsh ds s)
      | Solved so \<Rightarrow>
          let s1 = reject_dropped hsh (so_dropped so) s; os = all_orders (so_batch so) in
          (case pi_dry io of
             Inl e \<Rightarrow> fail_all hsh max_attempts (DryRunReverts e) None os s1
           | Inr gas \<Rightarrow>
               (case pi_send io of
                  Inl msg \<Rightarrow> fail_all hsh (max_attempts * 2) (CouldNotSubmit msg) None os (s1\<lparr>bt_paused := pi_now io + send_pause msg\<rparr>)
                | Inr tx \<Rightarrow>
                    let s2 = record_batch (make_record so tx (pi_receipt io) (pi_now io))
                               (fold (\<lambda>ord s. set_status (hsh ord) (Settling tx) s) os s1);
                        st = bt_stats s2 in
                    if map_option fst (pi_receipt io) = Some True
                    then fill_all hsh so tx (s2\<lparr>bt_stats := st\<lparr>bs_batches := bs_batches st + 1\<rparr>\<rparr>)
                    else fail_all hsh max_attempts (if pi_receipt io = None then NotMined else RevertedOnChain) (Some Pending) os
                           (s2\<lparr>bt_stats := st\<lparr>bs_failed := bs_failed st + 1\<rparr>\<rparr>))))"

section \<open>The window\<close>

definition waiting :: "order_status \<Rightarrow> bool" where
  "waiting st = (st = Pending \<or> st = AwaitingDeposit)"

definition expire_order :: "int \<Rightarrow> pending \<Rightarrow> pending" where
  "expire_order secs p = (if waiting (pd_status p) \<and> o_valid (pd_order p) \<le> secs + 1 then p\<lparr>pd_status := Expired\<rparr> else p)"

definition expire_all :: "int \<Rightarrow> batcher \<Rightarrow> batcher" where
  "expire_all secs s =
     (let old = bt_orders s; new = map (\<lambda>(h, p). (h, expire_order secs p)) old; st = bt_stats s;
          n = length (filter (\<lambda>(h, p). waiting (pd_status p) \<and> o_valid (pd_order p) \<le> secs + 1) old) in
      s\<lparr>bt_orders := new, bt_stats := st\<lparr>bs_expired := bs_expired st + n, bs_windows := bs_windows st + 1\<rparr>\<rparr>)"

definition in_state :: "order_status \<Rightarrow> batcher \<Rightarrow> pending list" where
  "in_state st s = filter (\<lambda>p. pd_status p = st \<and> pd_hash p \<notin> set (bt_in_flight s)) (map snd (bt_orders s))"

text \<open>\<open>esc\<close>: the escrow of a hash, a failed read being zero.\<close>

definition fund_deposits :: "(string \<Rightarrow> int) \<Rightarrow> pending list \<Rightarrow> batcher \<Rightarrow> batcher" where
  "fund_deposits esc ps s =
     fold (\<lambda>p s. if esc (pd_hash p) = o_amount (pd_order p) then set_status (pd_hash p) Pending s else s) ps s"

definition finished :: "order_status \<Rightarrow> bool" where
  "finished st = (case st of Pending \<Rightarrow> False | Settling _ \<Rightarrow> False | _ \<Rightarrow> True)"

definition forget_old :: "int \<Rightarrow> batcher \<Rightarrow> batcher" where
  "forget_old now s =
     s\<lparr>bt_orders := filter (\<lambda>(h, p). \<not> (pd_received p < now - 600000 \<and> finished (pd_status p))) (bt_orders s)\<rparr>"

definition release_ready :: "pending list \<Rightarrow> batcher \<Rightarrow> batcher" where
  "release_ready ready s = s\<lparr>bt_in_flight := filter (\<lambda>h. h \<notin> pd_hash ` set ready) (bt_in_flight s)\<rparr>"

record window_io =
  wi_now :: int
  wi_escrow :: "string \<Rightarrow> int"
  wi_pair :: "pair_batch \<Rightarrow> pair_io"
  wi_end :: int

text \<open>The orders a window starts with: the pending ones, then the deposits that have arrived.\<close>

definition window_ready :: "window_io \<Rightarrow> batcher \<Rightarrow> pending list" where
  "window_ready io s = in_state Pending s @ filter (\<lambda>p. wi_escrow io (pd_hash p) = o_amount (pd_order p)) (in_state AwaitingDeposit s)"

definition tick :: "(order \<Rightarrow> string) \<Rightarrow> window_io \<Rightarrow> batcher \<Rightarrow> batcher" where
  "tick hsh io s0 =
     (let s1 = expire_all (wi_now io div 1000) s0;
          ready = window_ready io s1;
          s2 = fund_deposits (wi_escrow io) (in_state AwaitingDeposit s1) s1 in
      if ready = [] \<or> wi_now io < bt_paused s2 then s2
      else let s3 = s2\<lparr>bt_in_flight := bt_in_flight s2 @ map pd_hash ready\<rparr>;
               s4 = fold (\<lambda>pb s. settle_pair hsh (wi_pair io pb) pb s) (group_by_pair (map pd_order ready)) s3 in
           forget_old (wi_end io) (release_ready ready s4))"

section \<open>Runs\<close>

datatype batch_event = OrderPosted int "string \<Rightarrow> js_val" "string option" | WindowTick window_io

fun batch_step :: "intake_chain \<Rightarrow> batch_event \<Rightarrow> batcher \<Rightarrow> batcher" where
  "batch_step ch (OrderPosted now raw sg) s = (case intake ch now raw sg s of Inl _ \<Rightarrow> s | Inr (s', _) \<Rightarrow> s')"
| "batch_step ch (WindowTick io) s = tick (ci_hash ch) io s"

definition new_batcher :: "batch_record option list \<Rightarrow> batcher" where
  "new_batcher lines =
     \<lparr>bt_orders = [], bt_in_flight = [], bt_paused = 0, bt_recent = load_ledger lines,
      bt_stats = \<lparr>bs_received = 0, bs_rejected = 0, bs_filled = 0, bs_expired = 0, bs_batches = 0, bs_failed = 0, bs_netted = 0, bs_windows = 0\<rparr>\<rparr>"

definition batch_run :: "intake_chain \<Rightarrow> batch_event list \<Rightarrow> batcher \<Rightarrow> batcher" where
  "batch_run ch es s = fold (batch_step ch) es s"

section \<open>Intake\<close>

text \<open>
  An order is taken in only if it can be settled: it sells a positive amount of one token for
  another within the allowed time, its nonce is free, and it is either fully escrowed (or waiting for
  the escrow to arrive), or signed by its owner (or owned by a contract) with balance and allowance.
\<close>

theorem intake_accepts_settleable:
  assumes "intake ch now raw sg s = Inr (s', h, st)" and "jget (bt_orders s) h = None"
  shows "\<exists>ord. parse_order raw = Inr ord \<and> h = ci_hash ch ord \<and> 0 < o_amount ord \<and>
    as_token (o_sell ord) \<noteq> as_token (o_buy ord) \<and>
    now div 1000 + 1 < o_valid ord \<and> o_valid ord \<le> now div 1000 + ci_max_valid ch \<and>
    nonce_used (ci_rpc ch) (ci_bool ch) (o_owner ord) (o_nonce ord) = Inr False \<and>
    (if deposited_sig sg
     then escrowed (ci_rpc ch) h = Inr (if st = AwaitingDeposit then 0 else o_amount ord)
     else (signer (ci_recover ch) ord (the sg) = Some (o_owner ord) \<or> has_code (ci_rpc ch) (o_owner ord) = Inr True) \<and>
          can_pull (ci_rpc ch) (o_owner ord) (o_sell ord) (o_amount ord) = Inr PullOk)"
proof -
  have c: "chk x = Inr a \<longleftrightarrow> x = Inr a" for x :: "string + 'b" and a by (simp add: chk_def split: sum.splits)
  from assms(1) obtain ord where f: "intake_fields ch now raw = Inr ord" "h = ci_hash ch ord"
    by (auto simp: intake_def sbind_Inr Let_def split: option.splits)
  with assms have g: "nonce_used (ci_rpc ch) (ci_bool ch) (o_owner ord) (o_nonce ord) = Inr False" "intake_funding ch ord sg = Inr st"
    by (auto simp: intake_def sbind_Inr Let_def c split: option.splits)
  from f(1) have "parse_order raw = Inr ord" "0 < o_amount ord" "as_token (o_sell ord) \<noteq> as_token (o_buy ord)"
    "now div 1000 + 1 < o_valid ord" "o_valid ord \<le> now div 1000 + ci_max_valid ch"
    by (auto simp: intake_fields_def sbind_Inr)
  moreover from g(2) have "if deposited_sig sg
     then escrowed (ci_rpc ch) h = Inr (if st = AwaitingDeposit then 0 else o_amount ord)
     else (signer (ci_recover ch) ord (the sg) = Some (o_owner ord) \<or> has_code (ci_rpc ch) (o_owner ord) = Inr True) \<and>
          can_pull (ci_rpc ch) (o_owner ord) (o_sell ord) (o_amount ord) = Inr PullOk"
    using f(2) by (auto simp: intake_funding_def sbind_Inr c split: if_splits)
  ultimately show ?thesis using f(2) g(1) by blast
qed

definition demo_raw :: "string \<Rightarrow> js_val" where
  "demo_raw k =
     (if k = ''owner'' then JStr (''0x'' @ replicate 40 CHR ''1'') else if k = ''sellToken'' then JStr (''0x'' @ replicate 40 CHR ''A'')
      else if k = ''sellAmount'' then JStr ''1000'' else if k = ''minBuyAmount'' then JStr ''980000''
      else if k = ''validTo'' then JInt 160 else if k = ''nonce'' then JStr ''0x7'' else JUndef)"

definition demo_ord :: order where
  "demo_ord = \<lparr>o_owner = ''0x'' @ replicate 40 CHR ''1'', o_receiver = zero_address, o_sell = ''0x'' @ replicate 40 CHR ''a'',
     o_buy = zero_address, o_amount = 1000, o_min = 980000, o_valid = 160, o_nonce = 7, o_app = ''0x'' @ replicate 64 CHR ''0''\<rparr>"

definition demo_ichain :: intake_chain where
  "demo_ichain = \<lparr>ci_rpc = \<lambda>c. (case c of CallNonceUsed _ _ \<Rightarrow> Inr ''0x0'' | _ \<Rightarrow> Inr ''0xffff''), ci_hash = \<lambda>ord. to_str (o_nonce ord),
     ci_hashable = \<lambda>_. True, ci_recover = \<lambda>ord _. Some (o_owner ord), ci_bool = \<lambda>r. Some (r \<noteq> ''0x0''), ci_max_valid = 600\<rparr>"

definition demo_sig :: "string option" where
  "demo_sig = Some (''0x'' @ replicate 130 CHR ''5'')"

lemma demo_intake:
  "intake demo_ichain 100000 demo_raw demo_sig (new_batcher []) =
     Inr ((new_batcher [])\<lparr>bt_orders := [(''7'', \<lparr>pd_order = demo_ord, pd_sig = the demo_sig, pd_hash = ''7'', pd_deposited = False,
             pd_received = 100000, pd_attempts = 0, pd_status = Pending\<rparr>)],
            bt_stats := (bt_stats (new_batcher []))\<lparr>bs_received := 1\<rparr>\<rparr>, ''7'', Pending)"
  by code_simp

theorem intake_accepts_settleable_witness:
  "\<exists>ord. parse_order demo_raw = Inr ord \<and> 0 < o_amount ord \<and>
     can_pull (ci_rpc demo_ichain) (o_owner ord) (o_sell ord) (o_amount ord) = Inr PullOk"
proof -
  have "\<not> deposited_sig demo_sig" by (simp add: deposited_sig_def demo_sig_def)
  moreover have "jget (bt_orders (new_batcher [])) ''7'' = None" by (simp add: new_batcher_def)
  ultimately show ?thesis using intake_accepts_settleable [OF demo_intake] by auto
qed

end
