(* ===== verification/BatchRuns.thy ===== *)
theory BatchRuns
  imports Batcher
begin

text \<open>
  Safety of the batcher over all runs: the states of orders, the bound on attempts and the table of
  orders in flight.
\<close>

section \<open>One order at a time\<close>

definition mark_failed :: "nat \<Rightarrow> reject_reason \<Rightarrow> order_status option \<Rightarrow> pending \<Rightarrow> pending" where
  "mark_failed limit reason retry p =
     p\<lparr>pd_attempts := pd_attempts p + 1,
       pd_status := (if pd_attempts p + 1 \<ge> limit then RejectedOrder reason else (case retry of None \<Rightarrow> pd_status p | Some x \<Rightarrow> x))\<rparr>"

lemma jget_set_status:
  "jget (bt_orders (set_status k st s)) h =
     (if h = k then map_option (\<lambda>p. p\<lparr>pd_status := st\<rparr>) (jget (bt_orders s) h) else jget (bt_orders s) h)"
  by (auto simp: set_status_def split: option.splits)

lemma orders_other [simp]:
  "bt_orders (leave_flight k s) = bt_orders s" "bt_orders (count_rejected s) = bt_orders s"
  "bt_orders (record_batch r s) = bt_orders s" "bt_orders (release_ready ps s) = bt_orders s"
  by (simp_all add: leave_flight_def count_rejected_def record_batch_def release_ready_def Let_def)

lemma jget_fail_attempt:
  "jget (bt_orders (fail_attempt limit reason retry k s)) h =
     (if h = k then map_option (mark_failed limit reason retry) (jget (bt_orders s) h) else jget (bt_orders s) h)"
  by (auto simp: fail_attempt_def mark_failed_def Let_def split: option.splits)

lemma jwf_steps:
  "jwf (bt_orders s) \<Longrightarrow> jwf (bt_orders (set_status k st s))"
  "jwf (bt_orders s) \<Longrightarrow> jwf (bt_orders (fail_attempt limit reason retry k s))"
  by (auto simp: set_status_def fail_attempt_def Let_def split: option.splits)

lemma flight_steps:
  "set (bt_in_flight (set_status k st s)) \<subseteq> set (bt_in_flight s)"
  "set (bt_in_flight (leave_flight k s)) \<subseteq> set (bt_in_flight s)"
  "set (bt_in_flight (fail_attempt limit reason retry k s)) \<subseteq> set (bt_in_flight s)"
  "bt_in_flight (count_rejected s) = bt_in_flight s"
  by (auto simp: set_status_def leave_flight_def fail_attempt_def count_rejected_def Let_def split: option.splits)

text \<open>
  A step that changes the order of one hash only, keeps the table's keys distinct and adds nothing to
  what is in flight; and the fold of such steps over orders of distinct hashes.
\<close>

definition local_step :: "('x \<Rightarrow> string) \<Rightarrow> ('x \<Rightarrow> batcher \<Rightarrow> batcher) \<Rightarrow> ('x \<Rightarrow> pending \<Rightarrow> pending) \<Rightarrow> bool" where
  "local_step hsh g F \<longleftrightarrow>
     (\<forall>ord s. (\<forall>h. jget (bt_orders (g ord s)) h =
        (if h = hsh ord then map_option (F ord) (jget (bt_orders s) h) else jget (bt_orders s) h)) \<and>
      (jwf (bt_orders s) \<longrightarrow> jwf (bt_orders (g ord s))) \<and> set (bt_in_flight (g ord s)) \<subseteq> set (bt_in_flight s))"

lemma local_fold:
  assumes "local_step hsh g F"
  shows "jwf (bt_orders s) \<Longrightarrow> jwf (bt_orders (fold g os s))"
    and "set (bt_in_flight (fold g os s)) \<subseteq> set (bt_in_flight s)"
    and "distinct (map hsh os) \<Longrightarrow> ord \<in> set os \<Longrightarrow>
           jget (bt_orders (fold g os s)) (hsh ord) = map_option (F ord) (jget (bt_orders s) (hsh ord))"
    and "h \<notin> hsh ` set os \<Longrightarrow> jget (bt_orders (fold g os s)) h = jget (bt_orders s) h"
proof -
  have st: "jget (bt_orders (g x t)) h = (if h = hsh x then map_option (F x) (jget (bt_orders t) h) else jget (bt_orders t) h)"
    "jwf (bt_orders t) \<Longrightarrow> jwf (bt_orders (g x t))" "set (bt_in_flight (g x t)) \<subseteq> set (bt_in_flight t)" for x t h
    using assms by (simp_all add: local_step_def)
  show "jwf (bt_orders s) \<Longrightarrow> jwf (bt_orders (fold g os s))"
    by (induction os arbitrary: s) (auto simp: st)
  show "set (bt_in_flight (fold g os s)) \<subseteq> set (bt_in_flight s)"
  proof (induction os arbitrary: s)
    case (Cons x os)
    from Cons [of "g x s"] st(3) [of x s] show ?case by auto
  qed simp
  have other: "h \<notin> hsh ` set os \<Longrightarrow> jget (bt_orders (fold g os s)) h = jget (bt_orders s) h" for h s
    by (induction os arbitrary: s) (auto simp: st)
  then show "h \<notin> hsh ` set os \<Longrightarrow> jget (bt_orders (fold g os s)) h = jget (bt_orders s) h" .
  show "distinct (map hsh os) \<Longrightarrow> ord \<in> set os \<Longrightarrow>
      jget (bt_orders (fold g os s)) (hsh ord) = map_option (F ord) (jget (bt_orders s) (hsh ord))"
  proof (induction os arbitrary: s)
    case (Cons x os)
    show ?case
    proof (cases "ord = x")
      case True
      have "hsh x \<notin> hsh ` set os" using Cons.prems(1) by simp
      then have "jget (bt_orders (fold g os (g x s))) (hsh x) = jget (bt_orders (g x s)) (hsh x)"
      proof (induction os arbitrary: s rule: rev_induct)
        case (snoc y ys)
        then show ?case by (simp add: st)
      qed simp
      with True show ?thesis by (simp add: st)
    next
      case False
      with Cons.prems have o: "ord \<in> set os" "hsh x \<notin> hsh ` set os" by auto
      then have "hsh ord \<noteq> hsh x" by (metis imageI)
      with o
      Cons show ?thesis by (simp add: st)
    qed
  qed simp
qed

lemma local_fail: "local_step hsh (\<lambda>ord s. fail_attempt limit reason retry (hsh ord) s) (\<lambda>_. mark_failed limit reason retry)"
  using flight_steps(3) by (auto simp: local_step_def jget_fail_attempt jwf_steps)

lemma local_settling: "local_step hsh (\<lambda>ord s. set_status (hsh ord) (st ord) s) (\<lambda>ord p. p\<lparr>pd_status := st ord\<rparr>)"
  using flight_steps(1) by (auto simp: local_step_def jget_set_status jwf_steps)

lemma local_pair_failed:
  "local_step hsh
     (\<lambda>ord s. if map_option pd_status (jget (bt_orders s) (hsh ord)) = Some Pending
              then fail_attempt max_attempts (PairUnsolved e) None (hsh ord) s else s)
     (\<lambda>_ p. if pd_status p = Pending then mark_failed max_attempts (PairUnsolved e) None p else p)"
  unfolding local_step_def
proof (intro allI conjI impI)
  fix ord and s :: batcher and h
  let ?r = "if map_option pd_status (jget (bt_orders s) (hsh ord)) = Some Pending
     then fail_attempt max_attempts (PairUnsolved e) None (hsh ord) s else s"
  show "jget (bt_orders ?r) h =
      (if h = hsh ord then map_option (\<lambda>p. if pd_status p = Pending then mark_failed max_attempts (PairUnsolved e) None p else p) (jget (bt_orders s) h)
       else jget (bt_orders s) h)"
    by (cases "jget (bt_orders s) (hsh ord)") (auto simp: jget_fail_attempt)
  show "jwf (bt_orders s) \<Longrightarrow> jwf (bt_orders ?r)" by (simp add: jwf_steps)
  show "set (bt_in_flight ?r) \<subseteq> set (bt_in_flight s)" by (simp add: flight_steps)
qed

lemma local_fill:
  "local_step hsh
     (\<lambda>ord s. let st = bt_stats s in leave_flight (hsh ord) (set_status (hsh ord) (fs ord)
        (s\<lparr>bt_stats := st\<lparr>bs_filled := bs_filled st + 1, bs_netted := bs_netted st + k\<rparr>\<rparr>)))
     (\<lambda>ord p. p\<lparr>pd_status := fs ord\<rparr>)"
  unfolding local_step_def
proof (intro allI conjI impI)
  fix ord and s :: batcher and h
  let ?s = "s\<lparr>bt_stats := (bt_stats s)\<lparr>bs_filled := bs_filled (bt_stats s) + 1, bs_netted := bs_netted (bt_stats s) + k\<rparr>\<rparr>"
  let ?r = "leave_flight (hsh ord) (set_status (hsh ord) (fs ord) ?s)"
  show "jget (bt_orders (let st = bt_stats s in leave_flight (hsh ord) (set_status (hsh ord) (fs ord)
        (s\<lparr>bt_stats := st\<lparr>bs_filled := bs_filled st + 1, bs_netted := bs_netted st + k\<rparr>\<rparr>)))) h =
      (if h = hsh ord then map_option (\<lambda>p. p\<lparr>pd_status := fs ord\<rparr>) (jget (bt_orders s) h) else jget (bt_orders s) h)"
    by (simp add: Let_def jget_set_status)
  show "jwf (bt_orders s) \<Longrightarrow> jwf (bt_orders (let st = bt_stats s in leave_flight (hsh ord) (set_status (hsh ord) (fs ord)
        (s\<lparr>bt_stats := st\<lparr>bs_filled := bs_filled st + 1, bs_netted := bs_netted st + k\<rparr>\<rparr>))))"
    using jwf_steps(1) [of ?s] by (simp add: Let_def)
  have "set (bt_in_flight ?r) \<subseteq> set (bt_in_flight ?s)" using flight_steps(1,2) by (meson order_trans)
  then show "set (bt_in_flight (let st = bt_stats s in leave_flight (hsh ord) (set_status (hsh ord) (fs ord)
        (s\<lparr>bt_stats := st\<lparr>bs_filled := bs_filled st + 1, bs_netted := bs_netted st + k\<rparr>\<rparr>)))) \<subseteq> set (bt_in_flight s)"
    by (simp add: Let_def)
qed

lemma local_dropped:
  "local_step (\<lambda>d. hsh (fst d))
     (\<lambda>(ord, r) s. leave_flight (hsh ord) (set_status (hsh ord) (RejectedOrder (DroppedOrder r)) (count_rejected s)))
     (\<lambda>d p. p\<lparr>pd_status := RejectedOrder (DroppedOrder (snd d))\<rparr>)"
proof -
  have "set (bt_in_flight (leave_flight k (set_status k st (count_rejected s)))) \<subseteq> set (bt_in_flight s)" for k st s
    using flight_steps(1,2,4) by (metis order_trans)
  then show ?thesis by (auto simp: local_step_def jget_set_status jwf_steps)
qed

section \<open>The state of the orders\<close>

text \<open>
  A filled order got at least its limit; an order that is still open has had fewer than six attempts.
\<close>

definition status_ok :: "pending \<Rightarrow> bool" where
  "status_ok p =
     (case pd_status p of
        Filled tx b alone netted \<Rightarrow> o_min (pd_order p) \<le> b
      | RejectedOrder r \<Rightarrow> True
      | Expired \<Rightarrow> True
      | _ \<Rightarrow> pd_attempts p < 6)"

definition orders_inv :: "(order \<Rightarrow> string) \<Rightarrow> batcher \<Rightarrow> bool" where
  "orders_inv hsh s \<longleftrightarrow> jwf (bt_orders s) \<and>
     (\<forall>h p. jget (bt_orders s) h = Some p \<longrightarrow> pd_hash p = h \<and> hsh (pd_order p) = h \<and> status_ok p)"

text \<open>The orders of a batch are stored under their hashes, pending and distinct.\<close>

definition batch_stored :: "(order \<Rightarrow> string) \<Rightarrow> order list \<Rightarrow> batcher \<Rightarrow> bool" where
  "batch_stored hsh os s \<longleftrightarrow> distinct (map hsh os) \<and>
     (\<forall>ord \<in> set os. \<exists>p. jget (bt_orders s) (hsh ord) = Some p \<and> pd_order p = ord \<and> pd_status p = Pending)"

text \<open>A local step whose effect is right on every order of the batch keeps the invariant.\<close>

lemma fold_inv:
  assumes "local_step key g F" "orders_inv hsh s" "distinct (map key xs)"
    and "\<And>x p. x \<in> set xs \<Longrightarrow> jget (bt_orders s) (key x) = Some p \<Longrightarrow>
           pd_order (F x p) = pd_order p \<and> pd_hash (F x p) = pd_hash p \<and> status_ok (F x p)"
  shows "orders_inv hsh (fold g xs s)"
proof -
  note f = local_fold [OF assms(1)]
  have "pd_hash p = h \<and> hsh (pd_order p) = h \<and> status_ok p" if "jget (bt_orders (fold g xs s)) h = Some p" for h p
  proof (cases "h \<in> key ` set xs")
    case False
    with that assms(2) show ?thesis by (simp add: f(4) orders_inv_def)
  next
    case True
    then obtain x where x: "x \<in> set xs" "h = key x" by auto
    with that f(3) [OF assms(3) x(1), of s] obtain q where q: "jget (bt_orders s) h = Some q" "p = F x q" by auto
    then have "pd_hash q = h \<and> hsh (pd_order q) = h" using assms(2) by (simp add: orders_inv_def)
    with assms(4) [OF x(1), of q] q x(2) show ?thesis by simp
  qed
  moreover have "jwf (bt_orders (fold g xs s))" using f(1) assms(2) by (simp add: orders_inv_def)
  ultimately show ?thesis by (simp add: orders_inv_def)
qed

lemma fold_stored:
  assumes "local_step key g F" "batch_stored hsh os s" "hsh ` set os \<inter> key ` set xs = {}"
  shows "batch_stored hsh os (fold g xs s)"
proof -
  have "jget (bt_orders (fold g xs s)) (hsh ord) = jget (bt_orders s) (hsh ord)" if "ord \<in> set os" for ord
    using local_fold(4) [OF assms(1), of "hsh ord" xs s] assms(3) that by auto
  with assms(2) show ?thesis by (simp add: batch_stored_def)
qed

definition open_status :: "order_status \<Rightarrow> bool" where
  "open_status st = (case st of Pending \<Rightarrow> True | Settling _ \<Rightarrow> True | _ \<Rightarrow> False)"

lemma mark_failed_ok:
  assumes "limit \<le> 6" "retry = None \<or> retry = Some Pending" "open_status (pd_status p)"
  shows "pd_order (mark_failed limit r retry p) = pd_order p \<and> pd_hash (mark_failed limit r retry p) = pd_hash p \<and>
    status_ok (mark_failed limit r retry p)"
  using assms by (auto simp: mark_failed_def status_ok_def open_status_def split: order_status.splits)

lemma fail_all_inv:
  assumes "orders_inv hsh s" "distinct (map hsh os)" "limit \<le> 6" "retry = None \<or> retry = Some Pending"
    and "\<forall>ord \<in> set os. \<forall>p. jget (bt_orders s) (hsh ord) = Some p \<longrightarrow> open_status (pd_status p)"
  shows "orders_inv hsh (fail_all hsh limit reason retry os s)"
  unfolding fail_all_def
proof (rule fold_inv [OF local_fail assms(1,2)])
  fix x p assume "x \<in> set os" "jget (bt_orders s) (hsh x) = Some p"
  then show "pd_order (mark_failed limit reason retry p) = pd_order p \<and> pd_hash (mark_failed limit reason retry p) = pd_hash p \<and>
      status_ok (mark_failed limit reason retry p)"
    using assms(3-5) by (intro mark_failed_ok) auto
qed

lemma stored_open: "batch_stored hsh os s \<Longrightarrow> \<forall>ord \<in> set os. \<forall>p. jget (bt_orders s) (hsh ord) = Some p \<longrightarrow> open_status (pd_status p)"
  by (auto simp: batch_stored_def open_status_def)

lemma pair_failed_inv:
  assumes "orders_inv hsh s" "distinct (map hsh os)"
  shows "orders_inv hsh (pair_failed hsh e os s)"
  unfolding pair_failed_def
proof (rule fold_inv [OF local_pair_failed assms(1,2)])
  fix x p assume "jget (bt_orders s) (hsh x) = Some p"
  then have "status_ok p" using assms(1) by (simp add: orders_inv_def)
  moreover have "pd_status p = Pending \<Longrightarrow> status_ok (mark_failed max_attempts (PairUnsolved e) None p)"
    "pd_order (mark_failed max_attempts (PairUnsolved e) None p) = pd_order p"
    "pd_hash (mark_failed max_attempts (PairUnsolved e) None p) = pd_hash p"
    by (simp_all add: mark_failed_def status_ok_def max_attempts_def)
  ultimately show "pd_order (if pd_status p = Pending then mark_failed max_attempts (PairUnsolved e) None p else p) = pd_order p \<and>
      pd_hash (if pd_status p = Pending then mark_failed max_attempts (PairUnsolved e) None p else p) = pd_hash p \<and>
      status_ok (if pd_status p = Pending then mark_failed max_attempts (PairUnsolved e) None p else p)"
    by simp
qed

lemma reject_dropped_inv:
  assumes "orders_inv hsh s" "distinct (map (\<lambda>d. hsh (fst d)) ds)"
  shows "orders_inv hsh (reject_dropped hsh ds s)"
  unfolding reject_dropped_def
  by (rule fold_inv [OF local_dropped assms]) (simp add: status_ok_def)

lemma inv_fields:
  "bt_orders s' = bt_orders s \<Longrightarrow> orders_inv hsh s' = orders_inv hsh s"
  "bt_orders s' = bt_orders s \<Longrightarrow> batch_stored hsh os s' = batch_stored hsh os s"
  by (simp_all add: orders_inv_def batch_stored_def)

text \<open>What is kept of a batch is stored and pending after the dropped orders were rejected.\<close>

lemma kept_stored:
  assumes "batch_stored hsh os s" "mset kept + mset (map fst ds) = mset os"
  shows "distinct (map (\<lambda>d. hsh (fst d)) ds)" "distinct (map hsh kept)" "batch_stored hsh kept (reject_dropped hsh ds s)"
proof -
  have "mset (map hsh (kept @ map fst ds)) = mset (map hsh os)" using assms(2) by (metis mset_append mset_map)
  then have "distinct (map hsh (kept @ map fst ds))" using assms(1) by (metis batch_stored_def mset_eq_imp_distinct_iff)
  then have d: "distinct (map (\<lambda>d. hsh (fst d)) ds)" "distinct (map hsh kept)"
    and disj: "hsh ` set kept \<inter> (\<lambda>d. hsh (fst d)) ` set ds = {}"
    by (auto simp: comp_def image_image)
  from d show "distinct (map (\<lambda>d. hsh (fst d)) ds)" "distinct (map hsh kept)" .
  have "set kept \<subseteq> set os" using assms(2) by (metis mset_subset_eq_add_left set_mset_mono set_mset_mset)
  then have "batch_stored hsh kept s" using assms(1) d(2) by (auto simp: batch_stored_def)
  then show "batch_stored hsh kept (reject_dropped hsh ds s)"
    unfolding reject_dropped_def by (rule fold_stored [OF local_dropped _ disj])
qed

lemma solve_result_cases:
  "solve env pb = Solved so \<Longrightarrow>
     mset (all_orders (so_batch so)) + mset (map fst (so_dropped so)) = mset (all_orders pb) \<and>
     list_all (\<lambda>ord. o_min ord \<le> buy_amount ord (so_batch so) (so_clearing so)) (all_orders (so_batch so))"
  using solve_solution_ok [of env pb so] by (simp add: solution_ok_def)

section \<open>One pair\<close>

lemma orders_invD: "orders_inv hsh s \<Longrightarrow> jget (bt_orders s) h = Some p \<Longrightarrow> pd_hash p = h \<and> hsh (pd_order p) = h \<and> status_ok p"
  by (simp add: orders_inv_def)

lemma storedD:
  "batch_stored hsh os s \<Longrightarrow> ord \<in> set os \<Longrightarrow> jget (bt_orders s) (hsh ord) = Some p \<Longrightarrow> pd_order p = ord \<and> pd_status p = Pending"
  unfolding batch_stored_def by fastforce

lemma settling_inv:
  assumes "orders_inv hsh s" "batch_stored hsh os s"
  shows "orders_inv hsh (fold (\<lambda>ord s. set_status (hsh ord) (Settling tx) s) os s)"
    and "\<forall>ord \<in> set os. \<forall>p. jget (bt_orders (fold (\<lambda>ord s. set_status (hsh ord) (Settling tx) s) os s)) (hsh ord) = Some p \<longrightarrow> pd_order p = ord \<and> open_status (pd_status p)"
proof -
  have d: "distinct (map hsh os)" using assms(2) by (simp add: batch_stored_def)
  show "orders_inv hsh (fold (\<lambda>ord s. set_status (hsh ord) (Settling tx) s) os s)"
  proof (rule fold_inv [OF local_settling assms(1) d])
    fix x p assume "x \<in> set os" "jget (bt_orders s) (hsh x) = Some p"
    then have "pd_status p = Pending" "status_ok p" using storedD [OF assms(2)] orders_invD [OF assms(1)] by blast+
    then show "pd_order (p\<lparr>pd_status := Settling tx\<rparr>) = pd_order p \<and> pd_hash (p\<lparr>pd_status := Settling tx\<rparr>) = pd_hash p \<and>
        status_ok (p\<lparr>pd_status := Settling tx\<rparr>)"
      by (simp add: status_ok_def)
  qed
  show "\<forall>ord \<in> set os. \<forall>p. jget (bt_orders (fold (\<lambda>ord s. set_status (hsh ord) (Settling tx) s) os s)) (hsh ord) = Some p \<longrightarrow> pd_order p = ord \<and> open_status (pd_status p)"
  proof (intro ballI allI impI)
    fix ord p
    assume o: "ord \<in> set os" and p: "jget (bt_orders (fold (\<lambda>ord s. set_status (hsh ord) (Settling tx) s) os s)) (hsh ord) = Some p"
    from p local_fold(3) [OF local_settling d o, of "\<lambda>_. Settling tx" s]
    obtain q where q: "jget (bt_orders s) (hsh ord) = Some q" "p = q\<lparr>pd_status := Settling tx\<rparr>" by auto
    from storedD [OF assms(2) o q(1)] q(2) show "pd_order p = ord \<and> open_status (pd_status p)"
      by (simp add: open_status_def)
  qed
qed

lemma fill_all_inv:
  assumes "orders_inv hsh s" "distinct (map hsh (all_orders (so_batch so)))"
    and "\<forall>ord \<in> set (all_orders (so_batch so)). \<forall>p. jget (bt_orders s) (hsh ord) = Some p \<longrightarrow> pd_order p = ord"
    and "list_all (\<lambda>ord. o_min ord \<le> buy_amount ord (so_batch so) (so_clearing so)) (all_orders (so_batch so))"
  shows "orders_inv hsh (fill_all hsh so tx s)"
  unfolding fill_all_def
proof (rule fold_inv [OF local_fill assms(1,2)])
  fix x p assume x: "x \<in> set (all_orders (so_batch so))" "jget (bt_orders s) (hsh x) = Some p"
  have "pd_order p = x" using assms(3) x by blast
  moreover have "o_min x \<le> buy_amount x (so_batch so) (so_clearing so)" using assms(4) x(1) by (simp add: list_all_iff)
  ultimately show "pd_order (p\<lparr>pd_status := fill_status so tx x\<rparr>) = pd_order p \<and> pd_hash (p\<lparr>pd_status := fill_status so tx x\<rparr>) = pd_hash p \<and>
      status_ok (p\<lparr>pd_status := fill_status so tx x\<rparr>)"
    by (simp add: status_ok_def fill_status_def Let_def)
qed

lemma settle_pair_inv:
  assumes "orders_inv hsh s" "batch_stored hsh (all_orders pb) s"
  shows "orders_inv hsh (settle_pair hsh io pb s)"
proof (cases "solve (pi_solve io) pb")
  case SolveThrows
  with assms(1) show ?thesis by (simp add: settle_pair_def)
next
  case (Failed e ds)
  have d: "distinct (map hsh (all_orders pb))" using assms(2) by (simp add: batch_stored_def)
  have "\<exists>kept. mset kept + mset (map fst ds) = mset (all_orders pb)"
    using solve_failed_partition [OF Failed] .
  then obtain kept where "mset kept + mset (map fst ds) = mset (all_orders pb)" ..
  from kept_stored(1) [OF assms(2) this] have "orders_inv hsh (reject_dropped hsh ds s)"
    by (rule reject_dropped_inv [OF assms(1)])
  with d Failed show ?thesis by (simp add: settle_pair_def pair_failed_inv)
next
  case (Solved so)
  let ?os = "all_orders (so_batch so)"
  note sr = solve_result_cases [OF Solved]
  note ks = kept_stored [OF assms(2) conjunct1 [OF sr]]
  define s1 where "s1 = reject_dropped hsh (so_dropped so) s"
  have s1: "orders_inv hsh s1" "batch_stored hsh ?os s1"
    unfolding s1_def using reject_dropped_inv [OF assms(1) ks(1)] ks(3) by simp_all
  note st = settling_inv [OF s1]
  have ma: "max_attempts \<le> 6" "max_attempts * 2 \<le> 6" by (simp_all add: max_attempts_def)
  have fa: "orders_inv hsh (fail_all hsh l r None ?os t)" if "l \<le> 6" "bt_orders t = bt_orders s1" for l r t
  proof (rule fail_all_inv [OF _ ks(2) that(1)])
    show "orders_inv hsh t" using s1(1) inv_fields(1) [OF that(2)] by simp
    show "\<forall>ord \<in> set ?os. \<forall>p. jget (bt_orders t) (hsh ord) = Some p \<longrightarrow> open_status (pd_status p)"
      using stored_open [OF s1(2)] that(2) by simp
  qed simp
  have ff: "orders_inv hsh (fail_all hsh max_attempts r (Some Pending) ?os t) \<and> orders_inv hsh (fill_all hsh so tx' t)"
    if t: "bt_orders t = bt_orders (fold (\<lambda>ord s. set_status (hsh ord) (Settling tx) s) ?os s1)" for r tx tx' t
  proof
    have i: "orders_inv hsh t" using st(1) inv_fields(1) [OF t] by simp
    show "orders_inv hsh (fail_all hsh max_attempts r (Some Pending) ?os t)"
      using st(2) [of tx] t by (intro fail_all_inv [OF i ks(2) ma(1)]) simp_all
    show "orders_inv hsh (fill_all hsh so tx' t)"
      using st(2) [of tx] t sr by (intro fill_all_inv [OF i ks(2)]) simp_all
  qed
  show ?thesis
  proof (cases "pi_dry io")
    case (Inl e)
    then show ?thesis by (simp add: settle_pair_def Solved Let_def s1_def [symmetric] fa ma)
  next
    case dry: (Inr g)
    show ?thesis
    proof (cases "pi_send io")
      case (Inl e)
      then show ?thesis by (simp add: settle_pair_def Solved dry Let_def s1_def [symmetric] fa ma)
    next
      case (Inr tx)
      let ?s2 = "record_batch (make_record so tx (pi_receipt io) (pi_now io)) (fold (\<lambda>ord s. set_status (hsh ord) (Settling tx) s) ?os s1)"
      have "settle_pair hsh io pb s =
        (if map_option fst (pi_receipt io) = Some True
         then fill_all hsh so tx (?s2\<lparr>bt_stats := (bt_stats ?s2)\<lparr>bs_batches := bs_batches (bt_stats ?s2) + 1\<rparr>\<rparr>)
         else fail_all hsh max_attempts (if pi_receipt io = None then NotMined else RevertedOnChain) (Some Pending) ?os
                (?s2\<lparr>bt_stats := (bt_stats ?s2)\<lparr>bs_failed := bs_failed (bt_stats ?s2) + 1\<rparr>\<rparr>))"
        unfolding settle_pair_def Solved solve_result.case dry Inr sum.case Let_def s1_def [symmetric] by (rule refl)
      then show ?thesis
        using ff [of "?s2\<lparr>bt_stats := (bt_stats ?s2)\<lparr>bs_batches := bs_batches (bt_stats ?s2) + 1\<rparr>\<rparr>" tx]
          ff [of "?s2\<lparr>bt_stats := (bt_stats ?s2)\<lparr>bs_failed := bs_failed (bt_stats ?s2) + 1\<rparr>\<rparr>" tx]
        by (simp split: if_split)
    qed
  qed
qed

lemma settle_pair_frame:
  assumes "batch_stored hsh (all_orders pb) s"
  shows "h \<notin> hsh ` set (all_orders pb) \<Longrightarrow> jget (bt_orders (settle_pair hsh io pb s)) h = jget (bt_orders s) h"
    and "set (bt_in_flight (settle_pair hsh io pb s)) \<subseteq> set (bt_in_flight s)"
proof -
  have sub: "set (map fst ds) \<subseteq> set (all_orders pb) \<and> set kept \<subseteq> set (all_orders pb)"
    if "mset kept + mset (map fst ds) = mset (all_orders pb)" for kept ds
    using that by (metis mset_subset_eq_add_left mset_subset_eq_add_right set_mset_mono set_mset_mset)
  have img: "hsh ` set (map fst ds) = (\<lambda>d. hsh (fst d)) ` set ds" for ds :: "(order \<times> drop_reason) list"
    by (simp add: image_image)
  have rd: "h \<notin> hsh ` set (map fst ds) \<Longrightarrow> jget (bt_orders (reject_dropped hsh ds s)) h = jget (bt_orders s) h"
    "set (bt_in_flight (reject_dropped hsh ds s)) \<subseteq> set (bt_in_flight s)" for ds h
    unfolding reject_dropped_def img using local_fold(2,4) [OF local_dropped] by blast+
  have fl: "h \<notin> hsh ` set os \<Longrightarrow> jget (bt_orders (fail_all hsh l r q os t)) h = jget (bt_orders t) h"
    "set (bt_in_flight (fail_all hsh l r q os t)) \<subseteq> set (bt_in_flight t)" for h os l r q t
    unfolding fail_all_def using local_fold(2,4) [OF local_fail] by blast+
  have pf: "h \<notin> hsh ` set os \<Longrightarrow> jget (bt_orders (pair_failed hsh e os t)) h = jget (bt_orders t) h"
    "set (bt_in_flight (pair_failed hsh e os t)) \<subseteq> set (bt_in_flight t)" for h os e t
    unfolding pair_failed_def using local_fold(2,4) [OF local_pair_failed] by blast+
  have fi: "h \<notin> hsh ` set (all_orders (so_batch so)) \<Longrightarrow> jget (bt_orders (fill_all hsh so tx t)) h = jget (bt_orders t) h"
    "set (bt_in_flight (fill_all hsh so tx t)) \<subseteq> set (bt_in_flight t)" for h so tx t
    unfolding fill_all_def using local_fold(2,4) [OF local_fill] by blast+
  have se: "h \<notin> hsh ` set os \<Longrightarrow> jget (bt_orders (fold (\<lambda>ord s. set_status (hsh ord) (Settling tx) s) os t)) h = jget (bt_orders t) h"
    "set (bt_in_flight (fold (\<lambda>ord s. set_status (hsh ord) (Settling tx) s) os t)) \<subseteq> set (bt_in_flight t)" for h os tx t
    using local_fold(2,4) [OF local_settling [where st = "\<lambda>_. Settling tx"]] by blast+
  have flight [simp]: "bt_in_flight (record_batch r t) = bt_in_flight t" for r t by (simp add: record_batch_def)
  show "jget (bt_orders (settle_pair hsh io pb s)) h = jget (bt_orders s) h" if h: "h \<notin> hsh ` set (all_orders pb)"
  proof (cases "solve (pi_solve io) pb")
    case (Failed e ds)
    then obtain kept where "mset kept + mset (map fst ds) = mset (all_orders pb)" using solve_failed_partition by blast
    then have "h \<notin> hsh ` set (map fst ds)" using sub h by blast
    with h Failed show ?thesis by (simp add: settle_pair_def pf rd)
  next
    case (Solved so)
    then have "h \<notin> hsh ` set (map fst (so_dropped so))" "h \<notin> hsh ` set (all_orders (so_batch so))"
      using sub solve_result_cases [OF Solved] h by blast+
    then show ?thesis by (simp add: settle_pair_def Solved Let_def rd fl fi se split: sum.split)
  qed (simp add: settle_pair_def)
  show "set (bt_in_flight (settle_pair hsh io pb s)) \<subseteq> set (bt_in_flight s)"
  proof (cases "solve (pi_solve io) pb")
    case (Failed e ds)
    then show ?thesis using pf(2) [of e _ "reject_dropped hsh ds s"] rd(2) [of ds] by (simp add: settle_pair_def) (meson order_trans)
  next
    case (Solved so)
    have a: "set (bt_in_flight (fail_all hsh l r q os t)) \<subseteq> set (bt_in_flight s)"
      "set (bt_in_flight (fill_all hsh so' tx t)) \<subseteq> set (bt_in_flight s)"
      if "set (bt_in_flight t) \<subseteq> set (bt_in_flight s)" for l r q os so' tx t
      using that fl(2) fi(2) by (meson order_trans)+
    have b: "set (bt_in_flight (fold (\<lambda>ord s. set_status (hsh ord) (Settling tx) s) os (reject_dropped hsh (so_dropped so) s))) \<subseteq> set (bt_in_flight s)" for os tx
      using se(2) rd(2) by (meson order_trans)
    show ?thesis
      using rd(2) by (simp add: settle_pair_def Solved Let_def a b split: sum.split)
  qed (simp add: settle_pair_def)
qed

section \<open>The window\<close>

lemma settle_pairs:
  assumes "orders_inv hsh s" "distinct (map hsh (concat (map all_orders bs)))" "\<forall>b \<in> set bs. batch_stored hsh (all_orders b) s"
  shows "orders_inv hsh (fold (\<lambda>pb s. settle_pair hsh (io pb) pb s) bs s) \<and>
    (\<forall>h. h \<notin> hsh ` set (concat (map all_orders bs)) \<longrightarrow>
       jget (bt_orders (fold (\<lambda>pb s. settle_pair hsh (io pb) pb s) bs s)) h = jget (bt_orders s) h) \<and>
    set (bt_in_flight (fold (\<lambda>pb s. settle_pair hsh (io pb) pb s) bs s)) \<subseteq> set (bt_in_flight s)"
  using assms
proof (induction bs arbitrary: s)
  case (Cons b bs)
  let ?s = "settle_pair hsh (io b) b s"
  have b: "batch_stored hsh (all_orders b) s" using Cons.prems(3) by simp
  note fr = settle_pair_frame [OF b, where io = "io b"]
  have dis: "hsh ` set (all_orders b) \<inter> hsh ` set (concat (map all_orders bs)) = {}" using Cons.prems(2) by auto
  have "batch_stored hsh (all_orders c) ?s" if c: "c \<in> set bs" for c
  proof -
    have "jget (bt_orders ?s) (hsh ord) = jget (bt_orders s) (hsh ord)" if "ord \<in> set (all_orders c)" for ord
      using fr(1) dis c that by (auto simp: disjoint_iff)
    moreover have "batch_stored hsh (all_orders c) s" using Cons.prems(3) c by simp
    ultimately show ?thesis by (simp add: batch_stored_def)
  qed
  moreover have "orders_inv hsh ?s" by (rule settle_pair_inv [OF Cons.prems(1) b])
  moreover have "distinct (map hsh (concat (map all_orders bs)))" using Cons.prems(2) by simp
  ultimately have ih: "orders_inv hsh (fold (\<lambda>pb s. settle_pair hsh (io pb) pb s) bs ?s)"
    "\<forall>h. h \<notin> hsh ` set (concat (map all_orders bs)) \<longrightarrow> jget (bt_orders (fold (\<lambda>pb s. settle_pair hsh (io pb) pb s) bs ?s)) h = jget (bt_orders ?s) h"
    "set (bt_in_flight (fold (\<lambda>pb s. settle_pair hsh (io pb) pb s) bs ?s)) \<subseteq> set (bt_in_flight ?s)"
    using Cons.IH [of ?s] by blast+
  have "h \<notin> hsh ` set (concat (map all_orders (b # bs))) \<Longrightarrow>
      jget (bt_orders (fold (\<lambda>pb s. settle_pair hsh (io pb) pb s) bs ?s)) h = jget (bt_orders s) h" for h
    using ih(2) fr(1) by (simp add: image_Un)
  moreover have "set (bt_in_flight (fold (\<lambda>pb s. settle_pair hsh (io pb) pb s) bs ?s)) \<subseteq> set (bt_in_flight s)"
    using ih(3) fr(2) by (rule order_trans)
  ultimately show ?case using ih(1) by simp
qed simp

lemma expire_inv: "orders_inv hsh s \<Longrightarrow> orders_inv hsh (expire_all secs s)"
proof -
  assume inv: "orders_inv hsh s"
  have "jwf (map (\<lambda>(h, p). (h, expire_order secs p)) (bt_orders s))"
    using inv by (simp add: orders_inv_def comp_def case_prod_beta)
  moreover have "pd_hash q = h \<and> hsh (pd_order q) = h \<and> status_ok q"
    if "jget (bt_orders s) h = Some p" "q = expire_order secs p" for h p q
    using orders_invD [OF inv that(1)] that(2) by (auto simp: expire_order_def status_ok_def)
  ultimately show ?thesis
    by (auto simp: orders_inv_def expire_all_def Let_def jget_map)
qed

lemma in_stateD:
  assumes "orders_inv hsh s" "p \<in> set (in_state st s)"
  shows "jget (bt_orders s) (pd_hash p) = Some p" "pd_status p = st" "hsh (pd_order p) = pd_hash p"
proof -
  obtain h where h: "(h, p) \<in> set (bt_orders s)" using assms(2) by (auto simp: in_state_def)
  then have g: "jget (bt_orders s) h = Some p" using assms(1) by (simp add: orders_inv_def)
  from orders_invD [OF assms(1) g] g show "jget (bt_orders s) (pd_hash p) = Some p" "hsh (pd_order p) = pd_hash p" by auto
  show "pd_status p = st" using assms(2) by (simp add: in_state_def)
qed

lemma in_state_distinct: "orders_inv hsh s \<Longrightarrow> distinct (map pd_hash (in_state st s))"
proof -
  assume inv: "orders_inv hsh s"
  have j: "jwf (bt_orders s)" using inv by (simp add: orders_inv_def)
  have "pd_hash (snd x) = fst x" if "x \<in> set (bt_orders s)" for x
    using orders_invD [OF inv, of "fst x" "snd x"] that j by simp
  then have "map pd_hash (map snd (bt_orders s)) = map fst (bt_orders s)" by simp
  with j have "distinct (map pd_hash (map snd (bt_orders s)))" by (simp only:)
  then show ?thesis by (simp add: in_state_def distinct_map_filter)
qed

lemma local_fund:
  "local_step pd_hash (\<lambda>p s. if esc (pd_hash p) = o_amount (pd_order p) then set_status (pd_hash p) Pending s else s)
     (\<lambda>p q. if esc (pd_hash p) = o_amount (pd_order p) then q\<lparr>pd_status := Pending\<rparr> else q)"
  using flight_steps(1) by (auto simp: local_step_def jget_set_status jwf_steps option.map_ident)

lemma fund_inv:
  assumes "orders_inv hsh s"
  shows "orders_inv hsh (fund_deposits esc (in_state AwaitingDeposit s) s)"
  unfolding fund_deposits_def
proof (rule fold_inv [OF local_fund assms in_state_distinct [OF assms]])
  fix x p assume x: "x \<in> set (in_state AwaitingDeposit s)" "jget (bt_orders s) (pd_hash x) = Some p"
  then have "p = x" "pd_status x = AwaitingDeposit" using in_stateD [OF assms] by fastforce+
  moreover have "status_ok p" using orders_invD [OF assms x(2)] by simp
  ultimately show "pd_order (if esc (pd_hash x) = o_amount (pd_order x) then p\<lparr>pd_status := Pending\<rparr> else p) = pd_order p \<and>
      pd_hash (if esc (pd_hash x) = o_amount (pd_order x) then p\<lparr>pd_status := Pending\<rparr> else p) = pd_hash p \<and>
      status_ok (if esc (pd_hash x) = o_amount (pd_order x) then p\<lparr>pd_status := Pending\<rparr> else p)"
    by (simp add: status_ok_def)
qed

lemma fund_other:
  "set (bt_in_flight (fund_deposits esc ps s)) \<subseteq> set (bt_in_flight s)"
  "h \<notin> pd_hash ` set ps \<Longrightarrow> jget (bt_orders (fund_deposits esc ps s)) h = jget (bt_orders s) h"
  unfolding fund_deposits_def using local_fold(2,4) [OF local_fund] by blast+

lemma ready_distinct:
  assumes "orders_inv hsh s"
  shows "distinct (map pd_hash (window_ready io s))"
proof -
  have "p \<noteq> q" if "p \<in> set (in_state Pending s)" "q \<in> set (in_state AwaitingDeposit s)" for p q
    using in_stateD(2) [OF assms that(1)] in_stateD(2) [OF assms that(2)] by auto
  then have "pd_hash p \<noteq> pd_hash q" if "p \<in> set (in_state Pending s)" "q \<in> set (in_state AwaitingDeposit s)" for p q
    using in_stateD(1) [OF assms that(1)] in_stateD(1) [OF assms that(2)] that by (metis option.inject)
  then show ?thesis
    using in_state_distinct [OF assms] by (auto simp: window_ready_def distinct_map_filter)
qed

text \<open>The orders of a window are stored and pending once the deposits are in.\<close>

lemma ready_stored:
  assumes "orders_inv hsh s" "p \<in> set (window_ready io s)"
  shows "hsh (pd_order p) = pd_hash p \<and>
    (\<exists>q. jget (bt_orders (fund_deposits (wi_escrow io) (in_state AwaitingDeposit s) s)) (pd_hash p) = Some q \<and>
       pd_order q = pd_order p \<and> pd_status q = Pending)"
proof -
  consider "p \<in> set (in_state Pending s)" | "p \<in> set (in_state AwaitingDeposit s)" "wi_escrow io (pd_hash p) = o_amount (pd_order p)"
    using assms(2) by (auto simp: window_ready_def)
  then show ?thesis
  proof cases
    case 1
    note d = in_stateD [OF assms(1) 1]
    have "pd_hash p \<notin> pd_hash ` set (in_state AwaitingDeposit s)"
    proof
      assume "pd_hash p \<in> pd_hash ` set (in_state AwaitingDeposit s)"
      then obtain q where q: "q \<in> set (in_state AwaitingDeposit s)" "pd_hash q = pd_hash p" by auto
      from in_stateD(1) [OF assms(1) q(1)] d(1) have "q = p" unfolding q(2) by (metis option.inject)
      with in_stateD(2) [OF assms(1) q(1)] d(2) show False by simp
    qed
    then have "jget (bt_orders (fund_deposits (wi_escrow io) (in_state AwaitingDeposit s) s)) (pd_hash p) = Some p"
      by (rule trans [OF fund_other(2) d(1)])
    with d(2,3) show ?thesis by (intro conjI exI [of _ p] refl)
  next
    case 2
    note d = in_stateD [OF assms(1) 2(1)]
    from local_fold(3) [OF local_fund in_state_distinct [OF assms(1)] 2(1), of "wi_escrow io" s] d(1) 2(2)
    have "jget (bt_orders (fund_deposits (wi_escrow io) (in_state AwaitingDeposit s) s)) (pd_hash p) = Some (p\<lparr>pd_status := Pending\<rparr>)"
      unfolding fund_deposits_def by (simp only: option.map if_True refl)
    with d(3) show ?thesis by (intro conjI exI [of _ "p\<lparr>pd_status := Pending\<rparr>"]) simp_all
  qed
qed

lemma forget_inv: "orders_inv hsh s \<Longrightarrow> orders_inv hsh (forget_old n s)"
proof -
  assume inv: "orders_inv hsh s"
  then have j: "jwf (bt_orders s)" by (simp add: orders_inv_def)
  have "jwf (bt_orders (forget_old n s))" using j by (simp add: forget_old_def distinct_map_filter)
  moreover have "jget (bt_orders (forget_old n s)) h = Some p \<Longrightarrow> jget (bt_orders s) h = Some p" for h p
    by (auto simp: forget_old_def jget_filter [OF j] split: option.splits if_splits)
  ultimately show ?thesis using orders_invD [OF inv] by (auto simp: orders_inv_def)
qed

lemma tick_cases:
  fixes io :: window_io
  assumes "orders_inv hsh s"
  defines "s1 \<equiv> expire_all (wi_now io div 1000) s"
  defines "s2 \<equiv> fund_deposits (wi_escrow io) (in_state AwaitingDeposit s1) s1"
  defines "s3 \<equiv> s2\<lparr>bt_in_flight := bt_in_flight s2 @ map pd_hash (window_ready io s1)\<rparr>"
  defines "s4 \<equiv> fold (\<lambda>pb s. settle_pair hsh (wi_pair io pb) pb s) (group_by_pair (map pd_order (window_ready io s1))) s3"
  shows "orders_inv hsh s2" "orders_inv hsh s4"
    "h \<notin> pd_hash ` set (window_ready io s1) \<Longrightarrow> jget (bt_orders s4) h = jget (bt_orders s2) h"
    "set (bt_in_flight s4) \<subseteq> set (bt_in_flight s) \<union> pd_hash ` set (window_ready io s1)"
    "tick hsh io s = (if window_ready io s1 = [] \<or> wi_now io < bt_paused s2 then s2
       else forget_old (wi_end io) (release_ready (window_ready io s1) s4))"
proof -
  let ?r = "window_ready io s1"
  let ?bs = "group_by_pair (map pd_order ?r)"
  have i1: "orders_inv hsh s1" unfolding s1_def by (rule expire_inv [OF assms(1)])
  show i2: "orders_inv hsh s2" unfolding s2_def by (rule fund_inv [OF i1])
  have "bt_orders s3 = bt_orders s2" by (simp add: s3_def)
  from inv_fields(1) [OF this] i2 have i3: "orders_inv hsh s3" by simp
  have ms: "mset (concat (map all_orders ?bs)) = mset (map pd_order ?r)" by (rule group_by_pair_mset)
  have hs: "map hsh (map pd_order ?r) = map pd_hash ?r" using ready_stored [OF i1] by simp
  have "mset (map hsh (concat (map all_orders ?bs))) = mset (map hsh (map pd_order ?r))" using ms by (metis mset_map)
  then have m: "mset (map hsh (concat (map all_orders ?bs))) = mset (map pd_hash ?r)" by (simp only: hs)
  then have d: "distinct (map hsh (concat (map all_orders ?bs)))"
    using ready_distinct [OF i1] by (metis mset_eq_imp_distinct_iff)
  have st: "hsh ` set (concat (map all_orders ?bs)) = pd_hash ` set ?r" using m by (metis set_map set_mset_mset)
  have "batch_stored hsh (all_orders b) s3" if b: "b \<in> set ?bs" for b
  proof -
    obtain xs ys where "?bs = xs @ b # ys" using b by (meson split_list)
    with d have "distinct (map hsh (all_orders b))" by simp
    moreover have "\<exists>p. jget (bt_orders s3) (hsh ord) = Some p \<and> pd_order p = ord \<and> pd_status p = Pending" if "ord \<in> set (all_orders b)" for ord
    proof -
      have "ord \<in> set (concat (map all_orders ?bs))" using b that by auto
      then have "ord \<in> set (map pd_order ?r)" using ms by (metis set_mset_mset)
      then obtain p where p: "p \<in> set ?r" "ord = pd_order p" by auto
      from ready_stored [OF i1 p(1)] p(2) show ?thesis by (auto simp: s3_def s2_def)
    qed
    ultimately show ?thesis by (simp add: batch_stored_def)
  qed
  then have sp: "orders_inv hsh s4" "h \<notin> hsh ` set (concat (map all_orders ?bs)) \<Longrightarrow> jget (bt_orders s4) h = jget (bt_orders s3) h"
    "set (bt_in_flight s4) \<subseteq> set (bt_in_flight s3)" for h
    using settle_pairs [OF i3 d, of "wi_pair io"] by (simp_all only: s4_def) blast+
  show "orders_inv hsh s4" by (rule sp(1))
  show "h \<notin> pd_hash ` set ?r \<Longrightarrow> jget (bt_orders s4) h = jget (bt_orders s2) h"
    using sp(2) st by (simp add: s3_def)
  have "set (bt_in_flight s2) \<subseteq> set (bt_in_flight s)"
    using fund_other(1) [of "wi_escrow io" _ s1] by (simp add: s2_def s1_def expire_all_def Let_def)
  then show "set (bt_in_flight s4) \<subseteq> set (bt_in_flight s) \<union> pd_hash ` set ?r"
    using sp(3) by (auto simp: s3_def)
  show "tick hsh io s = (if ?r = [] \<or> wi_now io < bt_paused s2 then s2 else forget_old (wi_end io) (release_ready ?r s4))"
    unfolding tick_def Let_def s1_def s2_def s3_def s4_def by (rule refl)
qed

section \<open>Runs\<close>

lemma intake_inv:
  assumes "orders_inv (ci_hash ch) s" "intake ch now raw sg s = Inr (s', h, st)"
  shows "orders_inv (ci_hash ch) s' \<and> bt_in_flight s' = bt_in_flight s"
proof (cases "jget (bt_orders s) h")
  case (Some p)
  with assms show ?thesis by (auto simp: intake_def sbind_Inr Let_def split: option.splits)
next
  case None
  with assms(2) obtain p where p: "bt_orders s' = jset h p (bt_orders s)" "pd_hash p = h" "ci_hash ch (pd_order p) = h" "pd_attempts p = 0"
      "pd_status p = st" "bt_in_flight s' = bt_in_flight s" and f: "st = Pending \<or> st = AwaitingDeposit"
    by (auto simp: intake_def intake_funding_def sbind_Inr Let_def split: option.splits if_splits)
  have "status_ok p" using f p(4,5) by (auto simp: status_ok_def)
  then have "pd_hash q = k \<and> ci_hash ch (pd_order q) = k \<and> status_ok q" if "jget (bt_orders s') k = Some q" for k q
    using that p orders_invD [OF assms(1), of k q] by (cases "k = h") auto
  moreover have "jwf (bt_orders s')" using assms(1) p(1) by (simp add: orders_inv_def)
  ultimately show ?thesis using p(6) by (simp add: orders_inv_def)
qed

lemma tick_inv:
  assumes "orders_inv hsh s"
  shows "orders_inv hsh (tick hsh io s)"
proof -
  note tc = tick_cases [OF assms, where io = io]
  have "orders_inv hsh (forget_old n (release_ready r t))" if "orders_inv hsh t" for n r t
    using that forget_inv [of hsh "release_ready r t"] inv_fields(1) [of "release_ready r t" t] by simp
  with tc(1,2) show ?thesis unfolding tc(5) by simp
qed

lemma tick_flight:
  assumes "orders_inv hsh s" "bt_in_flight s = []"
  shows "bt_in_flight (tick hsh io s) = []"
proof -
  note tc = tick_cases [OF assms(1), where io = io]
  let ?s1 = "expire_all (wi_now io div 1000) s"
  have "set (bt_in_flight (fund_deposits (wi_escrow io) ps ?s1)) \<subseteq> set (bt_in_flight ?s1)" for ps by (rule fund_other(1))
  then have "bt_in_flight (fund_deposits (wi_escrow io) ps ?s1) = []" for ps using assms(2) by (simp add: expire_all_def Let_def)
  moreover have "bt_in_flight (forget_old n (release_ready r t)) = []" if "set (bt_in_flight t) \<subseteq> pd_hash ` set r" for n r t
    using that by (auto simp: forget_old_def release_ready_def filter_empty_conv)
  ultimately show ?thesis using tc(4) assms(2) unfolding tc(5) by simp
qed

lemma batch_step_inv:
  assumes "orders_inv (ci_hash ch) s" "bt_in_flight s = []"
  shows "orders_inv (ci_hash ch) (batch_step ch e s) \<and> bt_in_flight (batch_step ch e s) = []"
proof (cases e)
  case (OrderPosted now raw sg)
  with assms show ?thesis
    using intake_inv [OF assms(1), of now raw sg] by (cases "intake ch now raw sg s") auto
next
  case (WindowTick io)
  with assms show ?thesis by (simp add: tick_inv tick_flight)
qed

lemma batch_run_inv: "orders_inv (ci_hash ch) (batch_run ch es (new_batcher lines)) \<and> bt_in_flight (batch_run ch es (new_batcher lines)) = []"
proof -
  have "orders_inv (ci_hash ch) s \<Longrightarrow> bt_in_flight s = [] \<Longrightarrow>
      orders_inv (ci_hash ch) (fold (batch_step ch) es s) \<and> bt_in_flight (fold (batch_step ch) es s) = []" for s
    by (induction es arbitrary: s) (auto simp: batch_step_inv)
  moreover have "orders_inv (ci_hash ch) (new_batcher lines)" "bt_in_flight (new_batcher lines) = []"
    by (simp_all add: new_batcher_def orders_inv_def)
  ultimately show ?thesis by (simp add: batch_run_def)
qed

text \<open>
  C24: over every run of posted orders and windows, whatever the chain answers: a filled order was filled
  for at least its limit; an order still open has had fewer than six attempts, so no order is tried
  forever; and between windows no order is left in flight.
\<close>

theorem batcher_runs_safe:
  assumes "jget (bt_orders (batch_run ch es (new_batcher lines))) h = Some p"
  shows "(case pd_status p of
            Filled tx b alone netted \<Rightarrow> o_min (pd_order p) \<le> b
          | RejectedOrder r \<Rightarrow> True
          | Expired \<Rightarrow> True
          | _ \<Rightarrow> pd_attempts p < 6) \<and>
         bt_in_flight (batch_run ch es (new_batcher lines)) = []"
  using batch_run_inv [of ch es lines] orders_invD [OF conjunct1 [OF batch_run_inv] assms] by (simp add: status_ok_def)

definition demo_window :: "int \<Rightarrow> window_io" where
  "demo_window now = \<lparr>wi_now = now, wi_escrow = \<lambda>_. 0,
     wi_pair = \<lambda>pb. \<lparr>pi_solve = \<lparr>se_routes_ab = [[]], se_routes_ba = [[]],
         se_probe = \<lambda>os px xs. Inr \<lparr>sim_rows = [(pb_a pb, 990 * big_sum (map in_amount xs), 0), (pb_b pb, 990 * big_sum (map in_amount xs), 0)], sim_buys = []\<rparr>,
         se_round = \<lambda>_ os px xs. Inr \<lparr>sim_rows = [(pb_a pb, 990 * big_sum (map in_amount xs), 990 * big_sum (map in_amount xs)), (pb_b pb, 0, 0)], sim_buys = []\<rparr>,
         se_fee_bps = 10, se_max_fee = 30\<rparr>,
       pi_dry = Inr 100000, pi_send = Inr ''0xtx'', pi_receipt = Some (True, 90000), pi_now = now\<rparr>,
     wi_end = now\<rparr>"

definition demo_events :: "batch_event list" where
  "demo_events = [OrderPosted 100000 demo_raw demo_sig, WindowTick (demo_window 100300)]"

lemma demo_fill:
  "map_option pd_status (jget (bt_orders (batch_run demo_ichain demo_events (new_batcher []))) ''7'')
     = Some (Filled ''0xtx'' 990000 (Some 990000) False)"
  by code_simp

theorem batcher_runs_safe_witness:
  "\<exists>p. jget (bt_orders (batch_run demo_ichain demo_events (new_batcher []))) ''7'' = Some p \<and> o_min (pd_order p) \<le> 990000"
proof -
  obtain p where p: "jget (bt_orders (batch_run demo_ichain demo_events (new_batcher []))) ''7'' = Some p"
    "pd_status p = Filled ''0xtx'' 990000 (Some 990000) False"
    using demo_fill by auto
  from batcher_runs_safe [OF p(1)] p show ?thesis by auto
qed

text \<open>
  A final state is final: an order that is filled, rejected or expired stays as it is through every
  later window, until it is forgotten.
\<close>

theorem final_states_stay:
  assumes "s = batch_run ch es (new_batcher lines)" and "jget (bt_orders s) h = Some p"
    and "\<not> waiting (pd_status p)" and "\<not> open_status (pd_status p)"
  shows "jget (bt_orders (tick (ci_hash ch) io s)) h \<in> {Some p, None}"
proof -
  have inv: "orders_inv (ci_hash ch) s" using batch_run_inv assms(1) by simp
  note tc = tick_cases [OF inv, where io = io]
  let ?s1 = "expire_all (wi_now io div 1000) s"
  have i1: "orders_inv (ci_hash ch) ?s1" by (rule expire_inv [OF inv])
  have e: "jget (bt_orders ?s1) h = Some p"
    using assms(2,3) by (simp add: expire_all_def Let_def jget_map expire_order_def)
  have "h \<noteq> pd_hash q" if "q \<in> set (in_state st ?s1)" "waiting st" for q st
    using in_stateD(1,2) [OF i1 that(1)] e that(2) assms(3) by auto
  then have n: "h \<notin> pd_hash ` set (in_state AwaitingDeposit ?s1)" "h \<notin> pd_hash ` set (window_ready io ?s1)"
    by (auto simp: window_ready_def waiting_def)
  have f: "jget (bt_orders (fund_deposits (wi_escrow io) (in_state AwaitingDeposit ?s1) ?s1)) h = Some p"
    using fund_other(2) [OF n(1)] e by simp
  have "jget (bt_orders (forget_old n (release_ready r t))) h \<in> {Some p, None}"
    if "jget (bt_orders t) h = Some p" "jwf (bt_orders t)" for n r t
    using that by (auto simp: forget_old_def jget_filter)
  note forgotten = this
  show ?thesis unfolding tc(5)
  proof (split if_split, intro conjI impI)
    show "jget (bt_orders (fund_deposits (wi_escrow io) (in_state AwaitingDeposit ?s1) ?s1)) h \<in> {Some p, None}" by (simp only: f insert_iff refl simp_thms)
  next
    show "jget (bt_orders (forget_old (wi_end io) (release_ready (window_ready io ?s1)
      (fold (\<lambda>pb s. settle_pair (ci_hash ch) (wi_pair io pb) pb s) (group_by_pair (map pd_order (window_ready io ?s1)))
        ((fund_deposits (wi_escrow io) (in_state AwaitingDeposit ?s1) ?s1)\<lparr>bt_in_flight :=
          bt_in_flight (fund_deposits (wi_escrow io) (in_state AwaitingDeposit ?s1) ?s1) @ map pd_hash (window_ready io ?s1)\<rparr>))))) h
      \<in> {Some p, None}"
      by (rule forgotten [OF trans [OF tc(3) [OF n(2)] f] conjunct1 [OF tc(2) [unfolded orders_inv_def]]])
  qed
qed

theorem final_states_stay_witness:
  "jget (bt_orders (tick (ci_hash demo_ichain) (demo_window 100600) (batch_run demo_ichain demo_events (new_batcher [])))) ''7''
     \<in> {jget (bt_orders (batch_run demo_ichain demo_events (new_batcher []))) ''7'', None}"
proof -
  obtain p where p: "jget (bt_orders (batch_run demo_ichain demo_events (new_batcher []))) ''7'' = Some p"
    "pd_status p = Filled ''0xtx'' 990000 (Some 990000) False"
    using demo_fill by auto
  from final_states_stay [OF refl p(1), of "demo_window 100600"] p show ?thesis
    by (simp add: waiting_def open_status_def)
qed

end
