(* ===== verification/Json.thy ===== *)
theory Json
  imports Prelude
begin

text \<open>
  JSON values as the services parse them, and \<open>JSON.stringify\<close>, which the caches use to name a
  request. Numbers are the integral ones, an object keeps the order of its members, and a value that
  is absent (\<open>undefined\<close>) is \<^const>\<open>None\<close> where it can occur.
\<close>

datatype json =
    Null
  | Bool bool
  | Num int
  | Str string
  | Arr "json list"
  | Obj "(string \<times> json) list"

section \<open>Reading\<close>

text \<open>\<open>v?.k\<close> on a parsed value: only an object has members of its own here.\<close>

fun member :: "string \<Rightarrow> json \<Rightarrow> json option" where
  "member k (Obj kvs) = jget (rev kvs) k"
| "member k _ = None"

text \<open>\<open>x == null\<close>.\<close>

fun nullish :: "json option \<Rightarrow> bool" where
  "nullish None = True"
| "nullish (Some Null) = True"
| "nullish (Some _) = False"

text \<open>\<open>String(x)\<close>, for the values that are not objects; an array joins its elements with commas.\<close>

fun js_string :: "json option \<Rightarrow> string" where
  "js_string None = ''undefined''"
| "js_string (Some Null) = ''null''"
| "js_string (Some (Bool b)) = (if b then ''true'' else ''false'')"
| "js_string (Some (Num n)) = to_str n"
| "js_string (Some (Str s)) = s"
| "js_string (Some (Arr [])) = []"
| "js_string (Some (Arr (x # xs))) =
     (if x = Null then [] else js_string (Some x)) @ (if xs = [] then [] else CHR '','' # js_string (Some (Arr xs)))"
| "js_string (Some (Obj _)) = ''[object Object]''"

section \<open>Writing\<close>

definition short_escapes :: "(char \<times> char) list" where
  "short_escapes =
     [(CHR 0x22, CHR 0x22), (CHR 0x5C, CHR 0x5C), (CHR 0x08, CHR ''b''), (CHR 0x0C, CHR ''f''), (CHR 0x0A, CHR ''n''),
      (CHR 0x0D, CHR ''r''), (CHR 0x09, CHR ''t'')]"

definition esc_char :: "char \<Rightarrow> string" where
  "esc_char c =
     (case jget short_escapes c of
        Some k \<Rightarrow> [CHR 0x5C, k]
      | None \<Rightarrow>
          if (of_char c :: int) < 32
          then [CHR 0x5C, CHR ''u'', CHR ''0'', CHR ''0'', digit_char (of_char c div 16), digit_char (of_char c mod 16)]
          else [c])"

definition quote :: "string \<Rightarrow> string" where
  "quote s = CHR 0x22 # concat (map esc_char s) @ [CHR 0x22]"

fun join :: "string \<Rightarrow> string list \<Rightarrow> string" where
  "join sep [] = []"
| "join sep [x] = x"
| "join sep (x # y # xs) = x @ sep @ join sep (y # xs)"

text \<open>\<open>JSON.stringify(v)\<close>.\<close>

fun json_str :: "json \<Rightarrow> string" where
  "json_str Null = ''null''"
| "json_str (Bool b) = (if b then ''true'' else ''false'')"
| "json_str (Num n) = to_str n"
| "json_str (Str s) = quote s"
| "json_str (Arr xs) = CHR ''['' # join '','' (map json_str xs) @ '']''"
| "json_str (Obj kvs) = CHR ''{'' # join '','' (map (\<lambda>(k, v). quote k @ CHR '':'' # json_str v) kvs) @ ''}''"

section \<open>Different values are written differently\<close>

text \<open>What can follow a value inside a text.\<close>

definition closes :: "string \<Rightarrow> bool" where
  "closes r \<longleftrightarrow> r = [] \<or> hd r \<in> {CHR '','', CHR '']'', CHR ''}''}"

lemma short_escapesD:
  assumes "jget short_escapes c = Some k"
  shows "k \<noteq> CHR ''u''" "jget short_escapes d = Some k \<Longrightarrow> c = d"
  using assms by (auto simp: short_escapes_def split: if_splits)

lemma esc_cases:
  obtains (short) k where "esc_char c = [CHR 0x5C, k]" "jget short_escapes c = Some k"
  | (long) "esc_char c = [CHR 0x5C, CHR ''u'', CHR ''0'', CHR ''0'', digit_char (of_char c div 16), digit_char (of_char c mod 16)]"
      "(of_char c :: int) < 32"
  | (plain) "esc_char c = [c]" "c \<noteq> CHR 0x22" "c \<noteq> CHR 0x5C"
proof (cases "jget short_escapes c")
  case None
  then have "c \<noteq> CHR 0x22" "c \<noteq> CHR 0x5C" by (auto simp: short_escapes_def)
  with None that show ?thesis by (cases "(of_char c :: int) < 32") (simp_all add: esc_char_def)
next
  case (Some k)
  then show ?thesis using that by (simp add: esc_char_def)
qed

lemma esc_start: "esc_char c \<noteq> [] \<and> hd (esc_char c) \<noteq> CHR 0x22"
  by (cases c rule: esc_cases) auto

lemma long_inj:
  assumes "digit_char (of_char c div 16) = digit_char (of_char d div 16)" "digit_char (of_char c mod 16) = digit_char (of_char d mod 16)"
    "(of_char c :: int) < 32" "(of_char d :: int) < 32"
  shows "c = d"
proof -
  have r: "0 \<le> (of_char e :: int) div 16 \<and> (of_char e :: int) div 16 < 16 \<and> 0 \<le> (of_char e :: int) mod 16 \<and> (of_char e :: int) mod 16 < 16"
    if "(of_char e :: int) < 32" for e
  proof -
    have "0 \<le> (of_char e :: int)" by (metis of_nat_0_le_iff of_nat_of_char)
    with that show ?thesis by presburger
  qed
  have "(of_char c :: int) div 16 = of_char d div 16"
    using digit_val_char [of "of_char c div 16"] digit_val_char [of "of_char d div 16"] r [OF assms(3)] r [OF assms(4)] assms(1) by metis
  moreover have "(of_char c :: int) mod 16 = of_char d mod 16"
    using digit_val_char [of "of_char c mod 16"] digit_val_char [of "of_char d mod 16"] r [OF assms(3)] r [OF assms(4)] assms(2) by metis
  ultimately have "(of_char c :: int) = of_char d" by (metis div_mod_decomp_int)
  then show ?thesis by (metis char_of_char)
qed

lemma esc_prefix: "esc_char c @ r = esc_char d @ s \<Longrightarrow> c = d \<and> r = s"
  by (cases c rule: esc_cases; cases d rule: esc_cases) (auto dest: long_inj short_escapesD)

lemma quote_prefix: "quote a @ r = quote b @ s \<Longrightarrow> a = b \<and> r = s"
proof -
  have "concat (map esc_char a) @ CHR 0x22 # r = concat (map esc_char b) @ CHR 0x22 # s \<Longrightarrow> a = b \<and> r = s" for b
  proof (induction a arbitrary: b)
    case Nil
    then show ?case
    proof (cases b)
      case (Cons d b')
      with Nil have "esc_char d @ concat (map esc_char b') @ CHR 0x22 # s = CHR 0x22 # r" by simp
      then show ?thesis using esc_start [of d] by (cases "esc_char d") auto
    qed simp
  next
    case (Cons c a')
    show ?case
    proof (cases b)
      case Nil
      with Cons.prems have "esc_char c @ concat (map esc_char a') @ CHR 0x22 # r = CHR 0x22 # s" by simp
      then show ?thesis using esc_start [of c] by (cases "esc_char c") auto
    next
      case (Cons d b')
      with Cons.prems have "esc_char c @ (concat (map esc_char a') @ CHR 0x22 # r) = esc_char d @ (concat (map esc_char b') @ CHR 0x22 # s)" by simp
      from esc_prefix [OF this] have "c = d" "concat (map esc_char a') @ CHR 0x22 # r = concat (map esc_char b') @ CHR 0x22 # s" by auto
      with Cons.IH [of b'] Cons show ?thesis by simp
    qed
  qed
  then show "quote a @ r = quote b @ s \<Longrightarrow> a = b \<and> r = s" by (simp add: quote_def)
qed


text \<open>The characters of a number.\<close>

definition num_char :: "char \<Rightarrow> bool" where
  "num_char c \<longleftrightarrow> c = CHR ''-'' \<or> (48 \<le> (of_char c :: nat) \<and> (of_char c :: nat) \<le> 57)"

lemma to_str_chars: "to_str n \<noteq> [] \<and> (\<forall>c \<in> set (to_str n). num_char c)"
proof -
  have "nat_str 10 m \<noteq> [] \<and> (\<forall>c \<in> set (nat_str 10 m). num_char c)" if "0 \<le> m" for m
    using nat_str_digits [of m 10] that of_char_digit by (fastforce simp: num_char_def)
  from this [of n] this [of "- n"] show ?thesis by (auto simp: to_str_def num_char_def)
qed

lemma takeWhile_all: "\<forall>c \<in> set xs. P c \<Longrightarrow> r = [] \<or> \<not> P (hd r) \<Longrightarrow> takeWhile P (xs @ r) = xs"
  by (cases r) (auto simp: takeWhile_append)

lemma closes_num: "closes t \<Longrightarrow> t = [] \<or> \<not> num_char (hd t)"
  by (auto simp: closes_def num_char_def)

lemma num_prefix:
  assumes "to_str n @ r = to_str m @ s" "closes r" "closes s"
  shows "n = m \<and> r = s"
proof -
  have "takeWhile num_char (to_str k @ t) = to_str k" if "closes t" for k t
    by (rule takeWhile_all [OF conjunct2 [OF to_str_chars] closes_num [OF that]])
  from this [OF assms(2), of n] this [OF assms(3), of m] assms(1) have e: "to_str n = to_str m" by metis
  then have "n = m" by (metis big_int_to_str option.inject)
  with assms(1) show ?thesis by simp
qed

text \<open>How a text starts tells the constructor of its value.\<close>

definition starts :: "json \<Rightarrow> char \<Rightarrow> bool" where
  "starts v c =
     (case v of Null \<Rightarrow> c = CHR ''n'' | Bool b \<Rightarrow> c = (if b then CHR ''t'' else CHR ''f'') | Num _ \<Rightarrow> num_char c
      | Str _ \<Rightarrow> c = CHR 0x22 | Arr _ \<Rightarrow> c = CHR ''['' | Obj _ \<Rightarrow> c = CHR ''{'')"

lemma json_start: "\<exists>c t. json_str v = c # t \<and> starts v c"
proof (cases v)
  case (Num n)
  obtain c t where "to_str n = c # t" using to_str_chars [of n] by (cases "to_str n") simp_all
  moreover from this have "num_char c" using to_str_chars [of n] by simp
  ultimately show ?thesis using Num by (simp add: starts_def)
qed (auto simp: starts_def quote_def)

lemma starts_other: "starts v c \<Longrightarrow> c \<notin> {CHR '','', CHR '']'', CHR ''}''}"
  by (auto simp: starts_def num_char_def split: json.splits if_splits)

lemma starts_kind:
  "starts v (CHR ''n'') \<Longrightarrow> v = Null"
  "starts v (if b then CHR ''t'' else CHR ''f'') \<Longrightarrow> v = Bool b"
  "num_char c \<Longrightarrow> starts v c \<Longrightarrow> \<exists>n. v = Num n"
  "starts v (CHR 0x22) \<Longrightarrow> \<exists>s. v = Str s"
  "starts v (CHR ''['') \<Longrightarrow> \<exists>xs. v = Arr xs"
  "starts v (CHR ''{'') \<Longrightarrow> \<exists>kvs. v = Obj kvs"
  by (cases v; simp add: starts_def num_char_def split: if_splits)+

lemma json_starts: "json_str v = c # t \<Longrightarrow> starts v c"
  using json_start [of v] by auto

text \<open>Texts that are joined with commas and closed by a bracket can be taken apart again.\<close>

lemma join_Cons: "join sep (x # xs) = x @ (if xs = [] then [] else sep @ join sep xs)"
  by (cases xs) auto

lemma join_prefix:
  assumes one: "\<And>x y r s. x \<in> set xs \<Longrightarrow> f x @ r = f y @ s \<Longrightarrow> closes r \<Longrightarrow> closes s \<Longrightarrow> x = y \<and> r = s"
    and st: "\<And>x. f x \<noteq> [] \<and> hd (f x) \<notin> {CHR '','', CHR '']'', CHR ''}''}"
    and cl: "e \<in> {CHR '']'', CHR ''}''}"
    and eq: "join '','' (map f xs) @ e # r = join '','' (map f ys) @ e # s"
  shows "xs = ys \<and> r = s"
  using one eq
proof (induction xs arbitrary: ys)
  case Nil
  then show ?case
  proof (cases ys)
    case (Cons y ys')
    with Nil(2) have "f y @ (if ys' = [] then [] else '','' @ join '','' (map f ys')) @ e # s = e # r" by (simp add: join_Cons)
    with st [of y] cl show ?thesis by (cases "f y") auto
  qed simp
next
  case (Cons x xs)
  show ?case
  proof (cases ys)
    case Nil
    with Cons.prems(2) have "f x @ (if xs = [] then [] else '','' @ join '','' (map f xs)) @ e # r = e # s" by (simp add: join_Cons)
    with st [of x] cl show ?thesis by (cases "f x") auto
  next
    case c: (Cons y ys')
    let ?t = "\<lambda>zs r. (if zs = [] then [] else '','' @ join '','' (map f zs)) @ e # r"
    have "f x @ ?t xs r = f y @ ?t ys' s" using Cons.prems(2) c by (simp add: join_Cons)
    moreover have "closes (?t zs r)" for zs r using cl by (auto simp: closes_def)
    ultimately have h: "x = y" "?t xs r = ?t ys' s" using Cons.prems(1) [of x "?t xs r" y "?t ys' s"] by simp_all
    from h(2) cl have "(xs = []) = (ys' = [])" by (auto split: if_splits)
    with h(2) have "join '','' (map f xs) @ e # r = join '','' (map f ys') @ e # s" by (auto split: if_splits)
    from Cons.IH [OF Cons.prems(1) this] h(1) c show ?thesis by simp
  qed
qed

lemma json_prefix:
  "json_str v @ r = json_str w @ s \<Longrightarrow> closes r \<Longrightarrow> closes s \<Longrightarrow> v = w \<and> r = s"
proof (induction v arbitrary: w r s)
  case (Num n)
  obtain c t where c: "json_str w = c # t" "starts w c" using json_start by blast
  obtain d u where d: "to_str n = d # u" "num_char d" using to_str_chars [of n] by (cases "to_str n") auto
  from Num(1) c(1) d(1) have "num_char c" using d(2) by simp
  with c(2) obtain m where "w = Num m" using starts_kind(3) by blast
  with Num num_prefix [of n r m s] show ?case by simp
next
  case (Str a)
  obtain c t where c: "json_str w = c # t" "starts w c" using json_start by blast
  from Str(1) have "c = CHR 0x22" unfolding c(1) by (simp add: quote_def)
  with c(2) obtain b where w: "w = Str b" using starts_kind(4) by blast
  show ?case using quote_prefix [OF Str(1) [unfolded w json_str.simps]] unfolding w by simp
next
  case (Arr xs)
  obtain c t where c: "json_str w = c # t" "starts w c" using json_start by blast
  from Arr(2) have "c = CHR ''[''" unfolding c(1) by simp
  with c(2) obtain ys where w: "w = Arr ys" using starts_kind(5) by blast
  have "xs = ys \<and> r = s"
  proof (rule join_prefix)
    show "json_str x \<noteq> [] \<and> hd (json_str x) \<notin> {CHR '','', CHR '']'', CHR ''}''}" for x
      using json_start [of x] starts_other by (metis list.distinct(1) list.sel(1))
    show "join '','' (map json_str xs) @ CHR '']'' # r = join '','' (map json_str ys) @ CHR '']'' # s" using Arr(2) w by simp
  qed (use Arr in auto)
  with w show ?case by simp
next
  case (Obj xs)
  obtain c t where c: "json_str w = c # t" "starts w c" using json_start by blast
  from Obj(2) have "c = CHR ''{''" unfolding c(1) by simp
  with c(2) obtain ys where w: "w = Obj ys" using starts_kind(6) by blast
  let ?f = "\<lambda>(k, v). quote k @ CHR '':'' # json_str v"
  have "xs = ys \<and> r = s"
  proof (rule join_prefix [where f = ?f])
    show "join '','' (map ?f xs) @ CHR ''}'' # r = join '','' (map ?f ys) @ CHR ''}'' # s" using Obj(2) w by simp
    show "x = y \<and> r' = s'" if "x \<in> set xs" "?f x @ r' = ?f y @ s'" "closes r'" "closes s'" for x y r' s'
    proof (cases x; cases y)
      fix k v k' v' assume xy: "x = (k, v)" "y = (k', v')"
      with that(2) have "quote k @ (CHR '':'' # json_str v @ r') = quote k' @ (CHR '':'' # json_str v' @ s')" by simp
      from quote_prefix [OF this] have k: "k = k'" and e: "json_str v @ r' = json_str v' @ s'" by auto
      have "v \<in> Basic_BNFs.snds x" unfolding xy(1) by simp
      from Obj(1) [OF that(1) this e that(3,4)] k show ?thesis unfolding xy by blast
    qed
  qed (auto simp: quote_def)
  with w show ?case by simp
next
  case Null
  obtain c t where c: "json_str w = c # t" "starts w c" using json_start by blast
  from Null(1) have "c = CHR ''n''" unfolding c(1) by simp
  with c(2) have "w = Null" using starts_kind(1) by blast
  with Null(1) show ?case by simp
next
  case (Bool b)
  obtain c t where c: "json_str w = c # t" "starts w c" using json_start by blast
  from Bool(1) have "c = (if b then CHR ''t'' else CHR ''f'')" unfolding c(1) by (cases b) simp_all
  with c(2) have "w = Bool b" using starts_kind(2) by blast
  with Bool(1) show ?case by simp
qed

lemma json_str_inj: "json_str v = json_str w \<Longrightarrow> v = w"
  using json_prefix [of v "[]" w "[]"] by (simp add: closes_def)

end
