(* ===== verification/Caches.thy ===== *)
theory Caches
  imports Prelude
begin

text \<open>
  The contract of a cache whose entries expire. The services keep several: the answers of the
  upstream in the gateway and at the edge (\<open>fastpath.ts\<close>, \<open>policy.mjs\<close>), the collateral of a searcher
  (\<open>bonds.ts\<close>) and the routes of a pair (\<open>batcher/src/main.ts\<close>). What every client relies on is
  proved here once: an answer is the last value kept for its key, and not older than its life.
\<close>

datatype ('k, 'i) cache_op = Look int 'k | Put int 'k 'i

locale timed_cache =
  fixes look :: "int \<Rightarrow> 'k \<Rightarrow> 'c \<Rightarrow> 'v option"
    and tidy :: "int \<Rightarrow> 'k \<Rightarrow> 'c \<Rightarrow> 'c"
    and put :: "int \<Rightarrow> 'k \<Rightarrow> 'i \<Rightarrow> 'c \<Rightarrow> 'c"
    and stored :: "'i \<Rightarrow> 'v option"
    and kept :: "'i \<Rightarrow> bool"
    and until :: "int \<Rightarrow> 'i \<Rightarrow> int"
    and okay :: "'c \<Rightarrow> bool"
    and start :: "'c \<Rightarrow> bool"
  assumes look_start: "start c \<Longrightarrow> look t k c = None"
    and okay_start: "start c \<Longrightarrow> okay c"
    and okay_tidy: "okay c \<Longrightarrow> okay (tidy t k c)"
    and okay_put: "okay c \<Longrightarrow> okay (put n k x c)"
    and look_tidy: "okay c \<Longrightarrow> look t' k' (tidy t k c) \<in> {None, look t' k' c}"
    and look_put: "okay c \<Longrightarrow> kept x \<Longrightarrow> look t k (put n k x c) = (if t < until n x then stored x else None)"
    and look_other: "okay c \<Longrightarrow> k' \<noteq> k \<or> \<not> kept x \<Longrightarrow> look t k' (put n k x c) \<in> {None, look t k' c}"
begin

definition op_step :: "('k, 'i) cache_op \<Rightarrow> 'c \<Rightarrow> 'c" where
  "op_step e c = (case e of Look t k \<Rightarrow> tidy t k c | Put n k x \<Rightarrow> put n k x c)"

definition op_run :: "('k, 'i) cache_op list \<Rightarrow> 'c \<Rightarrow> 'c" where
  "op_run es c = fold op_step es c"

lemma op_run_Nil [simp]: "op_run [] c = c"
  by (simp add: op_run_def)

lemma op_run_snoc [simp]: "op_run (es @ [e]) c = op_step e (op_run es c)"
  by (simp add: op_run_def)

lemma okay_run: "start c \<Longrightarrow> okay (op_run es c)"
  by (induction es rule: rev_induct) (auto simp: op_step_def okay_start okay_tidy okay_put split: cache_op.split)

definition last_kept :: "('k, 'i) cache_op list \<Rightarrow> 'k \<Rightarrow> int \<Rightarrow> 'i \<Rightarrow> bool" where
  "last_kept es k n x \<longleftrightarrow>
     (\<exists>xs ys. es = xs @ Put n k x # ys \<and> kept x \<and> (\<forall>n' y. Put n' k y \<in> set ys \<longrightarrow> \<not> kept y))"

lemma last_kept_same: "kept x \<Longrightarrow> last_kept (es @ [Put n k x]) k n x"
  unfolding last_kept_def by fastforce

lemma last_kept_snoc:
  "last_kept es k n x \<Longrightarrow> (\<And>n' y. e = Put n' k y \<Longrightarrow> \<not> kept y) \<Longrightarrow> last_kept (es @ [e]) k n x"
  unfolding last_kept_def by (elim exE conjE, rule_tac x = xs in exI, rule_tac x = "ys @ [e]" in exI) auto

text \<open>An answer at a time is the last value kept for the key, and it is within its life.\<close>

theorem look_fresh:
  assumes "start c" "look t k (op_run es c) = Some v"
  shows "\<exists>n x. last_kept es k n x \<and> stored x = Some v \<and> t < until n x"
  using assms(2)
proof (induction es rule: rev_induct)
  case Nil
  then show ?case using look_start [OF assms(1)] by simp
next
  case (snoc e es)
  have ok: "okay (op_run es c)" by (rule okay_run [OF assms(1)])
  have old: "look t k (op_run es c) = Some v \<Longrightarrow> (\<And>n' y. e = Put n' k y \<Longrightarrow> \<not> kept y) \<Longrightarrow> ?case"
    using snoc.IH last_kept_snoc by blast
  show ?case
  proof (cases e)
    case (Look t' k')
    then have "look t k (op_run es c) = Some v"
      using snoc.prems look_tidy [OF ok, of t k t' k'] by (auto simp: op_step_def)
    with old Look show ?thesis by simp
  next
    case (Put n k' x)
    show ?thesis
    proof (cases "k' = k \<and> kept x")
      case True
      then have "stored x = Some v" "t < until n x"
        using snoc.prems Put look_put [OF ok, of x t k n] by (auto simp: op_step_def split: if_splits)
      with True Put last_kept_same show ?thesis by blast
    next
      case False
      then have "look t k (op_run es c) = Some v"
        using snoc.prems Put look_other [OF ok, of k k' x t n] by (auto simp: op_step_def)
      moreover have "e = Put n' k y \<Longrightarrow> \<not> kept y" for n' y using False Put by auto
      ultimately show ?thesis using old by blast
    qed
  qed
qed

end

end
