(* ===== verification/MicroCache.thy ===== *)
theory MicroCache
  imports Caches
begin

text \<open>
  The cache of the fast path (\<open>class MicroCache\<close>, \<open>apps/gateway/src/fastpath.ts\<close>, restated for the
  Worker in \<open>deploy/edge-worker/src/policy.mjs\<close>): a bounded map of values with an expiry, and the table
  of loads in flight. \<open>through\<close> awaits a load, so it is two operations: what a caller does when it asks,
  and what happens when the load settles. A cached \<open>undefined\<close> is \<^const>\<open>None\<close>.
\<close>

section \<open>The cache\<close>

record 'v micro_cache =
  mc_entries :: "(string \<times> ('v option \<times> int)) list"
  mc_inflight :: "(string \<times> nat list) list"

definition new_cache :: "'v micro_cache" where
  "new_cache = \<lparr>mc_entries = [], mc_inflight = []\<rparr>"

definition cache_get :: "int \<Rightarrow> string \<Rightarrow> 'v micro_cache \<Rightarrow> 'v option \<times> 'v micro_cache" where
  "cache_get now k c =
     (case jget (mc_entries c) k of
        None \<Rightarrow> (None, c)
      | Some (v, expires) \<Rightarrow> if expires \<le> now then (None, c\<lparr>mc_entries := jdel k (mc_entries c)\<rparr>) else (v, c))"

definition evict :: "nat \<Rightarrow> (string \<times> 'a) list \<Rightarrow> (string \<times> 'a) list" where
  "evict bound es = (if bound \<le> length es then (case es of [] \<Rightarrow> [] | (oldest, _) # _ \<Rightarrow> jdel oldest es) else es)"

definition cache_set :: "nat \<Rightarrow> int \<Rightarrow> string \<Rightarrow> 'v option \<Rightarrow> int \<Rightarrow> 'v micro_cache \<Rightarrow> 'v micro_cache" where
  "cache_set bound now k v ttl c =
     (if ttl \<le> 0 then c else c\<lparr>mc_entries := jset k (v, now + ttl) (evict bound (mc_entries c))\<rparr>)"

section \<open>Coalescing\<close>

text \<open>
  A caller asks (its number stands for the promise it awaits), a load settles, or a value is put
  directly. The callers that wait for a load are those in its entry in flight.
\<close>

datatype 'v cache_event = Asks string nat | Loaded string "'v option" | LoadFails string | Puts string "'v option" int

datatype 'v cache_output = Answers nat "'v option" | Rejects nat | StartsLoad string

definition cache_ask :: "int \<Rightarrow> string \<Rightarrow> nat \<Rightarrow> 'v micro_cache \<Rightarrow> 'v micro_cache \<times> 'v cache_output list" where
  "cache_ask now k i c =
     (let (hit, c1) = cache_get now k c in
      if hit \<noteq> None then (c1, [Answers i hit])
      else case jget (mc_inflight c1) k of
             Some ws \<Rightarrow> (c1\<lparr>mc_inflight := jset k (ws @ [i]) (mc_inflight c1)\<rparr>, [])
           | None \<Rightarrow> (c1\<lparr>mc_inflight := jset k [i] (mc_inflight c1)\<rparr>, [StartsLoad k]))"

definition cache_loaded ::
  "nat \<Rightarrow> (string \<Rightarrow> 'v option \<Rightarrow> int) \<Rightarrow> int \<Rightarrow> string \<Rightarrow> 'v option \<Rightarrow> 'v micro_cache \<Rightarrow> 'v micro_cache \<times> 'v cache_output list" where
  "cache_loaded bound life now k v c =
     (let c1 = cache_set bound now k v (life k v) c in
      (c1\<lparr>mc_inflight := jdel k (mc_inflight c1)\<rparr>, map (\<lambda>i. Answers i v) (jget_or [] (mc_inflight c1) k)))"

definition cache_failed :: "string \<Rightarrow> 'v micro_cache \<Rightarrow> 'v micro_cache \<times> 'v cache_output list" where
  "cache_failed k c = (c\<lparr>mc_inflight := jdel k (mc_inflight c)\<rparr>, map Rejects (jget_or [] (mc_inflight c) k))"

fun cache_step ::
  "nat \<Rightarrow> (string \<Rightarrow> 'v option \<Rightarrow> int) \<Rightarrow> int \<times> 'v cache_event \<Rightarrow> 'v micro_cache \<times> 'v cache_output list \<Rightarrow> 'v micro_cache \<times> 'v cache_output list" where
  "cache_step bound life (now, e) (c, out) =
     (let (c', new) =
        (case e of
           Asks k i \<Rightarrow> cache_ask now k i c
         | Loaded k v \<Rightarrow> cache_loaded bound life now k v c
         | LoadFails k \<Rightarrow> cache_failed k c
         | Puts k v ttl \<Rightarrow> (cache_set bound now k v ttl c, [])) in
      (c', out @ new))"

definition cache_run ::
  "nat \<Rightarrow> (string \<Rightarrow> 'v option \<Rightarrow> int) \<Rightarrow> (int \<times> 'v cache_event) list \<Rightarrow> 'v micro_cache \<times> 'v cache_output list" where
  "cache_run bound life es = fold (cache_step bound life) es (new_cache, [])"

lemma cache_run_Nil [simp]: "cache_run bound life [] = (new_cache, [])"
  by (simp add: cache_run_def)

lemma cache_run_snoc: "cache_run bound life (es @ [e]) = cache_step bound life e (cache_run bound life es)"
  by (simp add: cache_run_def)

section \<open>The cache keeps its contract\<close>

lemma evict_sub: "jwf es \<Longrightarrow> jwf (evict bound es) \<and> (\<forall>k. jget (evict bound es) k \<in> {None, jget es k})"
  by (auto simp: evict_def split: list.split)

lemma evict_length: "jwf es \<Longrightarrow> 0 < bound \<Longrightarrow> length es \<le> bound \<Longrightarrow> length (evict bound es) < bound"
  by (auto simp: evict_def length_jdel split: list.split)

text \<open>What an entry answers at a time.\<close>

definition live :: "int \<Rightarrow> ('v option \<times> int) option \<Rightarrow> 'v option" where
  "live t e = (case e of None \<Rightarrow> None | Some (v, expires) \<Rightarrow> if expires \<le> t then None else v)"

lemma live_None [simp]: "live t None = None"
  by (simp add: live_def)

lemma cache_get_live: "fst (cache_get t k c) = live t (jget (mc_entries c) k)"
  by (simp add: cache_get_def live_def split: option.split)

lemma cache_get_entries: "mc_entries (snd (cache_get t k c)) = mc_entries c \<or> mc_entries (snd (cache_get t k c)) = jdel k (mc_entries c)"
  by (simp add: cache_get_def split: option.split)

lemma cache_set_entries:
  "mc_entries (cache_set bound n k v ttl c) = (if 0 < ttl then jset k (v, n + ttl) (evict bound (mc_entries c)) else mc_entries c)"
  by (simp add: cache_set_def)

interpretation micro: timed_cache
  "\<lambda>t k c. fst (cache_get t k c)" "\<lambda>t k c. snd (cache_get t k c)"
  "\<lambda>n k x. cache_set bound n k (fst x) (snd x)" fst "\<lambda>x. 0 < snd x" "\<lambda>n x. n + snd x"
  "\<lambda>c. jwf (mc_entries c)" "\<lambda>c. mc_entries c = []" for bound
proof (unfold_locales, goal_cases)
  case (3 c t k)
  then show ?case using cache_get_entries [of t k c] by auto
next
  case (4 c n k x)
  then show ?case by (cases x) (simp add: cache_set_entries evict_sub)
next
  case (5 c t' k' t k)
  have "jget (mc_entries (snd (cache_get t k c))) k' \<in> {None, jget (mc_entries c) k'}"
    using cache_get_entries [of t k c] by auto
  then show ?case by (auto simp: cache_get_live)
next
  case (6 c x t k n)
  then show ?case by (cases x) (simp add: cache_get_live cache_set_entries, simp add: live_def)
next
  case (7 c k' k x t n)
  obtain v ttl where x: "x = (v, ttl)" by (cases x)
  have "jget (mc_entries (cache_set bound n k v ttl c)) k' \<in> {None, jget (mc_entries c) k'}"
    using 7 x evict_sub [OF 7(1), of bound] by (auto simp: cache_set_entries)
  then show ?case using x by (auto simp: cache_get_live)
qed (simp_all add: cache_get_live)

section \<open>Answers are fresh\<close>

text \<open>What an event keeps for a key, and for how long.\<close>

fun keeps :: "(string \<Rightarrow> 'v option \<Rightarrow> int) \<Rightarrow> string \<Rightarrow> 'v cache_event \<Rightarrow> ('v option \<times> int) option" where
  "keeps life k (Loaded k' v) = (if k' = k \<and> 0 < life k v then Some (v, life k v) else None)"
| "keeps life k (Puts k' v ttl) = (if k' = k \<and> 0 < ttl then Some (v, ttl) else None)"
| "keeps life k _ = None"

fun op_of :: "(string \<Rightarrow> 'v option \<Rightarrow> int) \<Rightarrow> int \<times> 'v cache_event \<Rightarrow> (string, 'v option \<times> int) cache_op list" where
  "op_of life (t, Asks k i) = [Look t k]"
| "op_of life (t, Loaded k v) = [Put t k (v, life k v)]"
| "op_of life (t, LoadFails k) = []"
| "op_of life (t, Puts k v ttl) = [Put t k (v, ttl)]"

lemma op_run_append: "micro.op_run bound (xs @ ys) c = micro.op_run bound ys (micro.op_run bound xs c)"
  by (simp add: micro.op_run_def)

lemma op_run_single:
  "micro.op_run bound [] c = c"
  "micro.op_run bound [Look t k] c = snd (cache_get t k c)"
  "micro.op_run bound [Put t k (v, ttl)] c = cache_set bound t k v ttl c"
  by (simp_all add: micro.op_run_def micro.op_step_def)

definition tidied :: "int \<Rightarrow> string \<Rightarrow> (string \<times> 'v option \<times> int) list \<Rightarrow> (string \<times> 'v option \<times> int) list" where
  "tidied t k es = (case jget es k of None \<Rightarrow> es | Some (v, expires) \<Rightarrow> if expires \<le> t then jdel k es else es)"

lemma cache_get_tidied: "mc_entries (snd (cache_get t k c)) = tidied t k (mc_entries c)"
  by (simp add: cache_get_def tidied_def split: option.split)

lemma cache_get_inflight: "mc_inflight (snd (cache_get t k c)) = mc_inflight c"
  by (simp add: cache_get_def split: option.split)

lemma cache_set_inflight: "mc_inflight (cache_set bound n k v ttl c) = mc_inflight c"
  by (simp add: cache_set_def)

lemma cache_ask_entries: "mc_entries (fst (cache_ask t k i c)) = tidied t k (mc_entries c)"
  by (simp add: cache_ask_def Let_def split_def cache_get_tidied split: option.split)

lemma step_entries:
  assumes "mc_entries c = mc_entries d"
  shows "mc_entries (fst (cache_step bound life e (c, out))) = mc_entries (micro.op_run bound (op_of life e) d)"
proof -
  obtain t f where e: "e = (t, f)" by (cases e)
  show ?thesis unfolding e
    by (cases f) (simp_all add: op_run_single split_def cache_ask_entries cache_get_tidied cache_set_entries
      cache_loaded_def cache_failed_def Let_def assms)
qed

lemma run_entries:
  "mc_entries (fst (cache_run bound life es)) = mc_entries (micro.op_run bound (concat (map (op_of life) es)) new_cache)"
proof (induction es rule: rev_induct)
  case (snoc e es)
  then show ?case
    using step_entries [of "fst (cache_run bound life es)" _ bound life e "snd (cache_run bound life es)"]
    by (simp add: cache_run_snoc op_run_append)
qed simp

lemma concat_singles:
  assumes "\<And>e. length (f e) \<le> 1" "concat (map f es) = xs @ p # ys"
  shows "\<exists>es1 e es2. es = es1 @ e # es2 \<and> f e = [p] \<and> concat (map f es2) = ys"
  using assms(2)
proof (induction es arbitrary: xs)
  case (Cons e es)
  consider "f e = []" | q where "f e = [q]" using assms(1) [of e] by (cases "f e") auto
  then show ?case
  proof cases
    case 1
    with Cons.prems have "concat (map f es) = xs @ p # ys" by simp
    from Cons.IH [OF this] show ?thesis by (metis append_Cons)
  next
    case 2
    show ?thesis
    proof (cases xs)
      case Nil
      with 2 Cons.prems have "e # es = [] @ e # es \<and> f e = [p] \<and> concat (map f es) = ys" by simp
      then show ?thesis by blast
    next
      case (Cons x xs')
      with 2 Cons.prems have "concat (map f es) = xs' @ p # ys" by simp
      from Cons.IH [OF this] show ?thesis by (metis append_Cons)
    qed
  qed
qed simp

lemma op_of_length: "length (op_of life e) \<le> 1"
  by (cases "(life, e)" rule: op_of.cases) auto

lemma op_of_keeps:
  "op_of life (n, e) = [Put m k (v, ttl)] \<Longrightarrow> 0 < ttl \<Longrightarrow> m = n \<and> keeps life k e = Some (v, ttl)"
  "keeps life k e = Some (v, ttl) \<Longrightarrow> Put n k (v, ttl) \<in> set (op_of life (n, e)) \<and> 0 < ttl"
  by (cases e; simp split: if_splits)+



section \<open>No caller is lost\<close>

definition askers :: "(int \<times> 'v cache_event) list \<Rightarrow> nat list" where
  "askers es = concat (map (\<lambda>(t, e). case e of Asks k i \<Rightarrow> [i] | _ \<Rightarrow> []) es)"

definition settled_callers :: "'v cache_output list \<Rightarrow> nat list" where
  "settled_callers out = concat (map (\<lambda>r. case r of Answers i v \<Rightarrow> [i] | Rejects i \<Rightarrow> [i] | StartsLoad k \<Rightarrow> []) out)"

definition waiting_callers :: "'v micro_cache \<Rightarrow> nat list" where
  "waiting_callers c = concat (map snd (mc_inflight c))"

text \<open>How often a load of a key was started, and how often one settled.\<close>

definition loads_started :: "string \<Rightarrow> 'v cache_output list \<Rightarrow> nat" where
  "loads_started k out = length (filter (\<lambda>r. case r of StartsLoad k' \<Rightarrow> k' = k | _ \<Rightarrow> False) out)"

definition loads_settled :: "string \<Rightarrow> (int \<times> 'v cache_event) list \<Rightarrow> nat" where
  "loads_settled k es = length (filter (\<lambda>(t, e). case e of Loaded k' v \<Rightarrow> k' = k | LoadFails k' \<Rightarrow> k' = k | _ \<Rightarrow> False) es)"

definition cache_inv :: "nat \<Rightarrow> (int \<times> 'v cache_event) list \<Rightarrow> 'v micro_cache \<times> 'v cache_output list \<Rightarrow> bool" where
  "cache_inv bound es s \<longleftrightarrow>
     jwf (mc_entries (fst s)) \<and> jwf (mc_inflight (fst s)) \<and> length (mc_entries (fst s)) \<le> max 1 bound \<and>
     mset (askers es) = mset (settled_callers (snd s)) + mset (waiting_callers (fst s)) \<and>
     (\<forall>k. loads_started k (snd s) \<le> loads_settled k es + (if jget (mc_inflight (fst s)) k = None then 0 else 1))"

lemma askers_snoc: "askers (es @ [(t, e)]) = askers es @ (case e of Asks k i \<Rightarrow> [i] | _ \<Rightarrow> [])"
  by (simp add: askers_def)

lemma settled_append [simp]:
  "settled_callers (xs @ ys) = settled_callers xs @ settled_callers ys"
  "settled_callers [] = []" "settled_callers [Answers i v] = [i]" "settled_callers [StartsLoad k] = []"
  "settled_callers (map (\<lambda>i. Answers i w) is) = is" "settled_callers (map Rejects is) = is"
  by (simp_all add: settled_callers_def comp_def)

lemma loads_append [simp]:
  "loads_started k (xs @ ys) = loads_started k xs + loads_started k ys"
  "loads_started k [] = 0" "loads_started k [Answers i v] = 0" "loads_started k [StartsLoad k'] = (if k' = k then 1 else 0)"
  "loads_started k (map (\<lambda>i. Answers i w) is) = 0" "loads_started k (map Rejects is) = 0"
  by (simp_all add: loads_started_def filter_empty_conv)

lemma loads_settled_snoc:
  "loads_settled k (es @ [(t, e)]) = loads_settled k es + (case e of Loaded k' v \<Rightarrow> if k' = k then 1 else 0 | LoadFails k' \<Rightarrow> if k' = k then 1 else 0 | _ \<Rightarrow> 0)"
  by (simp add: loads_settled_def split: cache_event.split)

lemma cache_ask_waiting:
  assumes "jwf (mc_inflight c)"
  shows "mset (settled_callers (snd (cache_ask t k i c))) + mset (waiting_callers (fst (cache_ask t k i c))) = mset (waiting_callers c) + {#i#}"
proof -
  have "mset (concat (map snd (jset k (jget_or [] m k @ [i]) m))) = mset (concat (map snd m)) + {#i#}" for m :: "(string \<times> nat list) list"
    using mset_concat_jset [of "\<lambda>x. x" k "jget_or [] m k @ [i]" m] by (auto simp: jget_or_def split: option.splits)
  from this [of "mc_inflight c"] show ?thesis
    by (auto simp: cache_ask_def Let_def split_def waiting_callers_def cache_get_inflight jget_or_def split: option.splits)
qed

lemma cache_ask_loads:
  "loads_started k' (snd (cache_ask t k i c)) + (if jget (mc_inflight c) k' = None then 0 else 1) \<le>
   (if jget (mc_inflight (fst (cache_ask t k i c))) k' = None then 0 else (1::nat))"
  by (auto simp: cache_ask_def Let_def split_def cache_get_inflight split: option.split)

lemma cache_ask_wf: "jwf (mc_inflight c) \<Longrightarrow> jwf (mc_inflight (fst (cache_ask t k i c)))"
  by (auto simp: cache_ask_def Let_def split_def cache_get_inflight split: option.split)

lemma tidied_ok: "jwf es \<Longrightarrow> jwf (tidied t k es) \<and> length (tidied t k es) \<le> length es"
  by (auto simp: tidied_def length_jdel simp del: map_of_eq_Some_iff split: option.split)

lemma cache_set_ok:
  assumes "jwf (mc_entries c)" "length (mc_entries c) \<le> max 1 bound"
  shows "jwf (mc_entries (cache_set bound n k v ttl c)) \<and> length (mc_entries (cache_set bound n k v ttl c)) \<le> max 1 bound"
proof -
  have "length (evict bound (mc_entries c)) < max 1 bound"
  proof (cases "bound = 0")
    case True
    with assms show ?thesis by (auto simp: evict_def length_jdel split: list.split)
  next
    case False
    with assms evict_length [of "mc_entries c" bound] show ?thesis by simp
  qed
  with assms evict_sub [OF assms(1), of bound] show ?thesis by (auto simp: cache_set_entries length_jset)
qed

lemma cache_step_inv:
  assumes "cache_inv bound es (c, out)"
  shows "cache_inv bound (es @ [(t, e)]) (cache_step bound life (t, e) (c, out))"
proof -
  note inv = assms [unfolded cache_inv_def fst_conv snd_conv]
  have less: "\<forall>k'. loads_started k' out \<le> loads_settled k' es + (if k = k' then 1 else 0) + (if jget (jdel k (mc_inflight c)) k' = None then 0 else 1)" for k
  proof
    fix k'
    have "loads_started k' out \<le> loads_settled k' es + (if jget (mc_inflight c) k' = None then 0 else 1)" using inv by blast
    then show "loads_started k' out \<le> loads_settled k' es + (if k = k' then 1 else 0) + (if jget (jdel k (mc_inflight c)) k' = None then 0 else 1)"
      by (cases "k = k'") (simp_all split: if_splits)
  qed
  note defs = cache_inv_def askers_snoc loads_settled_snoc split_def Let_def cache_set_inflight
  show ?thesis
  proof (cases e)
    case (Asks k i)
    have "mset (settled_callers (snd (cache_ask t k i c))) + mset (waiting_callers (fst (cache_ask t k i c))) = mset (waiting_callers c) + {#i#}"
      by (rule cache_ask_waiting) (use inv in blast)
    moreover have "loads_started k' out + loads_started k' (snd (cache_ask t k i c)) \<le>
        loads_settled k' es + (if jget (mc_inflight (fst (cache_ask t k i c))) k' = None then 0 else 1)" for k'
    proof -
      have "loads_started k' out \<le> loads_settled k' es + (if jget (mc_inflight c) k' = None then 0 else 1)" using inv by blast
      with cache_ask_loads [of k' t k i c] show ?thesis by linarith
    qed
    ultimately show ?thesis
      using inv Asks tidied_ok [of "mc_entries c" t k] by (simp add: defs cache_ask_entries cache_ask_wf ac_simps)
  next
    case (Loaded k v)
    have "mset (waiting_callers c) = mset (concat (map snd (jdel k (mc_inflight c)))) + mset (jget_or [] (mc_inflight c) k)"
      unfolding waiting_callers_def by (rule mset_concat_jdel) (use inv in blast)
    with inv less [of k] Loaded cache_set_ok [of c bound t k v "life k v"] show ?thesis
      by (simp add: defs cache_loaded_def waiting_callers_def ac_simps)
  next
    case (LoadFails k)
    have "mset (waiting_callers c) = mset (concat (map snd (jdel k (mc_inflight c)))) + mset (jget_or [] (mc_inflight c) k)"
      unfolding waiting_callers_def by (rule mset_concat_jdel) (use inv in blast)
    with inv less [of k] LoadFails show ?thesis by (simp add: defs cache_failed_def waiting_callers_def ac_simps)
  next
    case (Puts k v ttl)
    with inv cache_set_ok [of c bound t k v ttl] show ?thesis by (auto simp: defs waiting_callers_def)
  qed
qed

lemma cache_run_inv: "cache_inv bound es (cache_run bound life es)"
proof (induction es rule: rev_induct)
  case Nil
  show ?case by (simp add: cache_inv_def new_cache_def askers_def waiting_callers_def)
next
  case (snoc e es)
  then show ?case
    using cache_step_inv [of bound es "fst (cache_run bound life es)" "snd (cache_run bound life es)" "fst e" "snd e" life]
    by (simp add: cache_run_snoc)
qed

text \<open>
  C35: Over any run, every caller that asked has been answered exactly once or waits for a load in
  flight, so when no load is in flight every caller has its answer; a key has at most one load in flight
  at a time; and the cache stays within its bound.
\<close>

theorem micro_cache_serves_all:
  "mset (askers es) = mset (settled_callers (snd (cache_run bound life es))) + mset (waiting_callers (fst (cache_run bound life es))) \<and>
   loads_started k (snd (cache_run bound life es)) \<le> Suc (loads_settled k es) \<and>
   length (mc_entries (fst (cache_run bound life es))) \<le> max 1 bound"
proof -
  note inv = cache_run_inv [of bound es life, unfolded cache_inv_def]
  have "loads_started k (snd (cache_run bound life es)) \<le> loads_settled k es + (if jget (mc_inflight (fst (cache_run bound life es))) k = None then 0 else 1)"
    using inv by blast
  then have "loads_started k (snd (cache_run bound life es)) \<le> Suc (loads_settled k es)" by (simp split: if_splits)
  with inv show ?thesis by blast
qed

end
