(* ===== verification/FastPath.thy ===== *)
theory FastPath
  imports MicroCache Json
begin

text \<open>
  What a request may be answered with before a round trip (\<open>apps/gateway/src/fastpath.ts\<close>), and the
  edge's restatement of it (\<open>deploy/edge-worker/src/policy.mjs\<close>): the constants of the deployment, how
  long a result may be reused, the key it is kept under, and how the edge splits a batch into what it
  answers and what the origin must.
\<close>

section \<open>Static answers and lifetimes\<close>

definition block_ms :: int where "block_ms = 100"

definition head_tags :: "string list" where
  "head_tags = [''latest'', ''pending'', ''safe'', ''finalized'']"

definition idempotent_reads :: "string list" where
  "idempotent_reads =
     [''eth_blockNumber'', ''eth_chainId'', ''net_version'', ''eth_gasPrice'', ''eth_maxPriorityFeePerGas'',
      ''eth_feeHistory'', ''eth_getBalance'', ''eth_getCode'', ''eth_getStorageAt'', ''eth_getTransactionCount'',
      ''eth_call'', ''eth_estimateGas'', ''eth_getLogs'', ''eth_getBlockByNumber'', ''eth_getBlockByHash'',
      ''eth_getBlockReceipts'', ''eth_getTransactionReceipt'', ''eth_getTransactionByHash'',
      ''eth_getTransactionByBlockNumberAndIndex'', ''eth_syncing'', ''web3_clientVersion'']"

definition hex_str :: "int \<Rightarrow> string" where
  "hex_str n = ''0x'' @ (if n < 0 then CHR ''-'' # nat_str 16 (- n) else nat_str 16 n)"

definition static_answer :: "string \<Rightarrow> int \<Rightarrow> json option" where
  "static_answer m chain_id =
     (if m = ''eth_chainId'' then Some (Str (hex_str chain_id))
      else if m = ''net_version'' then Some (Str (to_str chain_id))
      else None)"

definition block_tag :: "json list \<Rightarrow> string" where
  "block_tag ps = lower (case ps of [] \<Rightarrow> ''latest'' | p # _ \<Rightarrow> if p = Null then ''latest'' else js_string (Some p))"

definition block_ttl :: "json list \<Rightarrow> json option \<Rightarrow> int" where
  "block_ttl ps result = (if block_tag ps \<in> set head_tags then block_ms else if nullish result then 0 else 60000)"

definition cache_ttl :: "string \<Rightarrow> json list \<Rightarrow> json option \<Rightarrow> int" where
  "cache_ttl m ps result =
     (if m = ''eth_blockNumber'' then block_ms
      else if m \<in> {''eth_gasPrice'', ''eth_maxPriorityFeePerGas'', ''eth_feeHistory''} then 1000
      else if m = ''eth_getBlockByNumber'' then block_ttl ps result
      else if m = ''eth_getBlockByHash'' then (if nullish result then 0 else 60000)
      else if m \<in> {''eth_getTransactionReceipt'', ''eth_getTransactionByHash''} then (if nullish result then 0 else 600000)
      else 0)"

definition cache_key :: "string \<Rightarrow> json list \<Rightarrow> string" where
  "cache_key m ps = m @ CHR '':'' # json_str (Arr ps)"

section \<open>The client's address\<close>

text \<open>A header is absent, a string, or a list of strings; \<open>trim\<close> of an absent value stays absent.\<close>

datatype header = NoHeader | OneHeader string | ManyHeaders "string list"

definition first_header :: "header \<Rightarrow> string option" where
  "first_header h = (case h of NoHeader \<Rightarrow> None | OneHeader s \<Rightarrow> Some s | ManyHeaders [] \<Rightarrow> None | ManyHeaders (s # _) \<Rightarrow> Some s)"

definition before_comma :: "string \<Rightarrow> string" where
  "before_comma s = takeWhile (\<lambda>c. c \<noteq> CHR '','') s"

definition client_ip :: "header \<Rightarrow> header \<Rightarrow> string option \<Rightarrow> string" where
  "client_ip cf fwd remote =
     (let cf_ip = (case first_header cf of None \<Rightarrow> [] | Some s \<Rightarrow> trim s) in
      if cf_ip \<noteq> [] then cf_ip
      else let hop = (case first_header fwd of None \<Rightarrow> [] | Some s \<Rightarrow> trim (before_comma s)) in
           if hop \<noteq> [] then hop
           else case remote of Some (c # cs) \<Rightarrow> c # cs | _ \<Rightarrow> ''unknown'')"

section \<open>The edge\<close>

definition edge_reads :: "string list" where
  "edge_reads =
     [''eth_blockNumber'', ''eth_gasPrice'', ''eth_maxPriorityFeePerGas'', ''eth_feeHistory'', ''eth_getBlockByNumber'',
      ''eth_getBlockByHash'', ''eth_getTransactionReceipt'', ''eth_getTransactionByHash'']"

text \<open>\<open>result.blockNumber == null\<close> of a result that is there.\<close>

definition unmined :: "json option \<Rightarrow> bool" where
  "unmined result = (case result of None \<Rightarrow> True | Some r \<Rightarrow> nullish (member ''blockNumber'' r))"

definition edge_ttl :: "string \<Rightarrow> json list \<Rightarrow> json option \<Rightarrow> int" where
  "edge_ttl m ps result =
     (if m = ''eth_blockNumber'' then block_ms
      else if m \<in> {''eth_gasPrice'', ''eth_maxPriorityFeePerGas'', ''eth_feeHistory''} then 1000
      else if m = ''eth_getBlockByNumber'' then block_ttl ps result
      else if m = ''eth_getBlockByHash'' then (if nullish result then 0 else 60000)
      else if m = ''eth_getTransactionReceipt'' then (if nullish result then 0 else 600000)
      else if m = ''eth_getTransactionByHash'' then (if nullish result \<or> unmined result then 0 else 600000)
      else 0)"

definition is_plain_read :: "json option \<Rightarrow> bool" where
  "is_plain_read m = (case m of Some (Str s) \<Rightarrow> s \<noteq> ''eth_sendRawTransaction'' \<and> \<not> starts_with ''ordo_'' s | _ \<Rightarrow> False)"

definition msg_method :: "json \<Rightarrow> string" where
  "msg_method msg = (case member ''method'' msg of Some (Str s) \<Rightarrow> s | _ \<Rightarrow> [])"

definition msg_params :: "json \<Rightarrow> json list" where
  "msg_params msg = (case member ''params'' msg of Some (Arr ps) \<Rightarrow> ps | _ \<Rightarrow> [])"

text \<open>A reply without an \<open>id\<close> (the member is \<open>undefined\<close>) is written without it.\<close>

definition reply :: "json \<Rightarrow> json \<Rightarrow> json" where
  "reply msg result =
     Obj ((''jsonrpc'', Str ''2.0'') # (case member ''id'' msg of None \<Rightarrow> [] | Some i \<Rightarrow> [(''id'', i)]) @ [(''result'', result)])"

definition edge_answer :: "int \<Rightarrow> (string \<Rightarrow> json option) \<Rightarrow> json \<Rightarrow> json option" where
  "edge_answer chain_id hit msg =
     (if is_plain_read (member ''method'' msg)
      then case static_answer (msg_method msg) chain_id of
             Some fixed \<Rightarrow> Some (reply msg fixed)
           | None \<Rightarrow> if msg_method msg \<in> set edge_reads
                     then map_option (reply msg) (hit (cache_key (msg_method msg) (msg_params msg)))
                     else None
      else None)"

text \<open>The positions are counted from \<open>i\<close>.\<close>

fun split_batch :: "int \<Rightarrow> (string \<Rightarrow> json option) \<Rightarrow> nat \<Rightarrow> json list \<Rightarrow> json option list \<times> json list \<times> nat list" where
  "split_batch chain_id hit i [] = ([], [], [])"
| "split_batch chain_id hit i (msg # batch) =
     (let (answered, forward, index) = split_batch chain_id hit (Suc i) batch in
      case edge_answer chain_id hit msg of
        Some r \<Rightarrow> (Some r # answered, forward, index)
      | None \<Rightarrow> (None # answered, msg # forward, i # index))"

text \<open>\<open>replies.forEach((r, j) => (answered[forwardIndex[j]] = r))\<close>.\<close>

fun merge_replies :: "json list \<Rightarrow> nat list \<Rightarrow> json option list \<Rightarrow> json option list" where
  "merge_replies (r # rs) (j # js) answered = merge_replies rs js (answered[j := Some r])"
| "merge_replies _ _ answered = answered"

text \<open>What is remembered of the origin's replies: the idempotent members that are no error.\<close>

definition remember_one :: "nat \<Rightarrow> int \<Rightarrow> json \<times> json \<Rightarrow> json micro_cache \<Rightarrow> json micro_cache" where
  "remember_one bound now = (\<lambda>(msg, r) c.
     if msg_method msg \<notin> set edge_reads \<or> r \<in> {Null, Bool False, Num 0, Str []} \<or>
        (case member ''error'' r of None \<Rightarrow> False | Some e \<Rightarrow> e \<notin> {Null, Bool False, Num 0, Str []})
     then c
     else cache_set bound now (cache_key (msg_method msg) (msg_params msg)) (member ''result'' r)
            (edge_ttl (msg_method msg) (msg_params msg) (member ''result'' r)) c)"

definition remember_replies :: "nat \<Rightarrow> int \<Rightarrow> json list \<Rightarrow> json list \<Rightarrow> json micro_cache \<Rightarrow> json micro_cache" where
  "remember_replies bound now msgs replies c = fold (remember_one bound now) (zip msgs replies) c"

section \<open>Keys\<close>

text \<open>
  Two requests share a cache entry only when they are the same request: the same method with the
  same parameters.
\<close>

theorem cache_key_injective:
  assumes "CHR '':'' \<notin> set m" "CHR '':'' \<notin> set m'" "cache_key m ps = cache_key m' ps'"
  shows "m = m' \<and> ps = ps'"
proof -
  have cut: "takeWhile (\<lambda>c. c \<noteq> CHR '':'') (x @ CHR '':'' # y) = x" if "CHR '':'' \<notin> set x" for x y
    using that by (induction x) auto
  have "m = m'" using cut [of m "json_str (Arr ps)"] cut [of m' "json_str (Arr ps')"] assms unfolding cache_key_def by metis
  moreover from this assms(3) have "json_str (Arr ps) = json_str (Arr ps')" by (simp only: cache_key_def append_same_eq same_append_eq list.inject)
  ultimately have "m = m'" "json_str (Arr ps) = json_str (Arr ps')" by blast+
  with json_str_inj [of "Arr ps" "Arr ps'"] show ?thesis by simp
qed

theorem cache_key_injective_witness:
  "cache_key ''eth_call'' [Str ''1''] \<noteq> cache_key ''eth_call'' [Num 1] \<and>
   cache_key ''eth_call'' [Str [CHR 0x22], Null] \<noteq> cache_key ''eth_call'' [Str [CHR 0x5C], Null]"
  using cache_key_injective [of "''eth_call''" "''eth_call''" "[Str ''1'']" "[Num 1]"]
    cache_key_injective [of "''eth_call''" "''eth_call''" "[Str [CHR 0x22], Null]" "[Str [CHR 0x5C], Null]"] by auto

section \<open>The edge agrees with the gateway\<close>

text \<open>
  C39: The edge keeps a result for exactly as long as the gateway, but for a transaction that is known and
  not yet mined: the edge does not keep it, and the gateway keeps it for ten minutes.
\<close>

theorem edge_ttl_agrees:
  "edge_ttl m ps result =
     (if m = ''eth_getTransactionByHash'' \<and> \<not> nullish result \<and> unmined result then 0 else cache_ttl m ps result) \<and>
   (m = ''eth_getTransactionByHash'' \<and> \<not> nullish result \<longrightarrow> cache_ttl m ps result = 600000)"
  by (simp add: edge_ttl_def cache_ttl_def)

theorem edge_ttl_agrees_witness:
  "edge_ttl ''eth_getTransactionByHash'' [] (Some (Obj [(''hash'', Str ''0x1''), (''blockNumber'', Null)])) = 0 \<and>
   cache_ttl ''eth_getTransactionByHash'' [] (Some (Obj [(''hash'', Str ''0x1''), (''blockNumber'', Null)])) = 600000"
  using edge_ttl_agrees [of "''eth_getTransactionByHash''" "[]" "Some (Obj [(''hash'', Str ''0x1''), (''blockNumber'', Null)])"]
  by (simp add: unmined_def)

section \<open>A batch at the edge\<close>

text \<open>What every message should get: the edge's own answer, or the origin's.\<close>

definition answer_each :: "int \<Rightarrow> (string \<Rightarrow> json option) \<Rightarrow> (json \<Rightarrow> json) \<Rightarrow> json list \<Rightarrow> json option list" where
  "answer_each chain_id hit origin batch =
     map (\<lambda>msg. case edge_answer chain_id hit msg of Some r \<Rightarrow> Some r | None \<Rightarrow> Some (origin msg)) batch"

lemma split_batch_shape:
  "split_batch chain_id hit i batch = (answered, forward, index) \<Longrightarrow>
     answered = map (edge_answer chain_id hit) batch \<and>
     forward = filter (\<lambda>msg. edge_answer chain_id hit msg = None) batch \<and>
     length index = length forward"
proof (induction batch arbitrary: i answered forward index)
  case (Cons msg batch)
  obtain a f x where s: "split_batch chain_id hit (Suc i) batch = (a, f, x)" by (cases "split_batch chain_id hit (Suc i) batch") auto
  from Cons.IH [OF s] Cons.prems s show ?case by (auto split: option.splits)
qed simp

lemma merge_shift: "merge_replies rs (map Suc js) (x # xs) = x # merge_replies rs js xs"
  by (induction rs js xs rule: merge_replies.induct) auto

lemma split_shift:
  "split_batch chain_id hit (Suc i) batch = (case split_batch chain_id hit i batch of (a, f, x) \<Rightarrow> (a, f, map Suc x))"
  by (induction batch arbitrary: i) (auto split: option.split prod.splits)

text \<open>
  When the origin answers the forwarded messages in order, every message of the batch gets its own
  answer in its own place, the edge's or the origin's; and a send or an \<open>ordo_\<close> method is always
  forwarded.
\<close>

theorem edge_batch_in_place:
  assumes "split_batch chain_id hit 0 batch = (answered, forward, index)"
  shows "merge_replies (map origin forward) index answered = answer_each chain_id hit origin batch \<and>
         (\<forall>msg \<in> set batch. msg_method msg = ''eth_sendRawTransaction'' \<or> starts_with ''ordo_'' (msg_method msg) \<longrightarrow> msg \<in> set forward)"
proof
  show "merge_replies (map origin forward) index answered = answer_each chain_id hit origin batch"
    using assms
  proof (induction batch arbitrary: answered forward index)
    case (Cons msg batch)
    obtain a f x where s: "split_batch chain_id hit 0 batch = (a, f, x)" by (cases "split_batch chain_id hit 0 batch") auto
    from Cons.IH [OF s] Cons.prems s show ?case
      by (auto simp: split_shift answer_each_def merge_shift split: option.splits)
  qed (simp add: answer_each_def)
  have "edge_answer chain_id hit msg = None" if "msg_method msg = ''eth_sendRawTransaction'' \<or> starts_with ''ordo_'' (msg_method msg)" for msg
    using that by (auto simp: edge_answer_def is_plain_read_def msg_method_def split: option.splits json.splits)
  then show "\<forall>msg \<in> set batch. msg_method msg = ''eth_sendRawTransaction'' \<or> starts_with ''ordo_'' (msg_method msg) \<longrightarrow> msg \<in> set forward"
    using split_batch_shape [OF assms] by simp
qed

definition demo_call :: "string \<Rightarrow> int \<Rightarrow> json" where
  "demo_call m i = Obj [(''jsonrpc'', Str ''2.0''), (''id'', Num i), (''method'', Str m), (''params'', Arr [])]"

theorem edge_batch_in_place_witness:
  "merge_replies (map (\<lambda>msg. reply msg (Str ''0xhash'')) [demo_call ''eth_sendRawTransaction'' 1]) [0]
     [None, Some (reply (demo_call ''eth_chainId'' 2) (Str ''0x1237''))]
   = [Some (reply (demo_call ''eth_sendRawTransaction'' 1) (Str ''0xhash'')), Some (reply (demo_call ''eth_chainId'' 2) (Str ''0x1237''))]"
proof -
  have s: "split_batch 4663 (\<lambda>_. None) 0 [demo_call ''eth_sendRawTransaction'' 1, demo_call ''eth_chainId'' 2] =
      ([None, Some (reply (demo_call ''eth_chainId'' 2) (Str ''0x1237''))], [demo_call ''eth_sendRawTransaction'' 1], [0])"
    by code_simp
  have "answer_each 4663 (\<lambda>_. None) (\<lambda>msg. reply msg (Str ''0xhash'')) [demo_call ''eth_sendRawTransaction'' 1, demo_call ''eth_chainId'' 2] =
     [Some (reply (demo_call ''eth_sendRawTransaction'' 1) (Str ''0xhash'')), Some (reply (demo_call ''eth_chainId'' 2) (Str ''0x1237''))]"
    by code_simp
  with edge_batch_in_place [OF s, of "\<lambda>msg. reply msg (Str ''0xhash'')"] show ?thesis by metis
qed

end
