(* ===== verification/LoadLimits.thy ===== *)
theory LoadLimits
  imports Prelude Complex_Main
begin

text \<open>
  What bounds the load one client, or the gateway itself, puts on the upstream: the fixed-window rate
  limiter (\<open>class RateLimiter\<close>, \<open>apps/gateway/src/config.ts\<close>), the cap on requests in flight
  (\<open>class InflightCap\<close>, \<open>fastpath.ts\<close>) and the budget of hedges (\<open>class HedgeBudget\<close>, \<open>fastpath.ts\<close>).
\<close>

section \<open>The rate limiter\<close>

record rate_window =
  rw_count :: int
  rw_reset :: int

type_synonym rate_limiter = "(string \<times> rate_window) list"

text \<open>The answer is \<open>ok\<close> and \<open>retryAfterMs\<close>.\<close>

definition rate_check :: "int \<Rightarrow> string \<Rightarrow> int \<Rightarrow> rate_limiter \<Rightarrow> (bool \<times> int) \<times> rate_limiter" where
  "rate_check now k limit ws =
     (if limit \<le> 0 then ((True, 0), ws)
      else let fresh = ((True, 0), jset k \<lparr>rw_count = 1, rw_reset = now + 60000\<rparr> ws) in
           case jget ws k of
             None \<Rightarrow> fresh
           | Some w \<Rightarrow>
               if now \<ge> rw_reset w then fresh
               else if rw_count w \<ge> limit then ((False, rw_reset w - now), ws)
               else ((True, 0), jset k (w\<lparr>rw_count := rw_count w + 1\<rparr>) ws))"

text \<open>Requests of several keys in order, each with its time; how many of a key's were let through.\<close>

fun rate_run :: "(string \<Rightarrow> int) \<Rightarrow> (int \<times> string) list \<Rightarrow> rate_limiter \<Rightarrow> (string \<times> bool) list \<times> rate_limiter" where
  "rate_run limit [] ws = ([], ws)"
| "rate_run limit ((now, k) # rs) ws =
     (let ((ok, _), ws1) = rate_check now k (limit k) ws;
          (out, ws2) = rate_run limit rs ws1 in
      ((k, ok) # out, ws2))"

definition passed :: "string \<Rightarrow> (string \<times> bool) list \<Rightarrow> int" where
  "passed k out = int (length (filter (\<lambda>(k', ok). k' = k \<and> ok) out))"

lemma passed_simps [simp]:
  "passed k [] = 0" "passed k ((k', ok) # out) = (if k' = k \<and> ok then 1 else 0) + passed k out"
  by (simp_all add: passed_def)

text \<open>What a key may still be let through before a time, from the state of its window.\<close>

definition allowance :: "int \<Rightarrow> int \<Rightarrow> rate_window option \<Rightarrow> int" where
  "allowance limit end w =
     (case w of None \<Rightarrow> limit
      | Some w \<Rightarrow> (if rw_count w < limit then limit - rw_count w else 0) + (if rw_reset w < end then limit else 0))"

lemma rate_check_allowance:
  assumes "rate_check now k (limit k) ws = ((ok, r), ws1)" "0 < limit k'" "end \<le> now + 60000" "now < end"
  shows "(if k = k' \<and> ok then 1 else 0) + allowance (limit k') end (jget ws1 k') \<le> allowance (limit k') end (jget ws k')"
proof (cases "k = k'")
  case False
  then have "jget ws1 k' = jget ws k'"
    using assms(1) by (auto simp: rate_check_def Let_def split: option.splits if_splits)
  with False show ?thesis by simp
next
  case True
  show ?thesis
    using assms True by (auto simp: rate_check_def allowance_def Let_def split: option.splits if_splits)
qed

lemma rate_run_allowance:
  assumes "rate_run limit rs ws = (out, ws')" "0 < limit k" "\<forall>(t, j) \<in> set rs. start \<le> t \<and> t < start + 60000"
  shows "passed k out \<le> allowance (limit k) (start + 60000) (jget ws k)"
  using assms(1,3)
proof (induction rs arbitrary: ws out ws')
  case Nil
  then show ?case using assms(2) by (auto simp: allowance_def split: option.split)
next
  case (Cons p rs)
  obtain t j where p: "p = (t, j)" by (cases p)
  obtain ok r ws1 where c: "rate_check t j (limit j) ws = ((ok, r), ws1)" by (metis prod.exhaust)
  obtain out1 ws2 where o: "rate_run limit rs ws1 = (out1, ws2)" by (cases "rate_run limit rs ws1")
  from Cons.prems p c o have out: "out = (j, ok) # out1" by simp
  have "passed k out1 \<le> allowance (limit k) (start + 60000) (jget ws1 k)"
    using Cons.IH [OF o] Cons.prems(2) by simp
  moreover have "(if j = k \<and> ok then 1 else 0) + allowance (limit k) (start + 60000) (jget ws1 k) \<le> allowance (limit k) (start + 60000) (jget ws k)"
    by (rule rate_check_allowance [OF c assms(2)]) (use Cons.prems(2) p in auto)
  ultimately show ?case using out by simp
qed

text \<open>
  In any sixty seconds a key is let through at most twice its limit, whatever happened before and
  whatever the other keys do (the windows are fixed, so a burst may straddle two of them).
\<close>

theorem rate_limit_bound:
  assumes "rate_run limit rs ws = (out, ws')" "0 < limit k" "\<forall>(t, j) \<in> set rs. start \<le> t \<and> t < start + 60000"
    and "\<forall>w. jget ws k = Some w \<longrightarrow> 0 \<le> rw_count w"
  shows "passed k out \<le> 2 * limit k"
proof -
  have "passed k out \<le> allowance (limit k) (start + 60000) (jget ws k)" by (rule rate_run_allowance [OF assms(1,2,3)])
  also have "\<dots> \<le> 2 * limit k" using assms(2,4) by (auto simp: allowance_def split: option.split)
  finally show ?thesis .
qed

theorem rate_limit_bound_witness:
  "passed ''a'' (fst (rate_run (\<lambda>_. 2) [(10, ''a''), (20, ''a''), (30, ''a''), (59000, ''a'')] [(''a'', \<lparr>rw_count = 0, rw_reset = 25\<rparr>)])) = 4 \<and>
   (4::int) \<le> 2 * 2"
proof -
  let ?run = "rate_run (\<lambda>_. 2) [(10, ''a''), (20, ''a''), (30, ''a''), (59000, ''a'')] [(''a'', \<lparr>rw_count = 0, rw_reset = 25\<rparr>)]"
  have p: "passed ''a'' (fst ?run) = 4" by code_simp
  have "passed ''a'' (fst ?run) \<le> 2 * 2"
    by (rule rate_limit_bound [where start = 10 and ws' = "snd ?run" and limit = "\<lambda>_. 2" and k = "''a''", OF prod.collapse [symmetric]]) auto
  with p show ?thesis by simp
qed

section \<open>The cap on requests in flight\<close>

text \<open>
  \<open>cp_held\<close> are the slots that were handed out and whose releaser has not run yet: a releaser that runs
  again does nothing. A caller is a number; a waiter whose timer fires leaves the queue.
\<close>

record cap_state =
  cp_counts :: "(string \<times> nat) list"
  cp_waiters :: "(string \<times> nat list) list"
  cp_held :: "(nat \<times> string) list"

datatype cap_event = Acquire string nat | Expire string nat | Release nat

datatype cap_output = Granted nat | Refused nat

definition new_cap :: cap_state where
  "new_cap = \<lparr>cp_counts = [], cp_waiters = [], cp_held = []\<rparr>"

definition cap_acquire :: "nat \<Rightarrow> string \<Rightarrow> nat \<Rightarrow> cap_state \<Rightarrow> cap_state \<times> cap_output list" where
  "cap_acquire bound k i s =
     (if bound = 0 then (s, [Granted i])
      else if jget_or 0 (cp_counts s) k < bound
      then (s\<lparr>cp_counts := jset k (jget_or 0 (cp_counts s) k + 1) (cp_counts s), cp_held := (i, k) # cp_held s\<rparr>, [Granted i])
      else (s\<lparr>cp_waiters := jset k (jget_or [] (cp_waiters s) k @ [i]) (cp_waiters s)\<rparr>, []))"

definition set_queue :: "string \<Rightarrow> nat list \<Rightarrow> cap_state \<Rightarrow> cap_state" where
  "set_queue k q s = s\<lparr>cp_waiters := (if q = [] then jdel k (cp_waiters s) else jset k q (cp_waiters s))\<rparr>"

definition cap_expire :: "string \<Rightarrow> nat \<Rightarrow> cap_state \<Rightarrow> cap_state \<times> cap_output list" where
  "cap_expire k i s =
     (let q = jget_or [] (cp_waiters s) k in
      if i \<in> set q then (set_queue k (remove1 i q) s, [Refused i]) else (s, []))"

definition put_count :: "string \<Rightarrow> nat \<Rightarrow> (string \<times> nat) list \<Rightarrow> (string \<times> nat) list" where
  "put_count k m cs = (if m = 0 then jdel k cs else jset k m cs)"

definition cap_release :: "nat \<Rightarrow> cap_state \<Rightarrow> cap_state \<times> cap_output list" where
  "cap_release i s =
     (case jget (cp_held s) i of
        None \<Rightarrow> (s, [])
      | Some k \<Rightarrow>
          let s1 = s\<lparr>cp_held := remove1 (i, k) (cp_held s)\<rparr> in
          case jget_or [] (cp_waiters s) k of
            j # q \<Rightarrow> ((set_queue k q s1)\<lparr>cp_held := (j, k) # cp_held s1\<rparr>, [Granted j])
          | [] \<Rightarrow>
              (s1\<lparr>cp_counts := put_count k (jget_or 1 (cp_counts s) k - 1) (cp_counts s)\<rparr>, []))"

fun cap_step :: "nat \<Rightarrow> cap_event \<Rightarrow> cap_state \<times> cap_output list \<Rightarrow> cap_state \<times> cap_output list" where
  "cap_step bound e (s, out) =
     (let (s', new) = (case e of Acquire k i \<Rightarrow> cap_acquire bound k i s | Expire k i \<Rightarrow> cap_expire k i s | Release i \<Rightarrow> cap_release i s) in
      (s', out @ new))"

definition cap_run :: "nat \<Rightarrow> cap_event list \<Rightarrow> cap_state \<times> cap_output list" where
  "cap_run bound es = fold (cap_step bound) es (new_cap, [])"

definition cap_inflight :: "string \<Rightarrow> cap_state \<Rightarrow> nat" where
  "cap_inflight k s = jget_or 0 (cp_counts s) k"

definition cap_waiting :: "string \<Rightarrow> cap_state \<Rightarrow> nat" where
  "cap_waiting k s = length (jget_or [] (cp_waiters s) k)"

definition slots :: "string \<Rightarrow> cap_state \<Rightarrow> nat" where
  "slots k s = length (filter (\<lambda>(i, k'). k' = k) (cp_held s))"

definition cap_inv :: "nat \<Rightarrow> cap_state \<Rightarrow> bool" where
  "cap_inv bound s \<longleftrightarrow>
     (\<forall>k. slots k s = cap_inflight k s \<and> cap_inflight k s \<le> bound \<and> (cap_waiting k s \<noteq> 0 \<longrightarrow> cap_inflight k s = bound))"

lemma slots_remove:
  "(i, k) \<in> set hs \<Longrightarrow>
     length (filter (\<lambda>(i, k'). k' = j) (remove1 (i, k) hs)) = length (filter (\<lambda>(i, k'). k' = j) hs) - (if j = k then 1 else 0)"
proof (induction hs)
  case (Cons h hs)
  have "k = j \<Longrightarrow> (i, k) \<in> set hs \<Longrightarrow> 0 < length (filter (\<lambda>(i, k'). k' = j) hs)"
    by (auto simp: filter_empty_conv)
  with Cons show ?case by auto
qed simp

lemma cap_acquire_inv: "cap_inv bound s \<Longrightarrow> cap_inv bound (fst (cap_acquire bound k i s))"
proof -
  assume inv: "cap_inv bound s"
  have "\<not> jget_or 0 (cp_counts s) k < bound \<Longrightarrow> jget_or 0 (cp_counts s) k = bound"
    using inv by (simp add: cap_inv_def cap_inflight_def le_antisym not_less)
  with inv show ?thesis
    by (auto simp: cap_acquire_def cap_inv_def cap_inflight_def cap_waiting_def slots_def)
qed

lemma queue_fields [simp]:
  "cp_counts (set_queue k q s) = cp_counts s" "cp_held (set_queue k q s) = cp_held s"
  "jget_or [] (cp_waiters (set_queue k q s)) k' = (if k' = k then q else jget_or [] (cp_waiters s) k')"
  by (auto simp: set_queue_def jget_or_def)

lemma put_count [simp]: "jget_or 0 (put_count k m cs) k' = (if k' = k then m else jget_or 0 cs k')"
  by (simp add: put_count_def)

lemma jget_or_pred: "jget_or (Suc 0) cs k - Suc 0 = jget_or 0 cs k - Suc 0"
  by (simp add: jget_or_def split: option.split)

lemma cap_expire_inv: "cap_inv bound s \<Longrightarrow> cap_inv bound (fst (cap_expire k i s))"
proof (cases "i \<in> set (jget_or [] (cp_waiters s) k)")
  case True
  assume inv: "cap_inv bound s"
  from True have "cap_waiting k s \<noteq> 0" by (auto simp: cap_waiting_def)
  with inv have "jget_or 0 (cp_counts s) k = bound" unfolding cap_inv_def cap_inflight_def by blast
  with inv True show ?thesis
    by (simp add: cap_expire_def cap_inv_def cap_inflight_def cap_waiting_def slots_def Let_def)
qed (simp add: cap_expire_def Let_def)

lemma cap_release_inv:
  assumes "cap_inv bound s"
  shows "cap_inv bound (fst (cap_release i s))"
proof (cases "jget (cp_held s) i")
  case None
  with assms show ?thesis by (simp add: cap_release_def)
next
  case (Some k)
  then have m: "(i, k) \<in> set (cp_held s)" by (rule map_of_SomeD)
  then have pos: "0 < slots k s" by (auto simp: slots_def filter_empty_conv)
  show ?thesis
  proof (cases "jget_or [] (cp_waiters s) k")
    case Nil
    have "slots j (fst (cap_release i s)) = slots j s - (if j = k then 1 else 0)" for j
      using Some Nil slots_remove [OF m, of j] by (simp add: cap_release_def slots_def Let_def)
    moreover have "cap_inflight j (fst (cap_release i s)) = cap_inflight j s - (if j = k then 1 else 0)" for j
      using Some Nil by (simp add: cap_release_def cap_inflight_def Let_def jget_or_pred)
    moreover have "cap_waiting j (fst (cap_release i s)) = cap_waiting j s" for j
      using Some Nil by (simp add: cap_release_def cap_waiting_def Let_def)
    moreover have "cap_waiting k s = 0" using Nil by (simp add: cap_waiting_def)
    moreover have "cap_inflight k s - Suc 0 \<le> bound" using assms unfolding cap_inv_def by (meson diff_le_self le_trans)
    ultimately show ?thesis using assms pos unfolding cap_inv_def by auto
  next
    case (Cons j q)
    have "slots l (fst (cap_release i s)) = slots l s" for l
      using Some Cons slots_remove [OF m, of l] pos by (auto simp: cap_release_def slots_def Let_def)
    moreover have "cap_inflight l (fst (cap_release i s)) = cap_inflight l s" for l
      using Some Cons by (simp add: cap_release_def cap_inflight_def Let_def)
    moreover have "cap_waiting l (fst (cap_release i s)) \<noteq> 0 \<Longrightarrow> cap_waiting l s \<noteq> 0" for l
      using Some Cons by (auto simp: cap_release_def cap_waiting_def Let_def split: if_splits)
    ultimately show ?thesis using assms by (auto simp: cap_inv_def)
  qed
qed

lemma cap_run_inv: "cap_inv bound (fst (cap_run bound es))"
proof -
  have "cap_inv bound s \<Longrightarrow> cap_inv bound (fst (fold (cap_step bound) es (s, out)))" for s out
  proof (induction es arbitrary: s out)
    case (Cons e es)
    have "cap_inv bound (fst (cap_step bound e (s, out)))"
      using Cons.prems by (cases e) (simp_all add: split_def Let_def cap_acquire_inv cap_expire_inv cap_release_inv)
    then show ?case using Cons.IH [of "fst (cap_step bound e (s, out))" "snd (cap_step bound e (s, out))"] by simp
  qed simp
  moreover have "cap_inv bound new_cap"
    by (simp add: cap_inv_def new_cap_def slots_def cap_inflight_def cap_waiting_def jget_or_def)
  ultimately show ?thesis unfolding cap_run_def .
qed

text \<open>
  Over any run of acquisitions, timeouts and releases (releases repeated or not), what is counted for
  a client is exactly the slots it holds, it never exceeds the cap, and nobody waits while a slot is free.
\<close>

theorem inflight_cap_exact:
  "slots k (fst (cap_run bound es)) = cap_inflight k (fst (cap_run bound es)) \<and>
   cap_inflight k (fst (cap_run bound es)) \<le> bound \<and>
   (cap_inflight k (fst (cap_run bound es)) = bound \<or> cap_waiting k (fst (cap_run bound es)) = 0)"
  using cap_run_inv [of bound es] by (auto simp: cap_inv_def)

section \<open>The budget of hedges\<close>

text \<open>
  The buckets are seconds. The ratio is a decimal such as 0.1; the code multiplies it as a double, which
  for a count and the configured ratio compares as the rational does.
\<close>

record hedge_bucket =
  hb_at :: int
  hb_reads :: int
  hb_hedges :: int

record hedge_cfg =
  hc_ratio :: rat
  hc_floor :: int
  hc_window :: int

definition second_of :: "int \<Rightarrow> int" where
  "second_of now = now div 1000 * 1000"

definition current_bucket :: "hedge_cfg \<Rightarrow> int \<Rightarrow> hedge_bucket list \<Rightarrow> hedge_bucket list" where
  "current_bucket cfg now bs =
     (if bs \<noteq> [] \<and> hb_at (last bs) = second_of now then bs
      else dropWhile (\<lambda>b. hb_at b < second_of now - hc_window cfg)
             (bs @ [\<lparr>hb_at = second_of now, hb_reads = 0, hb_hedges = 0\<rparr>]))"

definition map_last :: "('a \<Rightarrow> 'a) \<Rightarrow> 'a list \<Rightarrow> 'a list" where
  "map_last f xs = (if xs = [] then [] else butlast xs @ [f (last xs)])"

definition hedge_read :: "hedge_cfg \<Rightarrow> int \<Rightarrow> hedge_bucket list \<Rightarrow> hedge_bucket list" where
  "hedge_read cfg now bs = map_last (\<lambda>b. b\<lparr>hb_reads := hb_reads b + 1\<rparr>) (current_bucket cfg now bs)"

definition try_hedge :: "hedge_cfg \<Rightarrow> int \<Rightarrow> hedge_bucket list \<Rightarrow> bool \<times> hedge_bucket list" where
  "try_hedge cfg now bs0 =
     (let bs = current_bucket cfg now bs0;
          reads = sum_list (map hb_reads bs);
          hedges = sum_list (map hb_hedges bs) in
      if hedges \<ge> hc_floor cfg \<and> of_int (hedges + 1) > of_int reads * hc_ratio cfg then (False, bs)
      else (True, map_last (\<lambda>b. b\<lparr>hb_hedges := hb_hedges b + 1\<rparr>) (current_bucket cfg now bs)))"

datatype hedge_event = ARead int | ATry int

definition event_second :: "hedge_event \<Rightarrow> int" where
  "event_second e = second_of (case e of ARead t \<Rightarrow> t | ATry t \<Rightarrow> t)"

text \<open>The run keeps what happened: the reads, and the hedges that were allowed.\<close>

fun hedge_step :: "hedge_cfg \<Rightarrow> hedge_event \<Rightarrow> hedge_bucket list \<times> (int \<times> bool) list \<Rightarrow> hedge_bucket list \<times> (int \<times> bool) list" where
  "hedge_step cfg (ARead t) (bs, hist) = (hedge_read cfg t bs, hist @ [(second_of t, False)])"
| "hedge_step cfg (ATry t) (bs, hist) =
     (let (ok, bs1) = try_hedge cfg t bs in (bs1, if ok then hist @ [(second_of t, True)] else hist))"

definition hedge_run :: "hedge_cfg \<Rightarrow> hedge_event list \<Rightarrow> hedge_bucket list \<times> (int \<times> bool) list" where
  "hedge_run cfg es = fold (hedge_step cfg) es ([], [])"

text \<open>The reads, or the hedges, since a second.\<close>

definition since :: "int \<Rightarrow> bool \<Rightarrow> (int \<times> bool) list \<Rightarrow> int" where
  "since c h hist = int (length (filter (\<lambda>(s, h'). c \<le> s \<and> h' = h) hist))"

lemma since_simps [simp]:
  "since c h [] = 0" "since c h (hist @ [(s, h')]) = since c h hist + (if c \<le> s \<and> h' = h then 1 else 0)"
  by (auto simp: since_def)

definition bucket_since :: "int \<Rightarrow> bool \<Rightarrow> hedge_bucket list \<Rightarrow> int" where
  "bucket_since c h bs = sum_list (map (if h then hb_hedges else hb_reads) (filter (\<lambda>b. c \<le> hb_at b) bs))"

lemma bucket_since_append [simp]:
  "bucket_since c h (xs @ ys) = bucket_since c h xs + bucket_since c h ys" "bucket_since c h [] = 0"
  by (simp_all add: bucket_since_def)

text \<open>
  The buckets are in order and none is newer than the last event; over every span inside the window
  they hold exactly what happened.
\<close>

definition hedge_inv :: "hedge_cfg \<Rightarrow> int \<Rightarrow> hedge_bucket list \<times> (int \<times> bool) list \<Rightarrow> bool" where
  "hedge_inv cfg now s \<longleftrightarrow>
     sorted (map hb_at (fst s)) \<and> (\<forall>b \<in> set (fst s). hb_at b \<le> now \<and> hb_at (last (fst s)) - hc_window cfg \<le> hb_at b) \<and> (\<forall>p \<in> set (snd s). fst p \<le> now) \<and>
     (\<forall>c h. now - hc_window cfg \<le> c \<longrightarrow> bucket_since c h (fst s) = since c h (snd s))"

lemma drop_old:
  "sorted (map hb_at bs) \<Longrightarrow> dropWhile (\<lambda>b. hb_at b < c) bs = filter (\<lambda>b. c \<le> hb_at b) bs"
  by (induction bs) (auto intro!: filter_True [symmetric])

lemma since_late: "\<forall>p \<in> set hist. fst p < c \<Longrightarrow> since c h hist = 0"
  by (auto simp: since_def filter_empty_conv)

lemma current_inv:
  assumes inv: "hedge_inv cfg t0 (bs, hist)" and t: "t0 \<le> second_of now" and w: "0 \<le> hc_window cfg"
  shows "hedge_inv cfg (second_of now) (current_bucket cfg now bs, hist) \<and> current_bucket cfg now bs \<noteq> [] \<and>
         hb_at (last (current_bucket cfg now bs)) = second_of now"
proof (cases "bs \<noteq> [] \<and> hb_at (last bs) = second_of now")
  case True
  from inv have "\<forall>b \<in> set bs. hb_at b \<le> t0" by (simp add: hedge_inv_def)
  with True have "second_of now \<le> t0" using last_in_set by metis
  with t have "t0 = second_of now" by simp
  with inv True show ?thesis by (simp add: current_bucket_def)
next
  case False
  let ?n = "\<lparr>hb_at = second_of now, hb_reads = 0, hb_hedges = 0\<rparr>" and ?c = "second_of now - hc_window cfg"
  have s: "sorted (map hb_at (bs @ [?n]))" using inv t by (auto simp: hedge_inv_def sorted_append)
  have cur: "current_bucket cfg now bs = filter (\<lambda>b. ?c \<le> hb_at b) bs @ [?n]"
    using False drop_old [OF s, of ?c] w by (auto simp: current_bucket_def)
  have "bucket_since c h (filter (\<lambda>b. ?c \<le> hb_at b) bs) = bucket_since c h bs" if "?c \<le> c" for c h
  proof -
    have "filter (\<lambda>b. c \<le> hb_at b) (filter (\<lambda>b. ?c \<le> hb_at b) bs) = filter (\<lambda>b. c \<le> hb_at b) bs"
      using that by (simp, intro filter_cong) auto
    then show ?thesis by (simp only: bucket_since_def)
  qed
  moreover have "bucket_since c h [?n] = 0" for c h by (simp add: bucket_since_def)
  ultimately have span: "bucket_since c h (current_bucket cfg now bs) = since c h hist" if "?c \<le> c" for c h
    using inv t that unfolding cur by (simp add: hedge_inv_def)
  have sorted: "sorted (map hb_at (current_bucket cfg now bs))"
    using s unfolding cur by (auto simp: sorted_append sorted_filter)
  have bounds: "\<forall>b \<in> set (current_bucket cfg now bs). hb_at b \<le> second_of now \<and> hb_at (last (current_bucket cfg now bs)) - hc_window cfg \<le> hb_at b"
    using inv t w unfolding cur by (auto simp: hedge_inv_def)
  have "\<forall>p \<in> set hist. fst p \<le> second_of now" using inv t by (auto simp: hedge_inv_def)
  with span sorted bounds show ?thesis unfolding hedge_inv_def fst_conv snd_conv by (simp add: cur)
qed

lemma map_last_since:
  assumes "bs \<noteq> []" "\<And>b. hb_at (f b) = hb_at b"
  shows "bucket_since c h (map_last f bs) = bucket_since c h bs +
      (if c \<le> hb_at (last bs) then (if h then hb_hedges (f (last bs)) - hb_hedges (last bs) else hb_reads (f (last bs)) - hb_reads (last bs)) else 0)"
    and "map hb_at (map_last f bs) = map hb_at bs"
proof -
  obtain xs x where b: "bs = xs @ [x]" using assms(1) by (cases bs rule: rev_exhaust) auto
  show "bucket_since c h (map_last f bs) = bucket_since c h bs +
      (if c \<le> hb_at (last bs) then (if h then hb_hedges (f (last bs)) - hb_hedges (last bs) else hb_reads (f (last bs)) - hb_reads (last bs)) else 0)"
    unfolding b map_last_def by (simp, simp add: bucket_since_def assms(2))
  show "map hb_at (map_last f bs) = map hb_at bs"
    unfolding b map_last_def by (simp add: assms(2))
qed

lemma map_last_inv:
  assumes inv: "hedge_inv cfg now (bs, hist)" and ne: "bs \<noteq> []" "hb_at (last bs) = now"
    and f: "\<And>b. hb_at (f b) = hb_at b"
      "\<And>b h. (if h then hb_hedges (f b) - hb_hedges b else hb_reads (f b) - hb_reads b) = (if h = k then 1 else 0)"
  shows "hedge_inv cfg now (map_last f bs, hist @ [(now, k)])"
proof -
  note m = map_last_since [OF ne(1) f(1)]
  have "\<forall>a \<in> set (map hb_at bs). a \<le> now \<and> last (map hb_at bs) - hc_window cfg \<le> a"
    using inv ne(1) by (simp add: hedge_inv_def last_map)
  moreover have "map_last f bs \<noteq> []" using ne(1) m(2) by auto
  ultimately have "\<forall>b \<in> set (map_last f bs). hb_at b \<le> now \<and> hb_at (last (map_last f bs)) - hc_window cfg \<le> hb_at b"
    unfolding m(2) [symmetric] by (simp add: last_map)
  moreover have "bucket_since c h (map_last f bs) = since c h (hist @ [(now, k)])" if "now - hc_window cfg \<le> c" for c h
    using inv that m(1) [of c h] f(2) [of h "last bs"] ne(2) by (auto simp: hedge_inv_def split: if_splits)
  ultimately show ?thesis using inv m(2) by (simp add: hedge_inv_def)
qed

lemma hedge_inv_mono: "hedge_inv cfg t s \<Longrightarrow> t \<le> t' \<Longrightarrow> hedge_inv cfg t' s"
  unfolding hedge_inv_def by fastforce

lemma current_again:
  "bs \<noteq> [] \<Longrightarrow> hb_at (last bs) = second_of now \<Longrightarrow> current_bucket cfg now bs = bs"
  by (simp add: current_bucket_def)

lemma hedge_step_inv:
  assumes "hedge_inv cfg t0 s" "t0 \<le> event_second e" "0 \<le> hc_window cfg"
  shows "hedge_inv cfg (event_second e) (hedge_step cfg e s)"
proof -
  obtain bs hist where s: "s = (bs, hist)" by (cases s)
  show ?thesis
  proof (cases e)
    case (ARead t)
    with assms s have c: "hedge_inv cfg (second_of t) (current_bucket cfg t bs, hist)" "current_bucket cfg t bs \<noteq> []"
      "hb_at (last (current_bucket cfg t bs)) = second_of t" using current_inv [of cfg t0 bs hist t] by (auto simp: event_second_def)
    show ?thesis unfolding ARead s using map_last_inv [OF c, of "\<lambda>b. b\<lparr>hb_reads := hb_reads b + 1\<rparr>" False]
      by (simp add: hedge_read_def event_second_def)
  next
    case (ATry t)
    with assms s have c: "hedge_inv cfg (second_of t) (current_bucket cfg t bs, hist)" "current_bucket cfg t bs \<noteq> []"
      "hb_at (last (current_bucket cfg t bs)) = second_of t" using current_inv [of cfg t0 bs hist t] by (auto simp: event_second_def)
    show ?thesis unfolding ATry s using c(1) map_last_inv [OF c, of "\<lambda>b. b\<lparr>hb_hedges := hb_hedges b + 1\<rparr>" True]
      by (simp add: try_hedge_def Let_def current_again [OF c(2,3)] event_second_def)
  qed
qed

lemma hedge_run_inv:
  assumes "0 \<le> hc_window cfg"
  shows "sorted (map event_second es) \<Longrightarrow> \<forall>e \<in> set es. event_second e \<le> t \<Longrightarrow> hedge_inv cfg t (hedge_run cfg es)"
proof (induction es arbitrary: t rule: rev_induct)
  case Nil
  show ?case by (simp add: hedge_run_def hedge_inv_def)
next
  case (snoc e es)
  then have "hedge_inv cfg (event_second e) (hedge_run cfg es)" by (auto simp: sorted_append)
  from hedge_step_inv [OF this order_refl assms] have "hedge_inv cfg (event_second e) (hedge_run cfg (es @ [e]))"
    by (simp add: hedge_run_def)
  with snoc.prems(2) show ?case using hedge_inv_mono by auto
qed

text \<open>
  Whenever a hedge is allowed, the hedges of the rolling window, that one included, are within the
  floor or within the configured share of the reads of the same window, counted from what really
  happened.
\<close>

theorem hedge_budget_bound:
  assumes "sorted (map event_second (es @ [ATry t]))" "0 \<le> hc_window cfg"
    and "snd (hedge_run cfg (es @ [ATry t])) = snd (hedge_run cfg es) @ [(second_of t, True)]"
  shows "since (second_of t - hc_window cfg) True (snd (hedge_run cfg (es @ [ATry t]))) \<le> hc_floor cfg \<or>
         of_int (since (second_of t - hc_window cfg) True (snd (hedge_run cfg (es @ [ATry t])))) \<le>
         of_int (since (second_of t - hc_window cfg) False (snd (hedge_run cfg es))) * hc_ratio cfg"
proof -
  obtain bs hist where s: "hedge_run cfg es = (bs, hist)" by (cases "hedge_run cfg es")
  let ?b = "current_bucket cfg t bs" and ?c = "second_of t - hc_window cfg"
  have "\<forall>e \<in> set es. event_second e \<le> second_of t" "sorted (map event_second es)" using assms(1) by (auto simp: sorted_append event_second_def)
  with hedge_run_inv [OF assms(2)] have "hedge_inv cfg (second_of t) (bs, hist)" using s by metis
  from current_inv [OF this order_refl assms(2)] have i: "hedge_inv cfg (second_of t) (?b, hist)" by simp
  have "\<forall>b \<in> set ?b. ?c \<le> hb_at b"
    using i current_inv [OF \<open>hedge_inv cfg (second_of t) (bs, hist)\<close> order_refl assms(2)] by (auto simp: hedge_inv_def)
  then have all: "filter (\<lambda>b. ?c \<le> hb_at b) ?b = ?b" by simp
  have "bucket_since ?c h ?b = since ?c h hist" for h using i by (simp add: hedge_inv_def)
  from this [of True] this [of False] have r: "sum_list (map hb_hedges ?b) = since ?c True hist" "sum_list (map hb_reads ?b) = since ?c False hist"
    by (simp_all add: bucket_since_def all)
  have "fst (try_hedge cfg t bs)" using assms(3) s by (simp add: hedge_run_def split_def Let_def split: if_splits)
  then have "since ?c True hist < hc_floor cfg \<or> of_int (since ?c True hist + 1) \<le> of_int (since ?c False hist) * hc_ratio cfg"
    by (auto simp: try_hedge_def Let_def r split: if_splits)
  moreover have "since ?c True (snd (hedge_run cfg (es @ [ATry t]))) = since ?c True hist + 1"
    unfolding assms(3) using s assms(2) by simp
  ultimately show ?thesis using s by auto
qed

definition demo_hedge :: hedge_cfg where
  "demo_hedge = \<lparr>hc_ratio = 1 / 10, hc_floor = 20, hc_window = 10000\<rparr>"

theorem hedge_budget_bound_witness:
  "since (1000 - 10000) True (snd (hedge_run demo_hedge [ARead 1000, ATry 1100])) \<le> 20 \<or>
   of_int (since (1000 - 10000) True (snd (hedge_run demo_hedge [ARead 1000, ATry 1100]))) \<le>
   of_int (since (1000 - 10000) False (snd (hedge_run demo_hedge [ARead 1000]))) * (1 / 10 :: rat)"
proof -
  have "snd (hedge_run demo_hedge ([ARead 1000] @ [ATry 1100])) = snd (hedge_run demo_hedge [ARead 1000]) @ [(second_of 1100, True)]"
    by (simp add: hedge_run_def hedge_read_def try_hedge_def current_bucket_def map_last_def second_of_def demo_hedge_def Let_def)
  from hedge_budget_bound [OF _ _ this] show ?thesis by (simp add: event_second_def second_of_def demo_hedge_def)
qed

end
