(* ===== verification/Hedging.thy ===== *)
theory Hedging
  imports Main
begin

text \<open>
  The race of a read against its hedge (\<open>hedged\<close>, \<open>apps/gateway/src/fastpath.ts\<close>). The variables of the
  closure are the state; the timer, the settling of the primary and the settling of the hedge are the
  steps. Which of them can still happen is the runtime's part: a cleared timer does not fire, and a
  promise settles once.
\<close>

datatype ('e, 'v) attempt = Fulfilled 'v | Rejected 'e

datatype hedge_note = Fired | Won | Withheld

record ('e, 'v) race =
  rc_settled :: bool
  rc_primary_error :: "'e option"
  rc_hedge_started :: bool
  rc_hedge_done :: bool
  rc_timer :: bool
  rc_result :: "('e, 'v) attempt option"
  rc_notes :: "hedge_note list"
  rc_primary :: "('e, 'v) attempt option"
  rc_hedge :: "('e, 'v) attempt option"

definition new_race :: "('e, 'v) race" where
  "new_race =
     \<lparr>rc_settled = False, rc_primary_error = None, rc_hedge_started = False, rc_hedge_done = False, rc_timer = True,
      rc_result = None, rc_notes = [], rc_primary = None, rc_hedge = None\<rparr>"

definition race_settle :: "('e, 'v) attempt \<Rightarrow> ('e, 'v) race \<Rightarrow> ('e, 'v) race" where
  "race_settle r s = s\<lparr>rc_settled := True, rc_result := Some r\<rparr>"

definition add_note :: "hedge_note \<Rightarrow> ('e, 'v) race \<Rightarrow> ('e, 'v) race" where
  "add_note n s = s\<lparr>rc_notes := rc_notes s @ [n]\<rparr>"

text \<open>The timer's callback; \<open>may\<close> is the answer of \<open>mayHedge\<close>.\<close>

definition timer_fires :: "bool \<Rightarrow> ('e, 'v) race \<Rightarrow> ('e, 'v) race" where
  "timer_fires may s0 =
     (let s = s0\<lparr>rc_timer := False\<rparr> in
      if rc_settled s then s
      else if \<not> may then add_note Withheld s
      else add_note Fired (s\<lparr>rc_hedge_started := True\<rparr>))"

definition hedge_settles :: "('e, 'v) attempt \<Rightarrow> ('e, 'v) race \<Rightarrow> ('e, 'v) race" where
  "hedge_settles r s0 =
     (let s = s0\<lparr>rc_hedge_done := True, rc_hedge := Some r\<rparr> in
      case r of
        Fulfilled v \<Rightarrow> if rc_settled s then s else race_settle (Fulfilled v) (add_note Won s)
      | Rejected _ \<Rightarrow>
          if \<not> rc_settled s \<and> rc_primary_error s \<noteq> None then race_settle (Rejected (the (rc_primary_error s))) s else s)"

definition primary_settles :: "('e, 'v) attempt \<Rightarrow> ('e, 'v) race \<Rightarrow> ('e, 'v) race" where
  "primary_settles r s0 =
     (let s = s0\<lparr>rc_timer := False, rc_primary := Some r\<rparr> in
      case r of
        Fulfilled v \<Rightarrow> if rc_settled s then s else race_settle (Fulfilled v) s
      | Rejected e \<Rightarrow>
          let s1 = s\<lparr>rc_primary_error := Some e\<rparr> in
          if rc_settled s1 then s1
          else if \<not> rc_hedge_started s1 \<or> rc_hedge_done s1 then race_settle (Rejected e) s1 else s1)"

inductive race_step :: "('e, 'v) race \<Rightarrow> ('e, 'v) race \<Rightarrow> bool" where
  fire: "rc_timer s \<Longrightarrow> race_step s (timer_fires may s)"
| primary: "rc_primary s = None \<Longrightarrow> race_step s (primary_settles r s)"
| hedge: "rc_hedge_started s \<Longrightarrow> rc_hedge s = None \<Longrightarrow> race_step s (hedge_settles r s)"

inductive race_reach :: "('e, 'v) race \<Rightarrow> bool" where
  start: "race_reach new_race"
| step: "race_reach s \<Longrightarrow> race_step s t \<Longrightarrow> race_reach t"

inductive_cases race_stepE: "race_step s t"

lemmas race_defs = timer_fires_def hedge_settles_def primary_settles_def race_settle_def add_note_def Let_def

section \<open>The race always ends\<close>

text \<open>What the closure knows is what happened, and nothing is left hanging.\<close>

definition race_inv :: "('e, 'v) race \<Rightarrow> bool" where
  "race_inv s \<longleftrightarrow>
     (rc_settled s \<longleftrightarrow> rc_result s \<noteq> None) \<and>
     (rc_hedge_done s \<longleftrightarrow> rc_hedge s \<noteq> None) \<and>
     rc_primary_error s = (case rc_primary s of Some (Rejected e) \<Rightarrow> Some e | _ \<Rightarrow> None) \<and>
     (rc_primary s \<noteq> None \<longrightarrow> \<not> rc_timer s) \<and> (rc_timer s \<longrightarrow> \<not> rc_hedge_started s) \<and>
     (rc_hedge s \<noteq> None \<longrightarrow> rc_hedge_started s) \<and>
     (\<forall>v. rc_result s = Some (Fulfilled v) \<longrightarrow> rc_primary s = Some (Fulfilled v) \<or> rc_hedge s = Some (Fulfilled v)) \<and>
     (\<forall>e. rc_result s = Some (Rejected e) \<longrightarrow>
        rc_primary s = Some (Rejected e) \<and> (rc_hedge_started s \<longrightarrow> (\<exists>e'. rc_hedge s = Some (Rejected e')))) \<and>
     (rc_primary s \<noteq> None \<and> (rc_hedge_started s \<longrightarrow> rc_hedge s \<noteq> None) \<longrightarrow> rc_result s \<noteq> None) \<and>
     (\<forall>v. rc_primary s = Some (Fulfilled v) \<or> rc_hedge s = Some (Fulfilled v) \<longrightarrow> rc_result s \<noteq> None) \<and>
     (Fired \<in> set (rc_notes s) \<longleftrightarrow> rc_hedge_started s)"

lemma new_race_inv: "race_inv new_race"
  by (simp add: race_inv_def new_race_def)

lemma fire_inv: "race_inv s \<Longrightarrow> rc_timer s \<Longrightarrow> race_inv (timer_fires may s)"
  by (auto simp: race_inv_def race_defs)

lemma hedge_inv: "race_inv s \<Longrightarrow> rc_hedge_started s \<Longrightarrow> rc_hedge s = None \<Longrightarrow> race_inv (hedge_settles r s)"
  by (cases r) (auto simp: race_inv_def race_defs split: option.splits attempt.splits)

lemma primary_inv:
  assumes "race_inv s" "rc_primary s = None"
  shows "race_inv (primary_settles r s)"
proof (cases "rc_hedge s")
  case None
  with assms show ?thesis by (cases r) (auto simp: race_inv_def race_defs)
next
  case (Some h)
  with assms show ?thesis by (cases r; cases h) (auto simp: race_inv_def race_defs)
qed

lemma reach_inv: "race_reach s \<Longrightarrow> race_inv s"
proof (induction rule: race_reach.induct)
  case (step s t)
  from step.hyps(2) show ?case
    by (cases rule: race_stepE) (auto intro: fire_inv hedge_inv primary_inv step.IH)
qed (rule new_race_inv)

text \<open>
  Once the primary has settled, and the hedge too if it was fired, the caller has an answer. An answer
  is what an attempt returned; an error is the primary's, and only when every attempt that was made has
  failed.
\<close>

theorem hedged_outcome:
  assumes "race_reach s"
  shows "(rc_primary s \<noteq> None \<and> (rc_hedge_started s \<longrightarrow> rc_hedge s \<noteq> None) \<longrightarrow> rc_result s \<noteq> None) \<and>
         (\<forall>v. rc_result s = Some (Fulfilled v) \<longrightarrow> rc_primary s = Some (Fulfilled v) \<or> rc_hedge s = Some (Fulfilled v)) \<and>
         (\<forall>e. rc_result s = Some (Rejected e) \<longrightarrow>
            rc_primary s = Some (Rejected e) \<and> (rc_hedge_started s \<longrightarrow> (\<exists>e'. rc_hedge s = Some (Rejected e')))) \<and>
         (\<forall>v. rc_primary s = Some (Fulfilled v) \<or> rc_hedge s = Some (Fulfilled v) \<longrightarrow> rc_result s \<noteq> None)"
  using reach_inv [OF assms] unfolding race_inv_def by blast

text \<open>The primary fails while the hedge runs, and the hedge answers.\<close>

definition demo_race :: "(string, int) race" where
  "demo_race = hedge_settles (Fulfilled 7) (primary_settles (Rejected ''timeout'') (timer_fires True new_race))"

lemma demo_reach: "race_reach demo_race"
  unfolding demo_race_def
  by (intro race_reach.step [OF _ race_step.hedge] race_reach.step [OF _ race_step.primary] race_reach.step [OF _ race_step.fire] race_reach.start)
    (simp_all add: race_defs new_race_def)

theorem hedged_outcome_witness: "rc_result demo_race = Some (Fulfilled 7) \<and> rc_primary demo_race = Some (Rejected ''timeout'')"
proof -
  have "rc_primary demo_race = Some (Rejected ''timeout'')" "rc_hedge demo_race = Some (Fulfilled 7)" "rc_hedge_started demo_race"
    by (simp_all add: demo_race_def race_defs new_race_def)
  moreover from this hedged_outcome [OF demo_reach] obtain r where "rc_result demo_race = Some r" by auto
  ultimately show ?thesis using hedged_outcome [OF demo_reach] by (cases r) auto
qed

text \<open>An answer that was given is never taken back.\<close>

lemma settled_once: "race_step s t \<Longrightarrow> race_inv s \<Longrightarrow> rc_result s = Some r \<Longrightarrow> rc_result t = Some r"
  by (elim race_stepE) (auto simp: race_inv_def race_defs split: attempt.splits)

end
