(* ===== verification/Upstream.thy ===== *)
theory Upstream
  imports Json
begin

text \<open>
  JSON-RPC over the upstreams (\<open>packages/core/src/index.ts\<close>): how one reply is read, which errors are a
  reason to ask another upstream, the rotation of reads over the configured list, and the private path
  of a signed transaction. The transport is a parameter: \<open>post n url\<close> is what the \<open>n\<close>-th request of a
  call meets when it is posted to \<open>url\<close>. The cursor is shared by the calls of a process; a call is
  modelled without another one moving it meanwhile.
\<close>

section \<open>Text\<close>

text \<open>Some suffix of a text has a property; \<open>.\<close> of a pattern is any character but a line break.\<close>

fun suffix_ex :: "(string \<Rightarrow> bool) \<Rightarrow> string \<Rightarrow> bool" where
  "suffix_ex P [] = P []"
| "suffix_ex P (c # s) = (P (c # s) \<or> suffix_ex P s)"

definition line_break :: "char \<Rightarrow> bool" where
  "line_break c = (c = CHR 0x0A \<or> c = CHR 0x0D)"

fun split_on :: "char \<Rightarrow> string \<Rightarrow> string list" where
  "split_on d [] = [[]]"
| "split_on d (c # s) =
     (if c = d then [] # split_on d s else case split_on d s of [] \<Rightarrow> [[c]] | w # ws \<Rightarrow> (c # w) # ws)"

section \<open>Configuration\<close>

definition normalize_private_key :: "string option \<Rightarrow> int + string option" where
  "normalize_private_key value =
     (let trimmed = (case value of None \<Rightarrow> [] | Some v \<Rightarrow> trim v) in
      if trimmed = [] then Inr None
      else let with_prefix = (if starts_with ''0x'' trimmed then trimmed else ''0x'' @ trimmed) in
           if \<not> is_hex 64 with_prefix then Inl (int (length trimmed)) else Inr (Some with_prefix))"

definition official_rpc :: string where "official_rpc = ''https://rpc.mainnet.chain.robinhood.com''"
definition default_sequencer :: string where "default_sequencer = ''https://sequencer.mainnet.chain.robinhood.com''"

record rpc_env =
  en_rpc_urls :: "string option"
  en_rpc_url :: "string option"
  en_sequencer :: "string option"

definition or_else :: "'a option \<Rightarrow> 'a option \<Rightarrow> 'a option" where
  "or_else a b = (case a of None \<Rightarrow> b | Some x \<Rightarrow> Some x)"

definition rpc_urls :: "rpc_env \<Rightarrow> string list" where
  "rpc_urls env =
     (let raw = the (or_else (en_rpc_urls env) (or_else (en_rpc_url env) (Some official_rpc))) in
      filter (\<lambda>u. u \<noteq> []) (map trim (split_on CHR '','' raw)))"

definition sequencer_url :: "rpc_env \<Rightarrow> string" where
  "sequencer_url env =
     (let v = (case en_sequencer env of None \<Rightarrow> [] | Some s \<Rightarrow> trim s) in if v \<noteq> [] then v else default_sequencer)"

section \<open>One call\<close>

text \<open>An error as the callers see it; the ones of the RPC level carry a code, and maybe data.\<close>

record upstream_error =
  ue_rpc_level :: bool
  ue_code :: "json option"
  ue_message :: string
  ue_data :: "json option"

definition transport_error :: "string \<Rightarrow> upstream_error" where
  "transport_error m = \<lparr>ue_rpc_level = False, ue_code = None, ue_message = m, ue_data = None\<rparr>"

text \<open>A reply is a failure of \<open>fetch\<close>, or a status with a body that is JSON or not.\<close>

datatype http_reply = NetFail string | HttpReply int "json option"

definition truthy :: "json option \<Rightarrow> bool" where
  "truthy v = (v \<notin> {None, Some Null, Some (Bool False), Some (Num 0), Some (Str [])})"

definition read_reply :: "http_reply \<Rightarrow> upstream_error + json option" where
  "read_reply r =
     (case r of
        NetFail m \<Rightarrow> Inl (transport_error m)
      | HttpReply status None \<Rightarrow> Inl (transport_error (''HTTP '' @ to_str status @ '' non-JSON''))
      | HttpReply status (Some body) \<Rightarrow>
          if body = Null then Inl (transport_error ''Cannot read properties of null'')
          else if truthy (member ''error'' body)
          then let err = the (member ''error'' body);
                   throttled = (status = 429 \<or> status = 402 \<or> status \<ge> 500) in
               Inl \<lparr>ue_rpc_level = True,
                    ue_code = Some (if throttled then Num 429
                                    else if nullish (member ''code'' err) then Num (- 32000) else the (member ''code'' err)),
                    ue_message = (if nullish (member ''message'' err) then ''upstream error'' else js_string (member ''message'' err)),
                    ue_data = member ''data'' err\<rparr>
          else if \<not> (200 \<le> status \<and> status < 300) \<and> member ''result'' body = None
          then Inl (transport_error (''HTTP '' @ to_str status))
          else Inr (member ''result'' body))"

definition says_rate_limit :: "string \<Rightarrow> bool" where
  "says_rate_limit t =
     (starts_with ''rate'' t \<and>
      (starts_with ''limit'' (drop 4 t) \<or> (drop 4 t \<noteq> [] \<and> \<not> line_break (hd (drop 4 t)) \<and> starts_with ''limit'' (drop 5 t))))"

definition says_exceeded :: "string \<Rightarrow> bool" where
  "says_exceeded t = (starts_with ''exceeded the '' t \<and> str_includes ''limit'' (takeWhile (\<lambda>c. \<not> line_break c) (drop 13 t)))"

definition is_retryable :: "upstream_error \<Rightarrow> bool" where
  "is_retryable e =
     (ue_code e = Some (Num (- 32005)) \<or> ue_code e = Some (Num 429) \<or>
      (let m = lower (ue_message e) in
       suffix_ex says_rate_limit m \<or> str_includes ''rps limit'' m \<or> suffix_ex says_exceeded m \<or>
       list_ex (\<lambda>w. str_includes w m)
         [''quota'', ''too many requests'', ''throttl'', ''capacity'', ''try again'', ''archive'', ''personal token'']))"

text \<open>A real answer: an error another upstream would not change.\<close>

definition final_error :: "upstream_error \<Rightarrow> bool" where
  "final_error e = (ue_rpc_level e \<and> \<not> is_retryable e)"

section \<open>Reads\<close>

type_synonym post_fn = "nat \<Rightarrow> string \<Rightarrow> http_reply"

record cursor_state =
  cs_cursor :: nat
  cs_left_at :: int

datatype round_end =
    Answered nat "json option"
  | Refuses upstream_error
  | AllFailed upstream_error bool
  | NothingTried

text \<open>
  The inner loop: the upstreams from the cursor on, \<open>i\<close> of them tried; \<open>n\<close> counts the requests of the
  call, and the result comes with that count.
\<close>

fun try_urls :: "post_fn \<Rightarrow> string list \<Rightarrow> nat \<Rightarrow> nat \<Rightarrow> nat \<Rightarrow> nat \<Rightarrow> upstream_error option \<Rightarrow> bool \<Rightarrow> nat \<times> round_end" where
  "try_urls post urls cur 0 i n err throttled =
     (n, case err of None \<Rightarrow> NothingTried | Some e \<Rightarrow> AllFailed e throttled)"
| "try_urls post urls cur (Suc left) i n err throttled =
     (let idx = (cur + i) mod length urls in
      case read_reply (post n (urls ! idx)) of
        Inr result \<Rightarrow> (Suc n, Answered idx result)
      | Inl e \<Rightarrow> if final_error e then (Suc n, Refuses e)
                 else try_urls post urls cur left (Suc i) (Suc n) (Some e) (throttled \<and> is_retryable e))"

definition throttle_retries :: nat where "throttle_retries = 2"

text \<open>The rounds: another one only when every upstream throttled in this one.\<close>

fun fetch_rounds :: "post_fn \<Rightarrow> string list \<Rightarrow> nat \<Rightarrow> nat \<Rightarrow> nat \<Rightarrow> nat \<times> round_end" where
  "fetch_rounds post urls cur 0 n = try_urls post urls cur (length urls) 0 n None (urls \<noteq> [])"
| "fetch_rounds post urls cur (Suc extra) n =
     (case try_urls post urls cur (length urls) 0 n None (urls \<noteq> []) of
        (m, AllFailed e True) \<Rightarrow> fetch_rounds post urls cur extra m
      | r \<Rightarrow> r)"

definition sticky_ms :: int where "sticky_ms = 30000"

definition start_cursor :: "int \<Rightarrow> cursor_state \<Rightarrow> cursor_state" where
  "start_cursor now s = (if cs_cursor s \<noteq> 0 \<and> now - cs_left_at s > sticky_ms then s\<lparr>cs_cursor := 0\<rparr> else s)"

text \<open>\<open>now\<close> is the time of the call, \<open>later\<close> that of the answer.\<close>

definition rpc_fetch :: "rpc_env \<Rightarrow> post_fn \<Rightarrow> int \<Rightarrow> int \<Rightarrow> cursor_state \<Rightarrow> (upstream_error + json option) \<times> cursor_state" where
  "rpc_fetch env post now later s0 =
     (let s = start_cursor now s0 in
      case snd (fetch_rounds post (rpc_urls env) (cs_cursor s) throttle_retries 0) of
        Answered idx result \<Rightarrow>
          (Inr result, \<lparr>cs_cursor = idx, cs_left_at = (if idx \<noteq> 0 \<and> cs_cursor s = 0 then later else cs_left_at s)\<rparr>)
      | Refuses e \<Rightarrow> (Inl e, s)
      | AllFailed e _ \<Rightarrow> (Inl e, s)
      | NothingTried \<Rightarrow> (Inl (transport_error ''no RPC upstream configured''), s))"

section \<open>Sends\<close>

text \<open>\<open>host\<close> is the host name of a URL, or \<^const>\<open>None\<close> where \<open>new URL\<close> throws.\<close>

definition relay_words :: "string list" where
  "relay_words =
     [''publicnode'', ''llamarpc'', ''ankr.com'', ''drpc.org'', ''blastapi'', ''alchemy'', ''infura'', ''quicknode'', ''chainstack'']"

definition is_public_relay :: "(string \<Rightarrow> string option) \<Rightarrow> string \<Rightarrow> bool" where
  "is_public_relay host url =
     (case host url of None \<Rightarrow> True | Some h \<Rightarrow> list_ex (\<lambda>w. str_includes w (lower h)) relay_words)"

definition add_url :: "(string \<Rightarrow> string option) \<Rightarrow> string list \<Rightarrow> string option \<Rightarrow> string list" where
  "add_url host out raw =
     (let url = (case raw of None \<Rightarrow> [] | Some r \<Rightarrow> trim r) in
      if url = [] \<or> is_public_relay host url \<or> url \<in> set out then out else out @ [url])"

definition private_send_urls :: "(string \<Rightarrow> string option) \<Rightarrow> rpc_env \<Rightarrow> string list" where
  "private_send_urls host env =
     foldl (add_url host) [] [Some (sequencer_url env), en_rpc_url env, Some official_rpc]"

text \<open>The loop of \<open>sendRawTransaction\<close>, with the URLs the transaction was posted to.\<close>

fun send_urls :: "post_fn \<Rightarrow> nat \<Rightarrow> string list \<Rightarrow> upstream_error option \<Rightarrow> string list \<times> (upstream_error + json option)" where
  "send_urls post n [] err =
     ([], Inl (case err of Some e \<Rightarrow> e | None \<Rightarrow> transport_error ''ordo: no private send path configured''))"
| "send_urls post n (u # us) err =
     (case read_reply (post n u) of
        Inr result \<Rightarrow> ([u], Inr result)
      | Inl e \<Rightarrow> if final_error e then ([u], Inl e)
                 else (case send_urls post (Suc n) us (Some e) of (seen, r) \<Rightarrow> (u # seen, r)))"

definition send_raw_transaction :: "(string \<Rightarrow> string option) \<Rightarrow> rpc_env \<Rightarrow> post_fn \<Rightarrow> string list \<times> (upstream_error + json option)" where
  "send_raw_transaction host env post = send_urls post 0 (private_send_urls host env) None"

section \<open>A signed transaction stays private\<close>

lemma add_url_ok:
  "distinct out \<and> (\<forall>u \<in> set out. \<not> is_public_relay host u) \<Longrightarrow>
   distinct (add_url host out raw) \<and> (\<forall>u \<in> set (add_url host out raw). \<not> is_public_relay host u)"
  by (auto simp: add_url_def Let_def)

lemma private_urls_ok:
  "distinct (private_send_urls host env) \<and> (\<forall>u \<in> set (private_send_urls host env). \<not> is_public_relay host u)"
  unfolding private_send_urls_def foldl.simps by (intro add_url_ok) simp

lemma send_urls_trace:
  assumes "send_urls post n us err = (seen, r)"
  shows "\<exists>rest. us = seen @ rest \<and>
     (\<forall>i. Suc i < length seen \<longrightarrow> (\<exists>e. read_reply (post (n + i) (seen ! i)) = Inl e \<and> \<not> final_error e)) \<and>
     (rest \<noteq> [] \<longrightarrow> seen \<noteq> [] \<and> read_reply (post (n + length seen - 1) (last seen)) = r \<and> (\<forall>e. r = Inl e \<longrightarrow> final_error e)) \<and>
     (\<forall>v. r = Inr v \<longrightarrow> seen \<noteq> [] \<and> read_reply (post (n + length seen - 1) (last seen)) = Inr v)"
  using assms
proof (induction us arbitrary: n err seen r)
  case (Cons u us)
  show ?case
  proof (cases "read_reply (post n u)")
    case (Inr v)
    with Cons.prems show ?thesis by (intro exI [of _ us]) auto
  next
    case (Inl e)
    show ?thesis
    proof (cases "final_error e")
      case True
      with Inl Cons.prems show ?thesis by (intro exI [of _ us]) auto
    next
      case False
      obtain seen' r' where s: "send_urls post (Suc n) us (Some e) = (seen', r')" by (cases "send_urls post (Suc n) us (Some e)")
      with Inl False Cons.prems have e: "seen = u # seen'" "r = r'" by auto
      from Cons.IH [OF s] obtain rest where ih: "us = seen' @ rest"
        "\<And>i. Suc i < length seen' \<Longrightarrow> \<exists>e. read_reply (post (Suc n + i) (seen' ! i)) = Inl e \<and> \<not> final_error e"
        "rest \<noteq> [] \<Longrightarrow> seen' \<noteq> [] \<and> read_reply (post (Suc n + length seen' - 1) (last seen')) = r' \<and> (\<forall>e. r' = Inl e \<longrightarrow> final_error e)"
        "\<And>v. r' = Inr v \<Longrightarrow> seen' \<noteq> [] \<and> read_reply (post (Suc n + length seen' - 1) (last seen')) = Inr v" by blast
      have "\<exists>e. read_reply (post (n + i) (seen ! i)) = Inl e \<and> \<not> final_error e" if "Suc i < length seen" for i
        using that ih(2) [of "i - 1"] Inl False e by (cases i) auto
      with ih e show ?thesis by (intro exI [of _ rest]) auto
    qed
  qed
qed auto

text \<open>
  C27: A signed transaction is posted only to URLs that are no public relay, to each at most once and in
  the fixed order; another hop sees it only after the one before failed without a definite answer, and
  once a hop gave its answer no other hop sees it.
\<close>

theorem private_send_safe:
  assumes "send_raw_transaction host env post = (seen, r)"
  shows "(\<exists>rest. private_send_urls host env = seen @ rest \<and>
            (rest \<noteq> [] \<longrightarrow> read_reply (post (length seen - 1) (last seen)) = r \<and> (\<forall>e. r = Inl e \<longrightarrow> final_error e))) \<and>
         distinct seen \<and> (\<forall>u \<in> set seen. \<not> is_public_relay host u) \<and>
         (\<forall>i. Suc i < length seen \<longrightarrow> (\<exists>e. read_reply (post i (seen ! i)) = Inl e \<and> \<not> final_error e))"
proof -
  from send_urls_trace [OF assms [unfolded send_raw_transaction_def]] obtain rest where
    r: "private_send_urls host env = seen @ rest"
      "\<forall>i. Suc i < length seen \<longrightarrow> (\<exists>e. read_reply (post i (seen ! i)) = Inl e \<and> \<not> final_error e)"
      "rest \<noteq> [] \<longrightarrow> read_reply (post (length seen - 1) (last seen)) = r \<and> (\<forall>e. r = Inl e \<longrightarrow> final_error e)"
    by auto
  then show ?thesis using private_urls_ok [of host env] by auto
qed

definition demo_rpc :: rpc_env where
  "demo_rpc = \<lparr>en_rpc_urls = None, en_rpc_url = Some ''https://x.publicnode.com'', en_sequencer = None\<rparr>"

definition demo_post :: post_fn where
  "demo_post n u = (if n = 0 then NetFail ''timeout'' else HttpReply 200 (Some (Obj [(''result'', Str ''0xhash'')])))"

theorem private_send_safe_witness:
  "fst (send_raw_transaction (\<lambda>u. Some u) demo_rpc demo_post) = [default_sequencer, official_rpc] \<and>
   \<not> is_public_relay (\<lambda>u. Some u) official_rpc"
proof -
  have s: "send_raw_transaction (\<lambda>u. Some u) demo_rpc demo_post = ([default_sequencer, official_rpc], Inr (Some (Str ''0xhash'')))"
    by code_simp
  from private_send_safe [OF s] s show ?thesis by simp
qed

section \<open>A read finds the upstream that answers\<close>

lemma try_urls_finds:
  assumes "i \<le> k" "k < i + left"
    and "\<And>j. i \<le> j \<Longrightarrow> j < k \<Longrightarrow> \<exists>e. read_reply (post (n + (j - i)) (urls ! ((cur + j) mod length urls))) = Inl e \<and> \<not> final_error e"
    and "read_reply (post (n + (k - i)) (urls ! ((cur + k) mod length urls))) = Inr v"
  shows "try_urls post urls cur left i n err thr = (Suc (n + (k - i)), Answered ((cur + k) mod length urls) v)"
  using assms
proof (induction left arbitrary: i n err thr)
  case (Suc left)
  show ?case
  proof (cases "i = k")
    case True
    with Suc.prems(4) show ?thesis by (simp add: Let_def)
  next
    case False
    then have lt: "i < k" using Suc.prems(1) by simp
    with Suc.prems(3) [of i] obtain e where e: "read_reply (post n (urls ! ((cur + i) mod length urls))) = Inl e" "\<not> final_error e" by auto
    have "try_urls post urls cur left (Suc i) (Suc n) (Some e) (thr \<and> is_retryable e) =
        (Suc (Suc n + (k - Suc i)), Answered ((cur + k) mod length urls) v)"
    proof (rule Suc.IH)
      show "\<exists>e. read_reply (post (Suc n + (j - Suc i)) (urls ! ((cur + j) mod length urls))) = Inl e \<and> \<not> final_error e"
        if "Suc i \<le> j" "j < k" for j
        using Suc.prems(3) [of j] that by (simp add: Suc_diff_Suc)
      show "read_reply (post (Suc n + (k - Suc i)) (urls ! ((cur + k) mod length urls))) = Inr v"
        using Suc.prems(4) lt by (simp add: Suc_diff_Suc)
    qed (use lt Suc.prems(2) in auto)
    with e lt show ?thesis by (simp add: Let_def Suc_diff_Suc)
  qed
qed simp

text \<open>
  A read is answered by the first upstream, from the one that answered last, that has an answer,
  when the ones before it fail without a definite one; and that upstream is asked first the next time.
\<close>

theorem rpc_fetch_rotates:
  assumes "urls = rpc_urls env" "cur = cs_cursor (start_cursor now s)" "k < length urls"
    and "\<And>j. j < k \<Longrightarrow> \<exists>e. read_reply (post j (urls ! ((cur + j) mod length urls))) = Inl e \<and> \<not> final_error e"
    and "read_reply (post k (urls ! ((cur + k) mod length urls))) = Inr v"
  shows "fst (rpc_fetch env post now later s) = Inr v \<and>
         cs_cursor (snd (rpc_fetch env post now later s)) = (cur + k) mod length urls"
proof -
  have "try_urls post urls cur (length urls) 0 0 None (urls \<noteq> []) = (Suc k, Answered ((cur + k) mod length urls) v)"
    using try_urls_finds [of 0 k "length urls" post 0 urls cur v None "urls \<noteq> []"] assms(3,4,5) by simp
  then have "fetch_rounds post urls cur throttle_retries 0 = (Suc k, Answered ((cur + k) mod length urls) v)"
    unfolding throttle_retries_def numeral_2_eq_2 by simp
  then show ?thesis unfolding rpc_fetch_def Let_def using assms(1,2) by simp
qed

theorem rpc_fetch_rotates_witness:
  "fst (rpc_fetch \<lparr>en_rpc_urls = Some ''http://a, http://b'', en_rpc_url = None, en_sequencer = None\<rparr> demo_post 0 5 \<lparr>cs_cursor = 0, cs_left_at = 0\<rparr>)
     = Inr (Some (Str ''0xhash''))"
proof -
  let ?env = "\<lparr>en_rpc_urls = Some ''http://a, http://b'', en_rpc_url = None, en_sequencer = None\<rparr>"
  have u: "rpc_urls ?env = [''http://a'', ''http://b'']" by code_simp
  have "fst (rpc_fetch ?env demo_post 0 5 \<lparr>cs_cursor = 0, cs_left_at = 0\<rparr>) = Inr (Some (Str ''0xhash'')) \<and>
      cs_cursor (snd (rpc_fetch ?env demo_post 0 5 \<lparr>cs_cursor = 0, cs_left_at = 0\<rparr>)) = (0 + 1) mod length [''http://a'', ''http://b'']"
  proof (rule rpc_fetch_rotates)
    show "[''http://a'', ''http://b''] = rpc_urls ?env" by (rule u [symmetric])
    show "0 = cs_cursor (start_cursor 0 \<lparr>cs_cursor = 0, cs_left_at = 0\<rparr>)" by code_simp
    show "1 < length [''http://a'', ''http://b'']" by simp
    show "\<exists>e. read_reply (demo_post j ([''http://a'', ''http://b''] ! ((0 + j) mod length [''http://a'', ''http://b'']))) = Inl e \<and> \<not> final_error e"
      if "j < 1" for j
      using that by (simp add: demo_post_def read_reply_def final_error_def transport_error_def)
    show "read_reply (demo_post 1 ([''http://a'', ''http://b''] ! ((0 + 1) mod length [''http://a'', ''http://b'']))) = Inr (Some (Str ''0xhash''))"
      by (simp add: demo_post_def read_reply_def truthy_def)
  qed
  then show ?thesis by blast
qed

text \<open>A call makes at most three rounds over the list.\<close>

lemma try_urls_count: "fst (try_urls post urls cur left i n err thr) \<le> n + left"
  by (induction left arbitrary: i n err thr) (auto simp: Let_def split: sum.split, metis add_Suc)

lemma fetch_rounds_count: "fst (fetch_rounds post urls cur extra n) \<le> n + (extra + 1) * length urls"
proof (induction extra arbitrary: n)
  case 0
  show ?case using try_urls_count [of post urls cur "length urls" 0 n None "urls \<noteq> []"] by simp
next
  case (Suc extra)
  obtain m r where t: "try_urls post urls cur (length urls) 0 n None (urls \<noteq> []) = (m, r)" by (cases "try_urls post urls cur (length urls) 0 n None (urls \<noteq> [])")
  with try_urls_count [of post urls cur "length urls" 0 n None "urls \<noteq> []"] have "m \<le> n + length urls" by simp
  with t Suc.IH [of m] show ?case by (auto split: round_end.split bool.split intro: le_trans)
qed

end
