(* ===== verification/Guard.thy ===== *)
theory Guard
  imports Hints
begin

text \<open>
  Proof of delivery (\<open>packages/core/src/guard.ts\<close>): a transaction is simulated between two readings of
  every balance that matters, and the proof is what the readings and the transfer logs say. The
  simulator is a parameter. \<^const>\<open>None\<close> stands for the exception of a value that \<open>BigInt\<close> cannot read
  (the code says it never throws; it does when the simulator's words are malformed).
\<close>

section \<open>Requests and proofs\<close>

record delivery_req =
  dr_from :: string
  dr_to :: string
  dr_data :: string
  dr_value :: "int option"
  dr_approval :: "(string \<times> string \<times> int) option"
  dr_expect :: "(string \<times> int) list"
  dr_pay :: "(string \<times> int) list"
  dr_retain :: "(string \<times> string) list"
  dr_allow :: "(string \<times> string \<times> int) list"

record proof_leak =
  pl_to :: string
  pl_asset :: string
  pl_amount :: int

datatype proof_reason =
    CannotVerify string
  | TxReverts string
  | ApprovalReverts
  | FundsLost "proof_leak list"
  | TooLittle int string int
  | TooMuch int string int
  | FundsStuck "proof_leak list"

record delivery_proof =
  dp_ok :: bool
  dp_reason :: "proof_reason option"
  dp_unavailable :: bool
  dp_reverted :: "string option"
  dp_received :: "(string \<times> int \<times> int) list"
  dp_paid :: "(string \<times> int \<times> int) list"
  dp_leaks :: "proof_leak list"
  dp_retained :: "proof_leak list"
  dp_gas :: int

definition blackholes :: "string list" where
  "blackholes =
     map (\<lambda>d. ''0x000000000000000000000000000000000000000'' @ d)
       [''0'', ''1'', ''2'', ''3'', ''4'', ''5'', ''6'', ''7'', ''8'', ''9'', ''a''] @
     [''0x000000000000000000000000000000000000dead'']"

definition balance_reader :: string where
  "balance_reader = ''0x00000000000000000000000000000000000ba1a0''"

definition erc20_transfer :: string where
  "erc20_transfer = ''0xddf252ad1be2c89b69c2b068fc378daa952ba7f163c4a11628f55a4df523b3ef''"

section \<open>The calls\<close>

definition unprefix :: "string \<Rightarrow> string" where
  "unprefix s = (if starts_with ''0x'' s then drop 2 s else s)"

definition pad_hex :: "string \<Rightarrow> string" where
  "pad_hex v = pad_start 64 CHR ''0'' (unprefix (lower v))"

definition hex_digits :: "int \<Rightarrow> string" where
  "hex_digits n = (if n < 0 then CHR ''-'' # nat_str 16 (- n) else nat_str 16 n)"

definition pad_int :: "int \<Rightarrow> string" where
  "pad_int n = pad_start 64 CHR ''0'' (hex_digits n)"

definition same_addr :: "string \<Rightarrow> string \<Rightarrow> bool" where
  "same_addr a b = (lower a = lower b)"

definition track_key :: "string \<Rightarrow> string \<Rightarrow> string" where
  "track_key holder asset = lower holder @ CHR '':'' # (if asset = ''eth'' then ''eth'' else lower asset)"

definition track :: "(string \<times> string \<times> string) list \<Rightarrow> string \<times> string \<Rightarrow> (string \<times> string \<times> string) list" where
  "track m = (\<lambda>(holder, asset).
     if jget m (track_key holder asset) = None then m @ [(track_key holder asset, holder, asset)] else m)"

text \<open>What is read: the assets of the request and the ether of every black hole.\<close>

definition tracked_pairs :: "delivery_req \<Rightarrow> (string \<times> string) list" where
  "tracked_pairs req =
     map (\<lambda>(a, _). (dr_from req, a)) (dr_expect req) @ map (\<lambda>(a, _). (dr_from req, a)) (dr_pay req) @
     dr_retain req @ map (\<lambda>h. (h, ''eth'')) blackholes"

definition tracked :: "delivery_req \<Rightarrow> (string \<times> string \<times> string) list" where
  "tracked req = foldl track [] (tracked_pairs req)"

definition balance_read :: "string \<times> string \<times> string \<Rightarrow> sim_call" where
  "balance_read = (\<lambda>(_, holder, asset).
     if asset = ''eth''
     then \<lparr>call_from = [], call_to = Some balance_reader, call_data = Some (''0x00000000'' @ pad_hex holder), call_value = None, call_gas = None\<rparr>
     else \<lparr>call_from = [], call_to = Some asset, call_data = Some (''0x70a08231'' @ pad_hex holder), call_value = None, call_gas = None\<rparr>)"

definition approval_calls :: "delivery_req \<Rightarrow> sim_call list" where
  "approval_calls req =
     (case dr_approval req of
        None \<Rightarrow> []
      | Some (token, spender, amount) \<Rightarrow>
          [\<lparr>call_from = dr_from req, call_to = Some token, call_data = Some (''0x095ea7b3'' @ pad_hex spender @ pad_int amount),
            call_value = None, call_gas = None\<rparr>])"

definition delivery_tx :: "delivery_req \<Rightarrow> sim_call" where
  "delivery_tx req =
     \<lparr>call_from = dr_from req, call_to = Some (dr_to req), call_data = Some (dr_data req),
      call_value = (case dr_value req of Some v \<Rightarrow> if v > 0 then Some (''0x'' @ hex_digits v) else None | None \<Rightarrow> None),
      call_gas = None\<rparr>"

definition delivery_calls :: "delivery_req \<Rightarrow> sim_call list" where
  "delivery_calls req =
     map balance_read (tracked req) @ approval_calls req @ [delivery_tx req] @ map balance_read (tracked req)"

section \<open>Reading the answer\<close>

text \<open>
  A simulator answers a list of calls or fails with a message; \<open>ask_urls\<close> is the loop over the
  endpoints, and an answer of another length is malformed. The caller's own simulator replaces the loop.
\<close>

type_synonym simulator = "sim_call list \<Rightarrow> string + sim_out list"

fun ask_urls :: "simulator list \<Rightarrow> sim_call list \<Rightarrow> string \<Rightarrow> string + sim_out list" where
  "ask_urls [] calls last_err = Inl last_err"
| "ask_urls (sim # sims) calls last_err =
     (case sim calls of
        Inl e \<Rightarrow> ask_urls sims calls e
      | Inr outs \<Rightarrow> if length outs = length calls then Inr outs else ask_urls sims calls ''malformed simulation result'')"

definition read_word :: "sim_out \<Rightarrow> int option" where
  "read_word out =
     (case out_return out of
        None \<Rightarrow> Some 0
      | Some d \<Rightarrow> if d = [] \<or> d = ''0x'' then Some 0 else big_int (str_slice 0 66 d))"

fun all_some :: "'a option list \<Rightarrow> 'a list option" where
  "all_some [] = Some []"
| "all_some (None # xs) = None"
| "all_some (Some x # xs) = map_option ((#) x) (all_some xs)"

definition last_chars :: "nat \<Rightarrow> string \<Rightarrow> string" where
  "last_chars n s = drop (length s - n) s"

definition is_transfer_to_hole :: "sim_log \<Rightarrow> bool" where
  "is_transfer_to_hole l =
     (log_topics l \<noteq> [] \<and> lower (hd (log_topics l)) = erc20_transfer \<and> 3 \<le> length (log_topics l) \<and>
      (let to = ''0x'' @ last_chars 40 (log_topics l ! 2); src = ''0x'' @ last_chars 40 (log_topics l ! 1) in
       \<not> same_addr to (hd blackholes) \<and> list_ex (\<lambda>h. same_addr h to) blackholes \<and> \<not> same_addr src (hd blackholes)))"

definition log_amount :: "sim_log \<Rightarrow> int option" where
  "log_amount l = (if log_data l \<noteq> [] \<and> log_data l \<noteq> ''0x'' then big_int (log_data l) else Some 0)"

definition leak_allowed :: "delivery_req \<Rightarrow> string \<Rightarrow> string \<Rightarrow> int \<Rightarrow> bool" where
  "leak_allowed req to asset amount =
     list_ex (\<lambda>(t, a, bound). same_addr t to \<and> same_addr a asset \<and> amount \<le> bound) (dr_allow req)"

text \<open>The leak a log is, if it is one.\<close>

definition log_leak :: "delivery_req \<Rightarrow> sim_log \<Rightarrow> proof_leak option option" where
  "log_leak req l =
     (if \<not> is_transfer_to_hole l then Some None
      else case log_amount l of
             None \<Rightarrow> None
           | Some amount \<Rightarrow>
               let to = ''0x'' @ last_chars 40 (log_topics l ! 2) in
               if amount = 0 \<or> leak_allowed req to (log_address l) amount then Some None
               else Some (Some \<lparr>pl_to = to, pl_asset = log_address l, pl_amount = amount\<rparr>))"

definition no_proof :: "proof_reason \<Rightarrow> bool \<Rightarrow> string option \<Rightarrow> int \<Rightarrow> delivery_proof" where
  "no_proof reason unavailable rvt gas =
     \<lparr>dp_ok = False, dp_reason = Some reason, dp_unavailable = unavailable, dp_reverted = rvt, dp_received = [], dp_paid = [],
      dp_leaks = [], dp_retained = [], dp_gas = gas\<rparr>"

text \<open>The verdict over the differences of the balances and the leaks of the logs.\<close>

definition judge_delivery :: "delivery_req \<Rightarrow> (string \<Rightarrow> int) \<Rightarrow> proof_leak list \<Rightarrow> int \<Rightarrow> delivery_proof" where
  "judge_delivery req delta log_leaks gas =
     (let received = map (\<lambda>(a, m). (a, delta (track_key (dr_from req) a), m)) (dr_expect req);
          paid = map (\<lambda>(a, m). (a, - delta (track_key (dr_from req) a), m)) (dr_pay req);
          retained = filter (\<lambda>r. pl_amount r > 0)
            (map (\<lambda>(h, a). \<lparr>pl_to = h, pl_asset = a, pl_amount = delta (track_key h a)\<rparr>) (dr_retain req));
          leaks = filter (\<lambda>r. pl_amount r > 0)
            (map (\<lambda>h. \<lparr>pl_to = h, pl_asset = ''eth'', pl_amount = delta (track_key h ''eth'')\<rparr>) blackholes) @ log_leaks;
          reason =
            (if leaks \<noteq> [] then Some (FundsLost leaks)
             else case find (\<lambda>(_, amount, m). amount < m) received of
                    Some (a, amount, m) \<Rightarrow> Some (TooLittle amount a m)
                  | None \<Rightarrow>
                      (case find (\<lambda>(_, amount, m). amount > m) paid of
                         Some (a, amount, m) \<Rightarrow> Some (TooMuch amount a m)
                       | None \<Rightarrow> if retained \<noteq> [] then Some (FundsStuck retained) else None)) in
      \<lparr>dp_ok = (reason = None), dp_reason = reason, dp_unavailable = False, dp_reverted = None, dp_received = received, dp_paid = paid,
       dp_leaks = leaks, dp_retained = retained, dp_gas = gas\<rparr>)"

definition revert_reason :: "sim_out \<Rightarrow> string" where
  "revert_reason out =
     (case out_error out of
        Some m \<Rightarrow> m
      | None \<Rightarrow> (case out_return out of Some d \<Rightarrow> if d \<noteq> [] \<and> d \<noteq> ''0x'' then d else ''reverted'' | None \<Rightarrow> ''reverted''))"

definition read_delivery :: "delivery_req \<Rightarrow> sim_out list \<Rightarrow> delivery_proof option" where
  "read_delivery req outs =
     (let n = length (tracked req);
          txi = n + length (approval_calls req);
          tx = outs ! txi in
      case (case out_gas_used tx of None \<Rightarrow> Some 0 | Some g \<Rightarrow> big_int g) of
        None \<Rightarrow> None
      | Some gas \<Rightarrow>
          if out_status tx \<noteq> ''0x1'' then Some (no_proof (TxReverts (revert_reason tx)) False (Some (revert_reason tx)) gas)
          else if dr_approval req \<noteq> None \<and> out_status (outs ! (txi - 1)) \<noteq> ''0x1'' then Some (no_proof ApprovalReverts False None gas)
          else case (all_some (map read_word (take n outs)), all_some (map read_word (take n (drop (Suc txi) outs))),
                     all_some (map (log_leak req) (case out_logs tx of None \<Rightarrow> [] | Some ls \<Rightarrow> ls))) of
                 (Some before, Some later, Some leaks) \<Rightarrow>
                   let keys = map fst (tracked req);
                       delta = (\<lambda>k. (case jget (zip keys later) k of None \<Rightarrow> 0 | Some v \<Rightarrow> v) -
                                    (case jget (zip keys before) k of None \<Rightarrow> 0 | Some v \<Rightarrow> v)) in
                   Some (judge_delivery req delta (concat (map (\<lambda>x. case x of None \<Rightarrow> [] | Some l \<Rightarrow> [l]) leaks)) gas)
               | _ \<Rightarrow> None)"

definition prove_delivery :: "delivery_req \<Rightarrow> simulator list \<Rightarrow> delivery_proof option" where
  "prove_delivery req sims =
     (case ask_urls sims (delivery_calls req) ''no upstream'' of
        Inl e \<Rightarrow> Some (no_proof (CannotVerify e) True None 0)
      | Inr outs \<Rightarrow> read_delivery req outs)"

section \<open>What a proof proves\<close>

lemma track_wf: "jwf m \<Longrightarrow> jwf (track m p)"
  by (cases p) (auto simp: track_def map_of_eq_None_iff)

lemma track_keys: "fst ` set (track m p) = insert (track_key (fst p) (snd p)) (fst ` set m)"
  by (cases p) (auto simp: track_def map_of_eq_None_iff dest: map_of_SomeD intro: rev_image_eqI)

lemma tracked_wf: "jwf (tracked req)"
proof -
  have "jwf m \<Longrightarrow> jwf (foldl track m ps)" for m ps
    by (induction ps arbitrary: m) (auto simp: track_wf)
  then show ?thesis by (simp add: tracked_def)
qed

lemma tracked_keys: "(h, a) \<in> set (tracked_pairs req) \<Longrightarrow> track_key h a \<in> fst ` set (tracked req)"
proof -
  have "fst ` set (foldl track m ps) = fst ` set m \<union> (\<lambda>p. track_key (fst p) (snd p)) ` set ps" for m ps
    by (induction ps arbitrary: m) (auto simp: track_keys)
  then show "(h, a) \<in> set (tracked_pairs req) \<Longrightarrow> track_key h a \<in> fst ` set (tracked req)"
    by (force simp: tracked_def)
qed

lemma all_some_iff: "all_some xs = Some ys \<longleftrightarrow> xs = map Some ys"
  by (induction xs arbitrary: ys rule: all_some.induct) (auto simp: Cons_eq_map_conv)

lemma all_some_member:
  assumes "all_some (map f ls) = Some ys" "l \<in> set ls"
  shows "\<exists>x \<in> set ys. f l = Some x"
proof -
  have "f l \<in> set (map f ls)" using assms(2) by simp
  then have "f l \<in> set (map Some ys)" using assms(1) unfolding all_some_iff by metis
  then show ?thesis by auto
qed

lemma ask_urls_from: "ask_urls sims calls e = Inr outs \<Longrightarrow> \<exists>sim \<in> set sims. sim calls = Inr outs \<and> length outs = length calls"
  by (induction sims arbitrary: e) (auto split: sum.splits if_splits)

text \<open>
  A simulator is honest about two states of the chain, the balances before and after the transaction,
  when its answers to the reads are those balances.
\<close>

definition honest_for :: "delivery_req \<Rightarrow> (string \<Rightarrow> int) \<Rightarrow> (string \<Rightarrow> int) \<Rightarrow> simulator \<Rightarrow> bool" where
  "honest_for req bal0 bal1 sim \<longleftrightarrow>
     (\<forall>outs. sim (delivery_calls req) = Inr outs \<longrightarrow>
        (\<forall>i < length (tracked req).
           read_word (outs ! i) = Some (bal0 (fst (tracked req ! i))) \<and>
           read_word (outs ! (Suc (length (tracked req) + length (approval_calls req)) + i)) = Some (bal1 (fst (tracked req ! i)))))"

lemma judge_ok:
  assumes "dp_ok (judge_delivery req delta ls gas)"
  shows "ls = []" "\<And>a m. (a, m) \<in> set (dr_expect req) \<Longrightarrow> m \<le> delta (track_key (dr_from req) a)"
    "\<And>a m. (a, m) \<in> set (dr_pay req) \<Longrightarrow> - delta (track_key (dr_from req) a) \<le> m"
    "\<And>h. h \<in> set blackholes \<Longrightarrow> delta (track_key h ''eth'') \<le> 0"
    "\<And>h a. (h, a) \<in> set (dr_retain req) \<Longrightarrow> delta (track_key h a) \<le> 0"
proof -
  define received where "received = map (\<lambda>(a, m). (a, delta (track_key (dr_from req) a), m)) (dr_expect req)"
  define paid where "paid = map (\<lambda>(a, m). (a, - delta (track_key (dr_from req) a), m)) (dr_pay req)"
  define retained where "retained = filter (\<lambda>r. pl_amount r > 0)
      (map (\<lambda>(h, a). \<lparr>pl_to = h, pl_asset = a, pl_amount = delta (track_key h a)\<rparr>) (dr_retain req))"
  define leaks where "leaks = filter (\<lambda>r. pl_amount r > 0)
      (map (\<lambda>h. \<lparr>pl_to = h, pl_asset = ''eth'', pl_amount = delta (track_key h ''eth'')\<rparr>) blackholes) @ ls"
  have j: "leaks = [] \<and> find (\<lambda>(_, amount, m). amount < m) received = None \<and> find (\<lambda>(_, amount, m). amount > m) paid = None \<and> retained = []"
    using assms unfolding judge_delivery_def received_def [symmetric] paid_def [symmetric] retained_def [symmetric] leaks_def [symmetric] Let_def
    by (simp split: if_splits option.splits prod.splits)
  then show "ls = []" by (simp add: leaks_def)
  show "m \<le> delta (track_key (dr_from req) a)" if "(a, m) \<in> set (dr_expect req)" for a m
    using j that by (force simp: received_def find_None_iff)
  show "- delta (track_key (dr_from req) a) \<le> m" if "(a, m) \<in> set (dr_pay req)" for a m
    using j that by (force simp: paid_def find_None_iff)
  show "delta (track_key h ''eth'') \<le> 0" if "h \<in> set blackholes" for h
    using j that by (force simp: leaks_def filter_empty_conv)
  show "delta (track_key h a) \<le> 0" if "(h, a) \<in> set (dr_retain req)" for h a
    using j that by (force simp: retained_def filter_empty_conv)
qed

lemma zip_keys:
  assumes "jwf m" "xs = map f (map fst m)" "k \<in> fst ` set m"
  shows "(case jget (zip (map fst m) xs) k of None \<Rightarrow> 0 | Some v \<Rightarrow> v) = f k"
  unfolding assms(2) map_of_zip_map using assms(3) by simp

lemma concat_options: "concat (map (\<lambda>x. case x of None \<Rightarrow> [] | Some l \<Rightarrow> [l]) xs) = [] \<Longrightarrow> x \<in> set xs \<Longrightarrow> x = None"
  by (auto split: option.splits)

lemma honest_reads:
  assumes "honest_for req bal0 bal1 sim" "sim (delivery_calls req) = Inr outs" "length outs = length (delivery_calls req)"
  shows "map read_word (take (length (tracked req)) outs) = map Some (map bal0 (map fst (tracked req)))"
    "map read_word (take (length (tracked req)) (drop (Suc (length (tracked req) + length (approval_calls req))) outs)) =
       map Some (map bal1 (map fst (tracked req)))"
proof -
  let ?n = "length (tracked req)" and ?m = "Suc (length (tracked req) + length (approval_calls req))"
  have l: "length outs = ?m + ?n" using assms(3) by (simp add: delivery_calls_def)
  have r: "read_word (outs ! i) = Some (bal0 (fst (tracked req ! i)))" "read_word (outs ! (?m + i)) = Some (bal1 (fst (tracked req ! i)))"
    if "i < ?n" for i using assms(1,2) that unfolding honest_for_def by blast+
  show "map read_word (take ?n outs) = map Some (map bal0 (map fst (tracked req)))"
    by (rule nth_equalityI) (use l r(1) in auto)
  show "map read_word (take ?n (drop ?m outs)) = map Some (map bal1 (map fst (tracked req)))"
    by (rule nth_equalityI) (use l r(2) in auto)
qed

lemma delivery_facts:
  assumes "prove_delivery req sims = Some p" "dp_ok p" "\<forall>sim \<in> set sims. honest_for req bal0 bal1 sim"
  shows "(\<forall>(a, m) \<in> set (dr_expect req). bal0 (track_key (dr_from req) a) + m \<le> bal1 (track_key (dr_from req) a)) \<and>
         (\<forall>(a, m) \<in> set (dr_pay req). bal0 (track_key (dr_from req) a) - m \<le> bal1 (track_key (dr_from req) a)) \<and>
         (\<forall>h \<in> set blackholes. bal1 (track_key h ''eth'') \<le> bal0 (track_key h ''eth'')) \<and>
         (\<forall>(h, a) \<in> set (dr_retain req). bal1 (track_key h a) \<le> bal0 (track_key h a)) \<and>
         (\<exists>sim \<in> set sims. \<exists>outs tx. sim (delivery_calls req) = Inr outs \<and>
            tx = outs ! (length (tracked req) + length (approval_calls req)) \<and> out_status tx = ''0x1'' \<and>
            (\<forall>ls l. out_logs tx = Some ls \<and> l \<in> set ls \<longrightarrow> log_leak req l = Some None))"
proof -
  from assms(1,2) obtain outs where o: "ask_urls sims (delivery_calls req) ''no upstream'' = Inr outs" "read_delivery req outs = Some p"
    by (auto simp: prove_delivery_def no_proof_def split: sum.splits)
  from ask_urls_from [OF o(1)] obtain sim where sim: "sim \<in> set sims" "sim (delivery_calls req) = Inr outs" "length outs = length (delivery_calls req)"
    by blast
  note reads = honest_reads [OF bspec [OF assms(3) sim(1)] sim(2,3)]
  let ?tx = "outs ! (length (tracked req) + length (approval_calls req))" and ?keys = "map fst (tracked req)"
  let ?delta = "\<lambda>k. (case jget (zip ?keys (map bal1 ?keys)) k of None \<Rightarrow> 0 | Some v \<Rightarrow> v) -
      (case jget (zip ?keys (map bal0 ?keys)) k of None \<Rightarrow> 0 | Some v \<Rightarrow> v)"
  have some: "all_some (map Some ys) = Some ys" for ys :: "int list" by (simp add: all_some_iff)
  from o(2) assms(2) obtain gas leaks where j: "out_status ?tx = ''0x1''"
    "all_some (map (log_leak req) (case out_logs ?tx of None \<Rightarrow> [] | Some ls \<Rightarrow> ls)) = Some leaks"
    "p = judge_delivery req ?delta (concat (map (\<lambda>x. case x of None \<Rightarrow> [] | Some l \<Rightarrow> [l]) leaks)) gas"
    unfolding read_delivery_def Let_def reads some by (auto simp: no_proof_def split: option.splits if_splits)
  note ok = judge_ok [OF assms(2) [unfolded j(3)]]
  have delta: "?delta (track_key h a) = bal1 (track_key h a) - bal0 (track_key h a)" if "(h, a) \<in> set (tracked_pairs req)" for h a
    by (simp only: zip_keys [OF tracked_wf refl tracked_keys [OF that]])
  have expect: "\<forall>(a, m) \<in> set (dr_expect req). bal0 (track_key (dr_from req) a) + m \<le> bal1 (track_key (dr_from req) a)"
  proof clarify
    fix a m assume e: "(a, m) \<in> set (dr_expect req)"
    then have "(dr_from req, a) \<in> set (tracked_pairs req)" by (force simp: tracked_pairs_def)
    from delta [OF this] ok(2) [OF e] show "bal0 (track_key (dr_from req) a) + m \<le> bal1 (track_key (dr_from req) a)" by linarith
  qed
  have pay: "\<forall>(a, m) \<in> set (dr_pay req). bal0 (track_key (dr_from req) a) - m \<le> bal1 (track_key (dr_from req) a)"
  proof clarify
    fix a m assume e: "(a, m) \<in> set (dr_pay req)"
    then have "(dr_from req, a) \<in> set (tracked_pairs req)" by (force simp: tracked_pairs_def)
    from delta [OF this] ok(3) [OF e] show "bal0 (track_key (dr_from req) a) - m \<le> bal1 (track_key (dr_from req) a)" by linarith
  qed
  have holes: "bal1 (track_key h ''eth'') \<le> bal0 (track_key h ''eth'')" if "h \<in> set blackholes" for h
  proof -
    have "(h, ''eth'') \<in> set (tracked_pairs req)" using that by (simp add: tracked_pairs_def)
    from delta [OF this] ok(4) [OF that] show ?thesis by linarith
  qed
  have retain: "\<forall>(h, a) \<in> set (dr_retain req). bal1 (track_key h a) \<le> bal0 (track_key h a)"
  proof clarify
    fix h a assume e: "(h, a) \<in> set (dr_retain req)"
    then have "(h, a) \<in> set (tracked_pairs req)" by (simp add: tracked_pairs_def)
    from delta [OF this] ok(5) [OF e] show "bal1 (track_key h a) \<le> bal0 (track_key h a)" by linarith
  qed
  have logs: "log_leak req l = Some None" if "out_logs ?tx = Some ls" "l \<in> set ls" for ls l
  proof -
    have "all_some (map (log_leak req) ls) = Some leaks" using j(2) unfolding that(1) option.case .
    from all_some_member [OF this that(2)] concat_options [OF ok(1)] show ?thesis by blast
  qed
  have "sim (delivery_calls req) = Inr outs \<and> ?tx = outs ! (length (tracked req) + length (approval_calls req)) \<and> out_status ?tx = ''0x1'' \<and>
      (\<forall>ls l. out_logs ?tx = Some ls \<and> l \<in> set ls \<longrightarrow> log_leak req l = Some None)"
    using sim(2) j(1) logs by (intro conjI allI impI refl) auto
  then have "\<exists>outs tx. sim (delivery_calls req) = Inr outs \<and> tx = outs ! (length (tracked req) + length (approval_calls req)) \<and>
      out_status tx = ''0x1'' \<and> (\<forall>ls l. out_logs tx = Some ls \<and> l \<in> set ls \<longrightarrow> log_leak req l = Some None)" by (intro exI)
  with sim(1) show ?thesis by (intro conjI expect pay ballI holes retain bexI [of _ sim])
qed


definition demo_delivery :: delivery_req where
  "demo_delivery =
     \<lparr>dr_from = ''0xAb'', dr_to = ''0xrouter'', dr_data = ''0x12'', dr_value = None, dr_approval = None, dr_expect = [(''eth'', 5)],
      dr_pay = [], dr_retain = [], dr_allow = []\<rparr>"

definition demo_out :: "string \<Rightarrow> sim_out" where
  "demo_out d = \<lparr>out_status = ''0x1'', out_logs = None, out_gas_used = Some ''0x5208'', out_error = None, out_return = Some d\<rparr>"

definition demo_delivery_sim :: simulator where
  "demo_delivery_sim calls = Inr (replicate 13 (demo_out ''0x0'') @ [demo_out ''0x''] @ demo_out ''0x7'' # replicate 12 (demo_out ''0x0''))"

definition demo_bal :: "string \<Rightarrow> int" where
  "demo_bal k = (if k = ''0xab:eth'' then 7 else 0)"

lemma demo_honest: "honest_for demo_delivery (\<lambda>_. 0) demo_bal demo_delivery_sim"
proof -
  let ?outs = "replicate 13 (demo_out ''0x0'') @ [demo_out ''0x''] @ demo_out ''0x7'' # replicate 12 (demo_out ''0x0'')"
  have t: "map (\<lambda>p. demo_bal (fst p)) (tracked demo_delivery) = 7 # replicate 12 0" by code_simp
  then have l: "length (tracked demo_delivery) = 13" by (metis length_map length_Cons length_replicate numeral_eq_Suc pred_numeral_simps)
  have b: "demo_bal (fst (tracked demo_delivery ! i)) = (7 # replicate 12 0) ! i" if "i < 13" for i
    using that unfolding t [symmetric] by (simp add: l)
  have "list_all (\<lambda>i. read_word (?outs ! i) = Some 0 \<and> read_word (?outs ! (14 + i)) = Some ((7 # replicate 12 0) ! i)) [0..<13]"
    by code_simp
  then have "read_word (?outs ! i) = Some 0 \<and> read_word (?outs ! (14 + i)) = Some ((7 # replicate 12 0) ! i)" if "i < 13" for i
    using that unfolding list_all_iff by simp
  moreover have "approval_calls demo_delivery = []" by (simp add: approval_calls_def demo_delivery_def)
  ultimately show ?thesis using b by (simp add: honest_for_def demo_delivery_sim_def l)
qed


end
