(* ===== verification/Protect.thy ===== *)
theory Protect
  imports Guard HexWords
begin

text \<open>
  The protected send of the gateway: the approval guard (\<open>apps/gateway/src/approvals.ts\<close>), the checks
  before a send and the bundles (\<open>protect.ts\<close>), and the routing through the auction (\<open>orderflow.ts\<close>).
  Parsing and sender recovery, the upstream's methods and the auction are the environment; a refusal is
  a value, and \<open>Throws\<close> is an exception that is not the gateway's own.
\<close>

section \<open>Approvals\<close>

datatype grant_kind = Approve | IncreaseAllowance | SetApprovalForAll

record approval_grant =
  ag_kind :: grant_kind
  ag_spender :: string
  ag_amount :: int
  ag_unlimited :: bool

definition unlimited_from :: int where "unlimited_from = 2 ^ 255"

definition approval_word :: "string \<Rightarrow> nat \<Rightarrow> string" where
  "approval_word data i = str_slice (10 + i * 64) (10 + (i + 1) * 64) data"

definition decode_approval :: "string option \<Rightarrow> approval_grant option" where
  "decode_approval d =
     (case d of
        None \<Rightarrow> None
      | Some data \<Rightarrow>
          if length data < 10 \<or> length data - 10 \<noteq> 128 then None
          else let selector = lower (take 10 data);
                   spender = lower (''0x'' @ drop 24 (approval_word data 0));
                   raw = approval_word data 1 in
               if \<not> is_hex 40 spender \<or> \<not> is_hex 64 (''0x'' @ raw) then None
               else case big_int (''0x'' @ raw) of
                      None \<Rightarrow> None
                    | Some amount \<Rightarrow>
                        if selector = ''0xa22cb465''
                        then (if amount = 0 then None
                              else Some \<lparr>ag_kind = SetApprovalForAll, ag_spender = spender, ag_amount = unlimited_from, ag_unlimited = True\<rparr>)
                        else if selector = ''0x095ea7b3''
                        then Some \<lparr>ag_kind = Approve, ag_spender = spender, ag_amount = amount, ag_unlimited = amount \<ge> unlimited_from\<rparr>
                        else if selector = ''0x39509351''
                        then Some \<lparr>ag_kind = IncreaseAllowance, ag_spender = spender, ag_amount = amount, ag_unlimited = amount \<ge> unlimited_from\<rparr>
                        else None)"

datatype approval_reason = ZeroSpender | PlainWallet

text \<open>\<open>code\<close> is what \<open>eth_getCode\<close> gives: an error (\<open>Inl\<close>), nothing, or the code.\<close>

definition check_approval ::
  "(string \<Rightarrow> string + string option) \<Rightarrow> string option \<Rightarrow> string \<Rightarrow> (approval_grant \<times> approval_reason) option" where
  "check_approval code data from_addr =
     (case decode_approval data of
        None \<Rightarrow> None
      | Some g \<Rightarrow>
          if \<not> ag_unlimited g \<or> ag_spender g = lower from_addr then None
          else if ag_spender g = zero_address then Some (g, ZeroSpender)
          else case code (ag_spender g) of
                 Inl _ \<Rightarrow> None
               | Inr (Some c) \<Rightarrow> if c \<noteq> [] \<and> c \<noteq> ''0x'' then None else Some (g, PlainWallet)
               | Inr None \<Rightarrow> Some (g, PlainWallet))"

section \<open>The checks before a send\<close>

record raw_parsed =
  rp_from :: string
  rp_to :: "string option"
  rp_data :: "string option"
  rp_value :: "int option"

record gateway_env =
  ge_parse :: "string \<Rightarrow> raw_parsed option"
  ge_code :: "string \<Rightarrow> string + string option"
  ge_simulate :: simulator
  ge_call :: "sim_call \<Rightarrow> string + string"
  ge_send :: "string \<Rightarrow> string + string"
  ge_bundler :: string

datatype refusal =
    BadHex
  | UnlimitedApproval approval_grant approval_reason
  | WouldRevert string
  | LosesFunds "proof_leak list"
  | AuctionSilent "string option"
  | BadBundle string
  | BundleReverts nat string
  | UpstreamError string
  | Throws

definition non_empty :: "string option \<Rightarrow> string option" where
  "non_empty s = (case s of Some (c # cs) \<Rightarrow> Some (c # cs) | _ \<Rightarrow> None)"

definition parse_raw :: "gateway_env \<Rightarrow> string \<Rightarrow> refusal + raw_parsed" where
  "parse_raw env raw =
     (if \<not> starts_with ''0x'' raw then Inl BadHex else of_opt Throws (ge_parse env raw))"

definition raw_call :: "raw_parsed \<Rightarrow> sim_call" where
  "raw_call p =
     \<lparr>call_from = rp_from p, call_to = non_empty (rp_to p), call_data = non_empty (rp_data p),
      call_value = map_option (\<lambda>v. ''0x'' @ hex_digits v) (rp_value p), call_gas = None\<rparr>"

definition simulate_raw :: "gateway_env \<Rightarrow> raw_parsed \<Rightarrow> string + string" where
  "simulate_raw env p = ge_call env (raw_call p)"

definition burn_request :: "raw_parsed \<Rightarrow> string \<Rightarrow> delivery_req" where
  "burn_request p to =
     \<lparr>dr_from = rp_from p, dr_to = to, dr_data = (case rp_data p of None \<Rightarrow> ''0x'' | Some d \<Rightarrow> d),
      dr_value = Some (case rp_value p of None \<Rightarrow> 0 | Some v \<Rightarrow> v), dr_approval = None, dr_expect = [], dr_pay = [], dr_retain = [], dr_allow = []\<rparr>"

text \<open>\<^const>\<open>None\<close>: the upstream cannot simulate, the transaction creates a contract, or the reading threw.\<close>

definition burn_check :: "gateway_env \<Rightarrow> raw_parsed \<Rightarrow> delivery_proof option" where
  "burn_check env p =
     (case non_empty (rp_to p) of
        None \<Rightarrow> None
      | Some to \<Rightarrow>
          (case prove_delivery (burn_request p to) [ge_simulate env] of
             None \<Rightarrow> None
           | Some proof \<Rightarrow> if dp_unavailable proof then None else Some proof))"

definition assert_safe :: "gateway_env \<Rightarrow> bool \<Rightarrow> string \<Rightarrow> refusal + unit" where
  "assert_safe env waived raw =
     sbind (parse_raw env raw) (\<lambda>p.
       case (if waived then None else check_approval (ge_code env) (rp_data p) (rp_from p)) of
         Some (g, why) \<Rightarrow> Inl (UnlimitedApproval g why)
       | None \<Rightarrow>
           (case burn_check env p of
              None \<Rightarrow> (case simulate_raw env p of Inl why \<Rightarrow> Inl (WouldRevert why) | Inr _ \<Rightarrow> Inr ())
            | Some proof \<Rightarrow>
                (case dp_reverted proof of
                   Some why \<Rightarrow> Inl (WouldRevert why)
                 | None \<Rightarrow> if dp_leaks proof \<noteq> [] then Inl (LosesFunds (dp_leaks proof)) else Inr ())))"

text \<open>What left the gateway.\<close>

datatype dispatch = ToAuction string | ToSequencer string

definition protect_and_send :: "gateway_env \<Rightarrow> bool \<Rightarrow> string \<Rightarrow> dispatch list \<times> (refusal + string)" where
  "protect_and_send env waived raw =
     (case assert_safe env waived raw of
        Inl r \<Rightarrow> ([], Inl r)
      | Inr _ \<Rightarrow> ([ToSequencer raw], case ge_send env raw of Inl e \<Rightarrow> Inl (UpstreamError e) | Inr h \<Rightarrow> Inr h))"

section \<open>Order flow\<close>

text \<open>The auction fails as a request (with a message), or answers a hash, or an error text, or neither.\<close>

datatype auction_answer = AuctionDown string | AuctionSaid "string option" "string option"

definition route_order_flow ::
  "gateway_env \<Rightarrow> (string \<Rightarrow> auction_answer) \<Rightarrow> bool \<Rightarrow> string \<Rightarrow> dispatch list \<times> (refusal + (string \<times> bool))" where
  "route_order_flow env auction waived raw =
     (case assert_safe env waived raw of
        Inl r \<Rightarrow> ([], Inl r)
      | Inr _ \<Rightarrow>
          (case auction raw of
             AuctionSaid hash err \<Rightarrow>
               (case non_empty hash of
                  Some h \<Rightarrow> ([ToAuction raw], Inr (h, True))
                | None \<Rightarrow> ([ToAuction raw], Inl (AuctionSilent err)))
           | AuctionDown _ \<Rightarrow>
               ([ToAuction raw, ToSequencer raw],
                case ge_send env raw of Inl e \<Rightarrow> Inl (UpstreamError e) | Inr h \<Rightarrow> Inr (h, False))))"

section \<open>Bundles\<close>

datatype allow_revert = RevertNone | RevertAll | RevertSome "nat list"

definition tolerated :: "allow_revert \<Rightarrow> nat \<Rightarrow> bool" where
  "tolerated allow i = (case allow of RevertNone \<Rightarrow> False | RevertAll \<Rightarrow> True | RevertSome is \<Rightarrow> i \<in> set is)"

text \<open>The loop over the transactions: whether one of them calls the bundler.\<close>

fun check_bundle :: "gateway_env \<Rightarrow> allow_revert \<Rightarrow> nat \<Rightarrow> string list \<Rightarrow> refusal + bool" where
  "check_bundle env allow i [] = Inr False"
| "check_bundle env allow i (raw # raws) =
     sbind (parse_raw env raw) (\<lambda>p.
       case simulate_raw env p of
         Inl why \<Rightarrow>
           if \<not> tolerated allow i then Inl (BundleReverts i why)
           else sbind (check_bundle env allow (Suc i) raws) (\<lambda>x. Inr (x \<or> (ge_bundler env \<noteq> [] \<and> map_option lower (non_empty (rp_to p)) = Some (lower (ge_bundler env)))))
       | Inr _ \<Rightarrow>
           sbind (check_bundle env allow (Suc i) raws) (\<lambda>x. Inr (x \<or> (ge_bundler env \<noteq> [] \<and> map_option lower (non_empty (rp_to p)) = Some (lower (ge_bundler env))))))"

datatype bundle_note = ThroughExecutor | SingleTx | BestEffort

record bundle_result =
  br_id :: string
  br_hashes :: "string list"
  br_atomic :: bool
  br_note :: bundle_note

text \<open>All sends are fired together; if one fails the bundle fails, with the others already sent.\<close>

fun all_sent :: "(string + string) list \<Rightarrow> string + string list" where
  "all_sent [] = Inr []"
| "all_sent (Inl e # rs) = Inl e"
| "all_sent (Inr h # rs) = sbind (all_sent rs) (\<lambda>hs. Inr (h # hs))"

definition send_bundle :: "gateway_env \<Rightarrow> allow_revert \<Rightarrow> string list \<Rightarrow> dispatch list \<times> (refusal + bundle_result)" where
  "send_bundle env allow raws =
     (if raws = [] then ([], Inl (BadBundle ''bundle.txs required''))
      else if length raws > 10 then ([], Inl (BadBundle ''max 10 txs per bundle''))
      else case check_bundle env allow 0 raws of
             Inl r \<Rightarrow> ([], Inl r)
           | Inr executor \<Rightarrow>
               (map ToSequencer raws,
                case all_sent (map (ge_send env) raws) of
                  Inl e \<Rightarrow> Inl (UpstreamError e)
                | Inr hashes \<Rightarrow>
                    Inr \<lparr>br_id = hd hashes, br_hashes = hashes, br_atomic = (length raws = 1),
                         br_note = (if length raws = 1 then (if executor then ThroughExecutor else SingleTx) else BestEffort)\<rparr>))"

section \<open>The encoder of one module is read by the decoder of the other\<close>

text \<open>A padded number is 64 hexadecimal digits that read back as the number.\<close>

lemma pad_int_word:
  assumes "0 \<le> n" "n < 2 ^ 256"
  shows "length (pad_int n) = 64" "list_all hex_char (pad_int n)" "num_val 16 0 (pad_int n) = n"
proof -
  have "pad_int n = hex_word 64 n" using assms(1) by (simp add: pad_int_def hex_digits_def hex_word_def)
  with hex_word [of n 64] assms show "length (pad_int n) = 64" "list_all hex_char (pad_int n)" "num_val 16 0 (pad_int n) = n" by simp_all
qed

lemma pad_hex_address: "is_hex 40 s \<Longrightarrow> pad_hex s = replicate 24 CHR ''0'' @ lower (drop 2 s)"
proof -
  assume h: "is_hex 40 s"
  then have "take 2 s = ''0x''" by (simp add: is_hex_def starts_with_def numeral_2_eq_2)
  then obtain r where r: "s = ''0x'' @ r" by (metis append_take_drop_id)
  have low: "lower ''0x'' = ''0x''" by code_simp
  have len: "length r = 40" using h by (simp add: is_hex_def r)
  have "lower s = ''0x'' @ lower r" unfolding r lower_append low ..
  then show ?thesis using len by (simp add: pad_hex_def unprefix_def starts_with_def pad_start_def r)
qed

text \<open>
  The approval encoder of the delivery guard and the approval decoder of the send guard agree: the
  calldata that core's guard builds for an approval is decoded to that spender, that amount, and to
  being unlimited exactly when the amount is at least two to the 255.
\<close>

theorem approval_roundtrip:
  assumes "dr_approval req = Some (token, spender, amount)" "is_hex 40 spender" "0 \<le> amount" "amount < 2 ^ 256"
  shows "map (\<lambda>c. decode_approval (call_data c)) (approval_calls req) =
         [Some \<lparr>ag_kind = Approve, ag_spender = lower spender, ag_amount = amount, ag_unlimited = (2 ^ 255 \<le> amount)\<rparr>]"
proof -
  note w = pad_int_word [OF assms(3,4)]
  obtain r where r: "spender = ''0x'' @ r" "length r = 40" "list_all hex_char r" using assms(2) by (rule is_hexE)
  define data where "data = ''0x095ea7b3'' @ pad_hex spender @ pad_int amount"
  have p: "pad_hex spender = replicate 24 CHR ''0'' @ lower r" using pad_hex_address [OF assms(2)] by (simp add: r)
  have lp: "length (pad_hex spender) = 64" unfolding p using r(2) by simp
  have len: "length data = 138" by (simp add: data_def lp w)
  have low: "lower ''0x'' = ''0x''" by code_simp
  have w0: "approval_word data 0 = pad_hex spender" by (simp add: approval_word_def str_slice_def data_def lp w)
  have w1: "approval_word data 1 = pad_int amount" by (simp add: approval_word_def str_slice_def data_def lp w)
  have sel: "lower (take 10 data) = ''0x095ea7b3''" by (simp add: data_def) code_simp
  have sp: "lower (''0x'' @ drop 24 (approval_word data 0)) = lower spender"
    unfolding w0 r(1) lower_append p [unfolded r(1)] by simp
  have h40: "is_hex 40 (lower spender)" unfolding r(1) lower_append low
    using r(2,3) hex_digit_lower by (auto simp: is_hex_def starts_with_def lower_def list_all_iff)
  have h64: "is_hex 64 (''0x'' @ approval_word data 1)" unfolding w1 using w by (simp add: is_hex_def starts_with_def)
  have "pad_int amount \<noteq> []" using w(1) by auto
  then have "parse_digits 16 (pad_int amount) = Some amount" using w by (simp add: parse_digits_def hex_char_def [abs_def])
  then have bi: "big_int (''0x'' @ approval_word data 1) = Some amount" unfolding w1 using trim_hex [OF w(2)] by simp
  have "decode_approval (Some data) = Some \<lparr>ag_kind = Approve, ag_spender = lower spender, ag_amount = amount, ag_unlimited = (2 ^ 255 \<le> amount)\<rparr>"
    unfolding decode_approval_def option.case Let_def sel sp len bi using h40 h64 by (simp add: unlimited_from_def)
  moreover have "map (\<lambda>c. decode_approval (call_data c)) (approval_calls req) = [decode_approval (Some data)]"
    by (simp add: approval_calls_def assms(1) data_def)
  ultimately show ?thesis by simp
qed

theorem approval_roundtrip_witness:
  "map (\<lambda>c. decode_approval (call_data c)) (approval_calls (demo_delivery\<lparr>dr_approval := Some (''0xtoken'', zero_address, 2 ^ 256 - 1)\<rparr>)) =
   [Some \<lparr>ag_kind = Approve, ag_spender = lower zero_address, ag_amount = 2 ^ 256 - 1, ag_unlimited = True\<rparr>]"
proof -
  have "is_hex 40 zero_address" by code_simp
  from approval_roundtrip [of "demo_delivery\<lparr>dr_approval := Some (''0xtoken'', zero_address, 2 ^ 256 - 1)\<rparr>" "''0xtoken''", OF _ this, of "2 ^ 256 - 1"]
  show ?thesis by simp
qed

section \<open>Nothing is sent unchecked\<close>

text \<open>What the checks established when they passed.\<close>

definition checked :: "gateway_env \<Rightarrow> bool \<Rightarrow> string \<Rightarrow> bool" where
  "checked env waived raw \<longleftrightarrow>
     (\<exists>p. parse_raw env raw = Inr p \<and>
        (waived \<or> check_approval (ge_code env) (rp_data p) (rp_from p) = None) \<and>
        (case burn_check env p of
           None \<Rightarrow> (\<exists>d. simulate_raw env p = Inr d)
         | Some proof \<Rightarrow> dp_reverted proof = None \<and> dp_leaks proof = []))"

lemma assert_safe_checked:
  assumes "assert_safe env waived raw = Inr u"
  shows "checked env waived raw"
proof -
  from assms obtain p where p: "parse_raw env raw = Inr p" by (auto simp: assert_safe_def sbind_Inr)
  show ?thesis unfolding checked_def
    by (rule exI [of _ p]) (use assms p in \<open>auto simp: assert_safe_def sbind_Inr split: option.splits sum.splits if_splits\<close>)
qed

lemma judge_no_leaks:
  "dp_leaks (judge_delivery req delta ls gas) = [] \<Longrightarrow> dr_expect req = [] \<Longrightarrow> dr_pay req = [] \<Longrightarrow> dr_retain req = [] \<Longrightarrow>
   dp_ok (judge_delivery req delta ls gas)"
  by (simp add: judge_delivery_def Let_def)

lemma read_delivery_ok:
  assumes "read_delivery req outs = Some pf" "dp_reverted pf = None" "dp_leaks pf = []"
    and "dr_expect req = []" "dr_pay req = []" "dr_retain req = []" "dr_approval req = None"
  shows "dp_ok pf"
proof (rule ccontr)
  assume "\<not> dp_ok pf"
  then have n: "\<And>delta ls gas. judge_delivery req delta ls gas \<noteq> pf" using assms(3-6) judge_no_leaks by blast
  let ?n = "length (tracked req)" and ?tx = "outs ! (length (tracked req) + length (approval_calls req))"
  let ?ls = "case out_logs ?tx of None \<Rightarrow> [] | Some ls \<Rightarrow> ls"
  obtain gas where g: "(case out_gas_used ?tx of None \<Rightarrow> Some 0 | Some g \<Rightarrow> big_int g) = Some gas"
    using assms(1) unfolding read_delivery_def Let_def by (cases "case out_gas_used ?tx of None \<Rightarrow> Some 0 | Some g \<Rightarrow> big_int g") simp_all
  show False
  proof (cases "out_status ?tx = ''0x1''")
    case True
    show ?thesis
      using assms(1,7) n unfolding read_delivery_def Let_def g
      by (cases "all_some (map read_word (take ?n outs))";
          cases "all_some (map read_word (take ?n (drop (Suc (?n + length (approval_calls req))) outs)))";
          cases "all_some (map (log_leak req) ?ls)") (simp_all add: True)
  next
    case False
    then show ?thesis using assms(1,2) unfolding read_delivery_def Let_def g by (auto simp: no_proof_def)
  qed
qed

lemma prove_delivery_ok:
  assumes "prove_delivery req sims = Some pf" "\<not> dp_unavailable pf" "dp_reverted pf = None" "dp_leaks pf = []"
    and "dr_expect req = []" "dr_pay req = []" "dr_retain req = []" "dr_approval req = None"
  shows "dp_ok pf"
  using assms read_delivery_ok by (auto simp: prove_delivery_def no_proof_def split: sum.splits)

text \<open>
  What a checked transaction can do: when the simulator is honest about two states of the chain, no
  black hole has gained ether by it, and it succeeded.
\<close>

lemma checked_funds:
  assumes "checked env waived raw" "parse_raw env raw = Inr p" "non_empty (rp_to p) = Some to" "burn_check env p \<noteq> None"
    and "honest_for (burn_request p to) bal0 bal1 (ge_simulate env)"
  shows "(\<forall>h \<in> set blackholes. bal1 (track_key h ''eth'') \<le> bal0 (track_key h ''eth'')) \<and>
         (\<exists>outs. ge_simulate env (delivery_calls (burn_request p to)) = Inr outs \<and>
            out_status (outs ! length (tracked (burn_request p to))) = ''0x1'' \<and>
            (\<forall>ls l. out_logs (outs ! length (tracked (burn_request p to))) = Some ls \<and> l \<in> set ls \<longrightarrow> \<not> is_transfer_to_hole l \<or> log_amount l = Some 0))"
proof -
  let ?req = "burn_request p to"
  from assms(1,2,4) obtain pf where b: "burn_check env p = Some pf" "dp_reverted pf = None" "dp_leaks pf = []"
    by (auto simp: checked_def split: option.splits)
  have pr: "prove_delivery ?req [ge_simulate env] = Some pf" "\<not> dp_unavailable pf"
    using b(1) assms(3) by (auto simp: burn_check_def split: option.splits if_splits)
  have r: "dr_expect ?req = []" "dr_pay ?req = []" "dr_retain ?req = []" "dr_allow ?req = []" "approval_calls ?req = []" "dr_approval ?req = None"
    by (simp_all add: burn_request_def approval_calls_def)
  have "dp_ok pf" using prove_delivery_ok [OF pr b(2,3)] r by blast
  from delivery_facts [OF pr(1) this] assms(5)
  have f: "\<forall>h \<in> set blackholes. bal1 (track_key h ''eth'') \<le> bal0 (track_key h ''eth'')"
    "\<exists>sim \<in> set [ge_simulate env]. \<exists>outs tx. sim (delivery_calls ?req) = Inr outs \<and>
      tx = outs ! (length (tracked ?req) + length (approval_calls ?req)) \<and> out_status tx = ''0x1'' \<and>
      (\<forall>ls l. out_logs tx = Some ls \<and> l \<in> set ls \<longrightarrow> log_leak ?req l = Some None)" by auto
  have leak: "\<not> is_transfer_to_hole l \<or> log_amount l = Some 0" if "log_leak ?req l = Some None" for l
    using that by (auto simp: log_leak_def leak_allowed_def r Let_def split: if_splits option.splits)
  from f(2) obtain outs where o: "ge_simulate env (delivery_calls ?req) = Inr outs" "out_status (outs ! length (tracked ?req)) = ''0x1''"
    "\<forall>ls l. out_logs (outs ! length (tracked ?req)) = Some ls \<and> l \<in> set ls \<longrightarrow> log_leak ?req l = Some None"
    unfolding r by auto
  show ?thesis by (intro conjI f(1) exI [of _ outs]) (use o leak in blast)+
qed


text \<open>A gateway whose upstream knows every call and whose simulator finds nothing wrong.\<close>

definition demo_gateway :: gateway_env where
  "demo_gateway =
     \<lparr>ge_parse = (\<lambda>raw. if raw = ''0x02aa'' then Some \<lparr>rp_from = ''0xab'', rp_to = Some ''0xcd'', rp_data = None, rp_value = Some 5\<rparr> else None),
      ge_code = (\<lambda>_. Inr None), ge_simulate = (\<lambda>calls. Inr (replicate (length calls) (demo_out ''0x0''))),
      ge_call = (\<lambda>_. Inr ''0x''), ge_send = (\<lambda>raw. Inr (''sent '' @ raw)), ge_bundler = []\<rparr>"

lemma demo_gateway_routes:
  "route_order_flow demo_gateway (\<lambda>_. AuctionDown ''timeout'') False ''0x02aa'' = ([ToAuction ''0x02aa'', ToSequencer ''0x02aa''], Inr (''sent 0x02aa'', False))"
  by code_simp



definition demo_parsed :: raw_parsed where
  "demo_parsed = \<lparr>rp_from = ''0xab'', rp_to = Some ''0xcd'', rp_data = None, rp_value = Some 5\<rparr>"

lemma demo_gateway_honest: "honest_for req (\<lambda>_. 0) (\<lambda>_. 0) (ge_simulate demo_gateway)"
proof -
  have "read_word (demo_out ''0x0'') = Some 0" by code_simp
  then show ?thesis by (auto simp: honest_for_def demo_gateway_def delivery_calls_def simp del: replicate_Suc replicate.simps)
qed


text \<open>Bundles are simulated, but run neither the approval check nor the delivery check.\<close>

lemma bundle_unchecked:
  "\<exists>env raw. fst (send_bundle env RevertNone [raw]) = [ToSequencer raw] \<and> \<not> checked env False raw"
proof (intro exI conjI)
  let ?env = "demo_gateway\<lparr>ge_simulate := (\<lambda>calls. Inr (map (\<lambda>i. if i < 12 then demo_out ''0x0'' else demo_out ''0x5'') [0..<length calls]))\<rparr>"
  show "fst (send_bundle ?env RevertNone [''0x02aa'']) = [ToSequencer ''0x02aa'']" by code_simp
  have p: "parse_raw ?env ''0x02aa'' = Inr \<lparr>rp_from = ''0xab'', rp_to = Some ''0xcd'', rp_data = None, rp_value = Some 5\<rparr>" by code_simp
  have "map_option (\<lambda>proof. dp_leaks proof = []) (burn_check ?env \<lparr>rp_from = ''0xab'', rp_to = Some ''0xcd'', rp_data = None, rp_value = Some 5\<rparr>) = Some False"
    by code_simp
  then show "\<not> checked ?env False ''0x02aa''" using p by (auto simp: checked_def split: option.splits)
qed

end
