(* ===== verification/GetLogs.thy ===== *)
theory GetLogs
  imports Prelude
begin

text \<open>
  Wide log queries (\<open>apps/gateway/src/getlogs.ts\<close>): a query the upstream refuses for its range is halved
  until it answers, within a budget of calls and of logs. The upstream is a function of the number of
  calls made so far and of the query; it fails with a message, or answers an array of logs
  (\<^const>\<open>None\<close>: something that is not an array). Block numbers are integers.
\<close>

section \<open>The filter and its range\<close>

record log_range =
  lr_from :: "string option"
  lr_to :: "string option"
  lr_block_hash :: "string option"

definition is_range_refusal :: "string \<Rightarrow> bool" where
  "is_range_refusal m =
     (let s = lower m in
      str_includes ''block range'' s \<or> str_includes ''range limit'' s \<or> str_includes ''exceeds limit'' s \<or>
      str_includes ''query returned more than'' s \<or> str_includes ''too many results'' s \<or>
      str_includes ''log response size exceeded'' s \<or> str_includes ''range too large'' s)"

definition range_tags :: "string list" where
  "range_tags = [''latest'', ''pending'', ''safe'', ''finalized'']"

text \<open>\<^const>\<open>None\<close> is the head.\<close>

definition range_tag :: "string option \<Rightarrow> int option \<Rightarrow> int option" where
  "range_tag v fallback =
     (case v of
        None \<Rightarrow> fallback
      | Some t \<Rightarrow>
          if t = [] then fallback
          else if lower t \<in> set range_tags then None
          else if lower t = ''earliest'' then Some 0
          else big_int (lower t))"

text \<open>\<open>head\<close> is the answer to \<open>eth_blockNumber\<close>, which is asked only if one end is the head.\<close>

definition resolve_range :: "string + int option \<Rightarrow> log_range \<Rightarrow> string + (int \<times> int) option" where
  "resolve_range head f =
     (case (range_tag (lr_from f) (Some 0), range_tag (lr_to f) None) of
        (Some a, Some b) \<Rightarrow> Inr (Some (a, b))
      | (a, b) \<Rightarrow>
          (case head of
             Inl e \<Rightarrow> Inl e
           | Inr None \<Rightarrow> Inr None
           | Inr (Some h) \<Rightarrow> Inr (Some (case a of None \<Rightarrow> h | Some x \<Rightarrow> x, case b of None \<Rightarrow> h | Some x \<Rightarrow> x))))"

section \<open>The walk\<close>

datatype log_query = AsAsked | Blocks int int

datatype log_error = UpstreamRefused string | OutOfCalls | OneBlockTooMany int | TooManyLogs | BackwardRange

type_synonym 'l log_rpc = "nat \<Rightarrow> log_query \<Rightarrow> string + 'l list option"

function walk :: "'l log_rpc \<Rightarrow> nat \<Rightarrow> nat \<Rightarrow> int \<Rightarrow> int \<Rightarrow> nat \<Rightarrow> 'l list \<Rightarrow> log_error + (nat \<times> 'l list)" where
  "walk rpc max_calls max_logs from to calls out =
     (if calls \<ge> max_calls then Inl OutOfCalls
      else case rpc calls (Blocks from to) of
             Inl e \<Rightarrow>
               if \<not> is_range_refusal e then Inl (UpstreamRefused e)
               else if from \<ge> to then Inl (OneBlockTooMany from)
               else let mid = from + (to - from) div 2 in
                    (case walk rpc max_calls max_logs from mid (Suc calls) out of
                       Inl e \<Rightarrow> Inl e
                     | Inr (calls', out') \<Rightarrow> walk rpc max_calls max_logs (mid + 1) to calls' out')
           | Inr None \<Rightarrow> Inr (Suc calls, out)
           | Inr (Some logs) \<Rightarrow>
               if length out + length logs > max_logs then Inl TooManyLogs else Inr (Suc calls, out @ logs))"
  by pat_completeness auto
termination
  by (relation "measure (\<lambda>(rpc, mc, ml, from, to, calls, out). nat (to - from))") auto

declare walk.simps [simp del]

text \<open>The default budgets: 40 calls, 150000 logs. \<^const>\<open>None\<close> is the upstream's answer that is no array.\<close>

definition default_calls :: nat where "default_calls = 40"
definition default_logs :: nat where "default_logs = 150000"

definition get_logs_wide ::
  "'l log_rpc \<Rightarrow> string + int option \<Rightarrow> log_range \<Rightarrow> nat \<Rightarrow> nat \<Rightarrow> log_error + (nat \<times> 'l list option)" where
  "get_logs_wide rpc head f max_calls max_logs =
     (if (case lr_block_hash f of None \<Rightarrow> False | Some h \<Rightarrow> h \<noteq> [])
      then (case rpc 0 AsAsked of Inl e \<Rightarrow> Inl (UpstreamRefused e) | Inr r \<Rightarrow> Inr (1, r))
      else case rpc 0 AsAsked of
             Inr r \<Rightarrow> Inr (1, r)
           | Inl e \<Rightarrow>
               if \<not> is_range_refusal e then Inl (UpstreamRefused e)
               else (case resolve_range head f of
                       Inl e \<Rightarrow> Inl (UpstreamRefused e)
                     | Inr None \<Rightarrow> Inl BackwardRange
                     | Inr (Some (from, to)) \<Rightarrow>
                         if to < from then Inl BackwardRange
                         else (case walk rpc max_calls max_logs from to 1 [] of
                                 Inl e \<Rightarrow> Inl e
                               | Inr (calls, out) \<Rightarrow> Inr (calls, Some out))))"

section \<open>Complete or an error\<close>

text \<open>
  An upstream serves a chain: \<open>chain\<close> gives the matching logs of a block, and a query of a range is
  answered with the logs of its blocks, in order, or with an error.
\<close>

definition block_logs :: "(int \<Rightarrow> 'l list) \<Rightarrow> int \<Rightarrow> int \<Rightarrow> 'l list" where
  "block_logs chain a b = concat (map chain [a..b])"

definition serves :: "(int \<Rightarrow> 'l list) \<Rightarrow> 'l log_rpc \<Rightarrow> bool" where
  "serves chain rpc \<longleftrightarrow> (\<forall>i a b r. a \<le> b \<longrightarrow> rpc i (Blocks a b) = Inr r \<longrightarrow> r = Some (block_logs chain a b))"

lemma block_logs_split:
  assumes "a < b"
  shows "block_logs chain a (a + (b - a) div 2) @ block_logs chain (a + (b - a) div 2 + 1) b = block_logs chain a b"
proof -
  have "a \<le> a + (b - a) div 2" "a + (b - a) div 2 < b" using assms by auto
  then have "[a..b] = [a..a + (b - a) div 2] @ [a + (b - a) div 2 + 1..b]" by (intro upto_split2) auto
  then show ?thesis by (simp add: block_logs_def)
qed

lemma walk_complete:
  assumes "serves chain rpc" "walk rpc mc ml from to calls out = Inr (calls', out')" "from \<le> to"
  shows "out' = out @ block_logs chain from to \<and> calls < calls' \<and> calls' \<le> mc"
  using assms
proof (induction rpc mc ml "from" to calls out arbitrary: calls' out' rule: walk.induct)
  case (1 rpc mc ml a b calls out)
  note w = 1(4) [unfolded walk.simps [of rpc mc ml a b calls out]]
  have c: "calls < mc" using w by (auto split: if_splits)
  show ?case
  proof (cases "rpc calls (Blocks a b)")
    case (Inr r)
    then have "r = Some (block_logs chain a b)" using 1(3,5) by (auto simp: serves_def)
    then show ?thesis using w c Inr by (auto split: if_splits)
  next
    case (Inl e)
    let ?m = "a + (b - a) div 2"
    have r: "is_range_refusal e" "a < b" using w c Inl by (auto split: if_splits)
    with w c Inl obtain c1 o1 where s: "walk rpc mc ml a ?m (Suc calls) out = Inr (c1, o1)" "walk rpc mc ml (?m + 1) b c1 o1 = Inr (calls', out')"
      by (auto simp: Let_def split: sum.splits)
    have "a \<le> ?m" "?m + 1 \<le> b" using r(2) by auto
    have "o1 = out @ block_logs chain a ?m \<and> Suc calls < c1 \<and> c1 \<le> mc"
      by (rule 1(1) [OF _ Inl _ _ refl 1(3) s(1) \<open>a \<le> ?m\<close>]) (use c r in auto)
    moreover have "out' = o1 @ block_logs chain (?m + 1) b \<and> c1 < calls' \<and> calls' \<le> mc"
      by (rule 1(2) [OF _ Inl _ _ refl s(1) refl 1(3) s(2) \<open>?m + 1 \<le> b\<close>]) (use c r in auto)
    ultimately show ?thesis using block_logs_split [OF r(2)] by (metis append_assoc less_trans Suc_lessD)
  qed
qed

lemma walk_bounded:
  "walk rpc mc ml from to calls out = Inr (calls', out') \<Longrightarrow> length out \<le> ml \<Longrightarrow> length out' \<le> ml"
proof (induction rpc mc ml "from" to calls out arbitrary: calls' out' rule: walk.induct)
  case (1 rpc mc ml a b calls out)
  note w = 1(3) [unfolded walk.simps [of rpc mc ml a b calls out]]
  have c: "calls < mc" using w by (auto split: if_splits)
  show ?case
  proof (cases "rpc calls (Blocks a b)")
    case (Inr r)
    then show ?thesis using w c 1(4) by (auto split: if_splits option.splits)
  next
    case (Inl e)
    let ?m = "a + (b - a) div 2"
    have r: "is_range_refusal e" "a < b" using w c Inl by (auto split: if_splits)
    with w c Inl obtain c1 o1 where s: "walk rpc mc ml a ?m (Suc calls) out = Inr (c1, o1)" "walk rpc mc ml (?m + 1) b c1 o1 = Inr (calls', out')"
      by (auto simp: Let_def split: sum.splits)
    have "length o1 \<le> ml" by (rule 1(1) [OF _ Inl _ _ refl s(1) 1(4)]) (use c r in auto)
    then show ?thesis by (intro 1(2) [OF _ Inl _ _ refl s(1) refl s(2)]) (use c r in auto)
  qed
qed

text \<open>
  C3: A wide log query is answered completely or not at all: whenever an answer comes back, it is the
  logs of every block of the range, in block order, however often the range had to be split, for at most
  the budget of calls; an answer put together from parts is within the budget of logs.
\<close>

theorem wide_logs_complete:
  assumes "get_logs_wide rpc head f mc ml = Inr (n, r)" "lr_block_hash f = None" "resolve_range head f = Inr (Some (a, b))"
    and "serves chain rpc" "\<forall>x. rpc 0 AsAsked = Inr x \<longrightarrow> x = Some (block_logs chain a b)"
  shows "r = Some (block_logs chain a b) \<and> n \<le> max 1 mc \<and> (n = 1 \<or> length (block_logs chain a b) \<le> ml)"
proof (cases "rpc 0 AsAsked")
  case (Inr x)
  then show ?thesis using assms by (simp add: get_logs_wide_def)
next
  case (Inl e)
  with assms(1,2,3) obtain out where w: "a \<le> b" "walk rpc mc ml a b 1 [] = Inr (n, out)" "r = Some out"
    by (auto simp: get_logs_wide_def split: if_splits sum.splits)
  show ?thesis using walk_complete [OF assms(4) w(2,1)] walk_bounded [OF w(2)] w(3) by simp
qed

lemma block_logs_length: "a < b \<Longrightarrow> length (block_logs chain a (a + (b - a) div 2)) + length (block_logs chain (a + (b - a) div 2 + 1) b) = length (block_logs chain a b)"
  using block_logs_split [of a b chain] by (metis length_append)

lemma half_widths: "a < (b :: int) \<Longrightarrow> nat (b - a + 1) = nat (a + (b - a) div 2 - a + 1) + nat (b - (a + (b - a) div 2 + 1) + 1)"
  by auto

lemma walk_answers:
  assumes "serves chain rpc" "\<forall>i q e. rpc i q = Inl e \<longrightarrow> is_range_refusal e" "\<forall>i c e. rpc i (Blocks c c) \<noteq> Inl e"
    and "a \<le> b" "calls + 2 * nat (b - a + 1) \<le> Suc mc" "length out + length (block_logs chain a b) \<le> ml"
  shows "\<exists>calls'. walk rpc mc ml a b calls out = Inr (calls', out @ block_logs chain a b) \<and> calls' + 1 \<le> calls + 2 * nat (b - a + 1)"
  using assms(4-)
proof (induction "nat (b - a)" arbitrary: a b calls out rule: less_induct)
  case less
  have c: "calls < mc" using less(2,3) by simp
  show ?case
  proof (cases "rpc calls (Blocks a b)")
    case (Inr r)
    then have "r = Some (block_logs chain a b)" using assms(1) less(2) by (auto simp: serves_def)
    then show ?thesis using c Inr less(2,4) by (auto simp: walk.simps [of rpc mc ml a b calls out])
  next
    case (Inl e)
    let ?m = "a + (b - a) div 2"
    have r: "is_range_refusal e" "a < b" using Inl assms(2,3) less(2) by (metis, metis order_le_less)
    have m: "a \<le> ?m" "?m + 1 \<le> b" "nat (?m - a) < nat (b - a)" "nat (b - (?m + 1)) < nat (b - a)" using r(2) by auto
    note wd = half_widths [OF r(2)] and bl = block_logs_length [OF r(2), of chain]
    have "\<exists>c1. walk rpc mc ml a ?m (Suc calls) out = Inr (c1, out @ block_logs chain a ?m) \<and> c1 + 1 \<le> Suc calls + 2 * nat (?m - a + 1)"
      by (rule less(1) [OF m(3,1)]) (use less(3,4) wd bl m(2) in linarith)+
    then obtain c1 where c1: "walk rpc mc ml a ?m (Suc calls) out = Inr (c1, out @ block_logs chain a ?m)"
      "c1 + 1 \<le> Suc calls + 2 * nat (?m - a + 1)" by blast
    have "\<exists>c2. walk rpc mc ml (?m + 1) b c1 (out @ block_logs chain a ?m) = Inr (c2, (out @ block_logs chain a ?m) @ block_logs chain (?m + 1) b) \<and>
        c2 + 1 \<le> c1 + 2 * nat (b - (?m + 1) + 1)"
      by (rule less(1) [OF m(4,2)]) (use c1(2) less(3,4) wd bl in \<open>simp_all\<close>)
    then obtain c2 where c2: "walk rpc mc ml (?m + 1) b c1 (out @ block_logs chain a ?m) = Inr (c2, out @ block_logs chain a b)"
      "c2 + 1 \<le> c1 + 2 * nat (b - (?m + 1) + 1)" by (auto simp: block_logs_split [OF r(2)])
    have "walk rpc mc ml a b calls out = Inr (c2, out @ block_logs chain a b)"
      using c r Inl c1(1) c2(1) by (simp add: walk.simps [of rpc mc ml a b calls out] Let_def)
    moreover have "c2 + 1 \<le> calls + 2 * nat (b - a + 1)" using c1(2) c2(2) wd by linarith
    ultimately show ?thesis by blast
  qed
qed


section \<open>An upstream that serves one block at a time\<close>

definition demo_log_rpc :: "int log_rpc" where
  "demo_log_rpc i q =
     (case q of
        AsAsked \<Rightarrow> Inl ''Block range limit exceeded''
      | Blocks a b \<Rightarrow> if a = b then Inr (Some (block_logs (\<lambda>k. [k, k]) a b)) else Inl ''Block range limit exceeded'')"

definition demo_range :: log_range where
  "demo_range = \<lparr>lr_from = Some ''0x3'', lr_to = Some ''latest'', lr_block_hash = None\<rparr>"

lemma demo_log_rpc_serves: "serves (\<lambda>k. [k, k]) demo_log_rpc"
  by (auto simp: serves_def demo_log_rpc_def split: if_splits)

lemma demo_refusal: "is_range_refusal ''Block range limit exceeded''"
  by code_simp

lemma demo_range_is: "resolve_range (Inr (Some 6)) demo_range = Inr (Some (3, 6))"
  by code_simp

lemma demo_logs: "block_logs (\<lambda>k. [k, k]) 3 6 = [3, 3, 4, 4, 5, 5, 6, 6]"
  by (simp add: block_logs_def upto.simps)

lemma demo_walk: "get_logs_wide demo_log_rpc (Inr (Some 6)) demo_range 40 100 = Inr (8, Some [3, 3, 4, 4, 5, 5, 6, 6])"
  by code_simp

theorem wide_logs_complete_witness: "Some [3, 3, 4, 4, 5, 5, 6, 6] = Some (block_logs (\<lambda>k. [k, k]) 3 6) \<and> (8 :: nat) \<le> max 1 40"
proof -
  have h: "lr_block_hash demo_range = None" by (simp add: demo_range_def)
  show ?thesis
    using wide_logs_complete [OF demo_walk h demo_range_is demo_log_rpc_serves] by (simp add: demo_log_rpc_def)
qed


end
