(* ===== verification/Subscribe.thy ===== *)
theory Subscribe
  imports Upstream
begin

text \<open>
  Subscriptions (\<open>apps/gateway/src/subscribe.ts\<close>): the filter of a log subscription, who is subscribed to
  what (\<open>Hub\<close>), and the walk from one head to the next (\<open>HeadWatcher\<close>). Sinks are numbers, the random
  id of a subscription is an input, and a block or log is the JSON object the upstream gave.
\<close>

section \<open>Filters\<close>

type_synonym js_object = "(string \<times> json) list"

definition field :: "string \<Rightarrow> js_object \<Rightarrow> json option" where
  "field k ob = member k (Obj ob)"

record log_filter =
  lf_address :: "string list option"
  lf_topics :: "string list option list"

definition lower_json :: "json \<Rightarrow> string" where
  "lower_json v = lower (js_string (Some v))"

text \<open>A value, or a list of values, or (anything else, an empty list) no constraint.\<close>

definition choices :: "json option \<Rightarrow> string list option" where
  "choices v =
     (case v of
        Some (Str s) \<Rightarrow> Some [lower s]
      | Some (Arr (x # xs)) \<Rightarrow> Some (map lower_json (x # xs))
      | _ \<Rightarrow> None)"

definition parse_log_filter :: "json option \<Rightarrow> log_filter" where
  "parse_log_filter param =
     (let get = (\<lambda>k. case param of None \<Rightarrow> None | Some p \<Rightarrow> member k p) in
      \<lparr>lf_address = choices (get ''address''),
       lf_topics = (case get ''topics'' of Some (Arr ts) \<Rightarrow> map (\<lambda>t. choices (Some t)) (take 4 ts) | _ \<Rightarrow> [])\<rparr>)"

record raw_log =
  rl_address :: string
  rl_topics :: "string list"
  rl_fields :: js_object

fun topics_match :: "string list option list \<Rightarrow> string list \<Rightarrow> bool" where
  "topics_match [] got = True"
| "topics_match (None # fs) got = topics_match fs (tl got)"
| "topics_match (Some want # fs) [] = False"
| "topics_match (Some want # fs) (g # gs) = (g \<noteq> [] \<and> lower g \<in> set want \<and> topics_match fs gs)"

definition log_matches :: "raw_log \<Rightarrow> log_filter \<Rightarrow> bool" where
  "log_matches l f =
     ((case lf_address f of None \<Rightarrow> True | Some want \<Rightarrow> lower (rl_address l) \<in> set want) \<and> topics_match (lf_topics f) (rl_topics l))"

lemma topics_match_iff:
  "topics_match fs got \<longleftrightarrow>
     (\<forall>i < length fs. \<forall>want. fs ! i = Some want \<longrightarrow> i < length got \<and> got ! i \<noteq> [] \<and> lower (got ! i) \<in> set want)"
proof (induction fs got rule: topics_match.induct)
  case (2 fs got)
  then show ?case by (cases got) (auto simp: nth_Cons less_Suc_eq_0_disj split: nat.splits)
qed (auto simp: nth_Cons less_Suc_eq_0_disj split: nat.splits)

section \<open>The hub\<close>

datatype sub_kind = NewHeads | Logs

record subscription =
  sn_sink :: nat
  sn_kind :: sub_kind
  sn_filter :: "log_filter option"

record hub =
  hub_ids :: "(string \<times> subscription) list"
  hub_sinks :: "(nat \<times> string list) list"
  hub_heads :: int
  hub_logs :: int

definition new_hub :: hub where
  "new_hub = \<lparr>hub_ids = [], hub_sinks = [], hub_heads = 0, hub_logs = 0\<rparr>"

definition count_kind :: "sub_kind \<Rightarrow> int \<Rightarrow> hub \<Rightarrow> hub" where
  "count_kind k d h = (case k of NewHeads \<Rightarrow> h\<lparr>hub_heads := hub_heads h + d\<rparr> | Logs \<Rightarrow> h\<lparr>hub_logs := hub_logs h + d\<rparr>)"

definition hub_add :: "string \<Rightarrow> nat \<Rightarrow> sub_kind \<Rightarrow> log_filter option \<Rightarrow> hub \<Rightarrow> hub" where
  "hub_add i sink k f h =
     (let own = jget_or [] (hub_sinks h) sink in
      count_kind k 1
        (h\<lparr>hub_ids := jset i \<lparr>sn_sink = sink, sn_kind = k, sn_filter = f\<rparr> (hub_ids h),
           hub_sinks := jset sink (if i \<in> set own then own else own @ [i]) (hub_sinks h)\<rparr>))"

definition hub_remove :: "nat \<Rightarrow> string \<Rightarrow> hub \<Rightarrow> bool \<times> hub" where
  "hub_remove sink i h =
     (case jget (hub_ids h) i of
        None \<Rightarrow> (False, h)
      | Some e \<Rightarrow>
          if sn_sink e \<noteq> sink then (False, h)
          else (True, count_kind (sn_kind e) (- 1)
                  (h\<lparr>hub_ids := jdel i (hub_ids h),
                     hub_sinks := (case jget (hub_sinks h) sink of None \<Rightarrow> hub_sinks h | Some own \<Rightarrow> jset sink (removeAll i own) (hub_sinks h))\<rparr>)))"

definition drop_id :: "string \<Rightarrow> hub \<Rightarrow> hub" where
  "drop_id i h =
     (case jget (hub_ids h) i of
        None \<Rightarrow> h
      | Some e \<Rightarrow> count_kind (sn_kind e) (- 1) (h\<lparr>hub_ids := jdel i (hub_ids h)\<rparr>))"

definition hub_drop :: "nat \<Rightarrow> hub \<Rightarrow> nat \<times> hub" where
  "hub_drop sink h =
     (case jget (hub_sinks h) sink of
        None \<Rightarrow> (0, h)
      | Some own \<Rightarrow> let h1 = fold drop_id own h in (length own, h1\<lparr>hub_sinks := jdel sink (hub_sinks h1)\<rparr>))"

definition count_of :: "hub \<Rightarrow> nat \<Rightarrow> nat" where
  "count_of h sink = length (jget_or [] (hub_sinks h) sink)"

definition hub_size :: "hub \<Rightarrow> nat" where
  "hub_size h = length (hub_ids h)"

definition wants_heads :: "hub \<Rightarrow> bool" where
  "wants_heads h = (hub_heads h > 0)"

definition wants_logs :: "hub \<Rightarrow> bool" where
  "wants_logs h = (hub_logs h > 0)"

text \<open>What a sink is sent: the subscription and the header or log.\<close>

datatype payload = HeadOf js_object | LogOf raw_log

definition push_head :: "js_object \<Rightarrow> hub \<Rightarrow> (nat \<times> string \<times> payload) list" where
  "push_head header h = map (\<lambda>(i, e). (sn_sink e, i, HeadOf header)) (filter (\<lambda>(i, e). sn_kind e = NewHeads) (hub_ids h))"

definition push_logs :: "raw_log list \<Rightarrow> hub \<Rightarrow> (nat \<times> string \<times> payload) list" where
  "push_logs logs h =
     concat (map (\<lambda>(i, e). case sn_filter e of
                             None \<Rightarrow> []
                           | Some f \<Rightarrow> if sn_kind e \<noteq> Logs then [] else map (\<lambda>l. (sn_sink e, i, LogOf l)) (filter (\<lambda>l. log_matches l f) logs))
            (hub_ids h))"

section \<open>The head watcher\<close>

definition header_drops :: "string list" where
  "header_drops = [''transactions'', ''uncles'', ''withdrawals'', ''size'']"

definition to_header :: "js_object \<Rightarrow> js_object" where
  "to_header b = filter (\<lambda>kv. fst kv \<notin> set header_drops) b"

text \<open>\<open>Number\<close> of a block's number; \<^const>\<open>None\<close> where it is not finite.\<close>

definition block_number :: "js_object \<Rightarrow> int option" where
  "block_number b =
     (case field ''number'' b of Some (Num n) \<Rightarrow> Some n | Some (Str s) \<Rightarrow> big_int s | _ \<Rightarrow> None)"

datatype tick_phase = Resting | AskingHead | AskingBlocks js_object int int

text \<open>A log fetch of a range, with its answer once it has one.\<close>

type_synonym log_fetch = "(int \<times> int) \<times> (string + raw_log list option) option"

record watcher =
  hw_running :: bool
  hw_phase :: tick_phase
  hw_last :: int
  hw_fetches :: "log_fetch list"

definition new_watcher :: watcher where
  "new_watcher = \<lparr>hw_running = False, hw_phase = Resting, hw_last = 0, hw_fetches = []\<rparr>"

datatype watch_output =
    AskHead
  | AskBlocks "int list"
  | AskLogs int int
  | OnBlock js_object
  | OnHead js_object
  | OnLogs int int "raw_log list"
  | OnError string

datatype watch_event =
    Start
  | Stop
  | Tick
  | HeadReply "string + js_object option" bool
  | BlocksReply "string + js_object option list" bool
  | LogsReply nat "string + raw_log list option"

definition begin_tick :: "watcher \<Rightarrow> watcher \<times> watch_output list" where
  "begin_tick w = (if hw_phase w \<noteq> Resting then (w, []) else (w\<lparr>hw_phase := AskingHead\<rparr>, [AskHead]))"

text \<open>The end of a tick: the head itself, the logs of everything the tick advanced over, the new position.\<close>

definition end_tick :: "bool \<Rightarrow> js_object \<Rightarrow> int \<Rightarrow> int \<Rightarrow> watcher \<Rightarrow> watcher \<times> watch_output list" where
  "end_tick wants head n from w =
     (w\<lparr>hw_phase := Resting, hw_last := n, hw_fetches := hw_fetches w @ (if wants then [((from, n), None)] else [])\<rparr>,
      OnHead (to_header head) # (if wants then [AskLogs from n] else []))"

definition head_reply :: "int \<Rightarrow> bool \<Rightarrow> string + js_object option \<Rightarrow> watcher \<Rightarrow> watcher \<times> watch_output list" where
  "head_reply max_catch_up wants r w =
     (let rest = w\<lparr>hw_phase := Resting\<rparr> in
      case r of
        Inl e \<Rightarrow> (rest, [OnError e])
      | Inr None \<Rightarrow> (rest, [])
      | Inr (Some b) \<Rightarrow>
          if \<not> truthy (field ''number'' b) then (rest, [])
          else case block_number b of
                 None \<Rightarrow> (rest, [OnBlock b])
               | Some n \<Rightarrow>
                   if n \<le> hw_last w then (rest, [OnBlock b])
                   else let from = (if hw_last w = 0 then n else max (hw_last w + 1) (n - max_catch_up + 1)) in
                        if from < n then (w\<lparr>hw_phase := AskingBlocks b n from\<rparr>, [OnBlock b, AskBlocks [from..n - 1]])
                        else (let (w', out) = end_tick wants b n from w in (w', OnBlock b # out)))"

definition announce :: "js_object option list \<Rightarrow> watch_output list" where
  "announce bs = concat (map (\<lambda>x. case x of None \<Rightarrow> [] | Some b \<Rightarrow> [OnBlock b, OnHead (to_header b)]) bs)"

definition blocks_reply :: "bool \<Rightarrow> string + js_object option list \<Rightarrow> js_object \<Rightarrow> int \<Rightarrow> int \<Rightarrow> watcher \<Rightarrow> watcher \<times> watch_output list" where
  "blocks_reply wants r head n from w =
     (case r of
        Inl e \<Rightarrow> (w\<lparr>hw_phase := Resting\<rparr>, [OnError e])
      | Inr bs \<Rightarrow> let (w', out) = end_tick wants head n from w in (w', announce bs @ out))"

text \<open>The chain of deliveries: a fetch is delivered when it and all before it are answered.\<close>

fun deliver :: "log_fetch list \<Rightarrow> log_fetch list \<times> watch_output list" where
  "deliver (((a, b), Some r) # fs) =
     (let (rest, out) = deliver fs in
      (rest, (case r of Inl e \<Rightarrow> [OnError e] | Inr (Some (l # ls)) \<Rightarrow> [OnLogs a b (l # ls)] | _ \<Rightarrow> []) @ out))"
| "deliver fs = (fs, [])"

definition logs_reply :: "nat \<Rightarrow> string + raw_log list option \<Rightarrow> watcher \<Rightarrow> watcher \<times> watch_output list" where
  "logs_reply i r w =
     (if i < length (hw_fetches w) \<and> snd (hw_fetches w ! i) = None
      then let (rest, out) = deliver ((hw_fetches w)[i := (fst (hw_fetches w ! i), Some r)]) in (w\<lparr>hw_fetches := rest\<rparr>, out)
      else (w, []))"

definition watch_step :: "int \<Rightarrow> watch_event \<Rightarrow> watcher \<Rightarrow> watcher \<times> watch_output list" where
  "watch_step max_catch_up e w =
     (case e of
        Start \<Rightarrow> if hw_running w then (w, []) else begin_tick (w\<lparr>hw_running := True\<rparr>)
      | Stop \<Rightarrow> (w\<lparr>hw_running := False, hw_last := 0\<rparr>, [])
      | Tick \<Rightarrow> if hw_running w then begin_tick w else (w, [])
      | HeadReply r wants \<Rightarrow> if hw_phase w = AskingHead then head_reply max_catch_up wants r w else (w, [])
      | BlocksReply r wants \<Rightarrow>
          (case hw_phase w of AskingBlocks b n from \<Rightarrow> blocks_reply wants r b n from w | _ \<Rightarrow> (w, []))
      | LogsReply i r \<Rightarrow> logs_reply i r w)"

fun watch_run :: "int \<Rightarrow> watch_event list \<Rightarrow> watcher \<Rightarrow> watcher \<times> watch_output list" where
  "watch_run mc [] w = (w, [])"
| "watch_run mc (e # es) w =
     (let (w1, out1) = watch_step mc e w; (w2, out2) = watch_run mc es w1 in (w2, out1 @ out2))"

end
