(* ===== verification/HubContract.thy ===== *)
theory HubContract
  imports Subscribe
begin

text \<open>
  The contract of the hub of \<open>apps/gateway/src/subscribe.ts\<close>: the operations over maps and counters
  implement a plain list of live subscriptions.
\<close>

section \<open>The hub implements a list of subscriptions\<close>

datatype hub_op = Add string nat sub_kind "log_filter option" | Remove nat string | Drop nat

definition hub_apply :: "hub_op \<Rightarrow> hub \<Rightarrow> hub" where
  "hub_apply op h =
     (case op of
        Add i s k f \<Rightarrow> hub_add i s k f h
      | Remove s i \<Rightarrow> snd (hub_remove s i h)
      | Drop s \<Rightarrow> snd (hub_drop s h))"

definition hub_run :: "hub_op list \<Rightarrow> hub" where
  "hub_run ops = fold hub_apply ops new_hub"

text \<open>The contract: the live subscriptions in the order they were made.\<close>

type_synonym subscriptions = "(string \<times> subscription) list"

definition subs_apply :: "hub_op \<Rightarrow> subscriptions \<Rightarrow> subscriptions" where
  "subs_apply op subs =
     (case op of
        Add i s k f \<Rightarrow> subs @ [(i, \<lparr>sn_sink = s, sn_kind = k, sn_filter = f\<rparr>)]
      | Remove s i \<Rightarrow> filter (\<lambda>p. \<not> (fst p = i \<and> sn_sink (snd p) = s)) subs
      | Drop s \<Rightarrow> filter (\<lambda>p. sn_sink (snd p) \<noteq> s) subs)"

definition subs_run :: "hub_op list \<Rightarrow> subscriptions" where
  "subs_run ops = fold subs_apply ops []"

text \<open>The random ids do not repeat one that is live.\<close>

fun fresh_ids :: "hub_op list \<Rightarrow> subscriptions \<Rightarrow> bool" where
  "fresh_ids [] subs = True"
| "fresh_ids (op # ops) subs =
     ((case op of Add i s k f \<Rightarrow> jget subs i = None | _ \<Rightarrow> True) \<and> fresh_ids ops (subs_apply op subs))"

definition kind_count :: "sub_kind \<Rightarrow> subscriptions \<Rightarrow> int" where
  "kind_count k subs = (\<Sum>p \<leftarrow> subs. of_bool (sn_kind (snd p) = k))"

definition owned :: "nat \<Rightarrow> subscriptions \<Rightarrow> string set" where
  "owned s subs = {i. \<exists>e. jget subs i = Some e \<and> sn_sink e = s}"

definition hub_inv :: "hub \<Rightarrow> bool" where
  "hub_inv h \<longleftrightarrow>
     jwf (hub_ids h) \<and> jwf (hub_sinks h) \<and>
     hub_heads h = kind_count NewHeads (hub_ids h) \<and> hub_logs h = kind_count Logs (hub_ids h) \<and>
     (\<forall>s. distinct (jget_or [] (hub_sinks h) s) \<and> set (jget_or [] (hub_sinks h) s) = owned s (hub_ids h))"

lemma count_kind_fields [simp]:
  "hub_ids (count_kind k d h) = hub_ids h" "hub_sinks (count_kind k d h) = hub_sinks h"
  "hub_heads (count_kind k d h) = hub_heads h + (if k = NewHeads then d else 0)"
  "hub_logs (count_kind k d h) = hub_logs h + (if k = Logs then d else 0)"
  by (cases k; simp add: count_kind_def)+

lemma kind_count_jset: "jget m i = None \<Longrightarrow> kind_count k (jset i e m) = kind_count k m + of_bool (sn_kind e = k)"
  by (simp add: kind_count_def jset_append)

lemma kind_count_jdel: "jwf m \<Longrightarrow> jget m i = Some e \<Longrightarrow> kind_count k (jdel i m) = kind_count k m - of_bool (sn_kind e = k)"
  by (simp add: kind_count_def sum_jdel del: map_of_eq_Some_iff)

lemma owned_jset: "jget m i = None \<Longrightarrow> owned s (jset i e m) = owned s m \<union> (if sn_sink e = s then {i} else {})"
  by (auto simp: owned_def)

lemma owned_jdel: "owned s (jdel i m) = owned s m - {i}"
  by (auto simp: owned_def split: if_splits)

lemma jdel_filter: "jdel i m = filter (\<lambda>p. fst p \<noteq> i) m"
  by (induction m) auto

lemma hub_add_inv:
  assumes "hub_inv h" "jget (hub_ids h) i = None"
  shows "hub_inv (hub_add i s k f h)" "hub_ids (hub_add i s k f h) = hub_ids h @ [(i, \<lparr>sn_sink = s, sn_kind = k, sn_filter = f\<rparr>)]"
proof -
  have "i \<notin> set (jget_or [] (hub_sinks h) s)" using assms by (auto simp: hub_inv_def owned_def)
  then show "hub_inv (hub_add i s k f h)"
    using assms by (auto simp: hub_inv_def hub_add_def Let_def kind_count_jset owned_jset)
  show "hub_ids (hub_add i s k f h) = hub_ids h @ [(i, \<lparr>sn_sink = s, sn_kind = k, sn_filter = f\<rparr>)]"
    using assms(2) by (simp add: hub_add_def Let_def jset_append)
qed

lemma jget_unique: "jwf m \<Longrightarrow> jget m i = Some e \<Longrightarrow> p \<in> set m \<Longrightarrow> fst p = i \<Longrightarrow> snd p = e"
  by (metis prod.collapse map_of_eq_Some_iff option.inject)

lemma hub_remove_inv:
  assumes "hub_inv h"
  shows "hub_inv (snd (hub_remove s i h))"
    "hub_ids (snd (hub_remove s i h)) = filter (\<lambda>p. \<not> (fst p = i \<and> sn_sink (snd p) = s)) (hub_ids h)"
proof -
  have wf: "jwf (hub_ids h)" using assms by (simp add: hub_inv_def)
  note d = option.splits hub_remove_def
  show "hub_inv (snd (hub_remove s i h))"
  proof (cases "jget (hub_ids h) i")
    case (Some e)
    show ?thesis
    proof (cases "sn_sink e = s")
      case True
      have "i \<in> owned s (hub_ids h)" using Some True by (simp add: owned_def)
      then have "i \<in> set (jget_or [] (hub_sinks h) s)" using assms by (simp add: hub_inv_def)
      then obtain own where own: "jget (hub_sinks h) s = Some own" by (cases "jget (hub_sinks h) s") (simp_all add: jget_or_def)
      have "jget_or [] (hub_sinks h) s = own" using own by (simp add: jget_or_def)
      moreover have "i \<notin> owned s' (hub_ids h)" if "s' \<noteq> s" for s' using Some True that by (simp add: owned_def)
      ultimately show ?thesis
        using assms Some True own
        by (auto simp: hub_inv_def hub_remove_def kind_count_jdel owned_jdel distinct_removeAll simp del: map_of_eq_Some_iff)
    qed (use assms Some in \<open>simp add: hub_remove_def\<close>)
  qed (use assms in \<open>simp add: hub_remove_def\<close>)
  show "hub_ids (snd (hub_remove s i h)) = filter (\<lambda>p. \<not> (fst p = i \<and> sn_sink (snd p) = s)) (hub_ids h)"
  proof (cases "jget (hub_ids h) i")
    case None
    then have "fst p \<noteq> i" if "p \<in> set (hub_ids h)" for p using that by (auto simp: map_of_eq_None_iff)
    then show ?thesis using None by (simp add: hub_remove_def)
  next
    case (Some e)
    have u: "snd p = e" if "p \<in> set (hub_ids h)" "fst p = i" for p by (rule jget_unique [OF wf Some that])
    show ?thesis
    proof (cases "sn_sink e = s")
      case True
      have "filter (\<lambda>p. fst p \<noteq> i) (hub_ids h) = filter (\<lambda>p. \<not> (fst p = i \<and> sn_sink (snd p) = s)) (hub_ids h)"
        by (rule filter_cong [OF refl]) (use u True in auto)
      then show ?thesis using Some True by (simp add: hub_remove_def jdel_filter)
    next
      case False
      have "filter (\<lambda>p. \<not> (fst p = i \<and> sn_sink (snd p) = s)) (hub_ids h) = hub_ids h"
        by (rule filter_True) (use u False in auto)
      then show ?thesis using Some False by (simp add: hub_remove_def)
    qed
  qed
qed

definition counts_ok :: "hub \<Rightarrow> bool" where
  "counts_ok h \<longleftrightarrow> jwf (hub_ids h) \<and> hub_heads h = kind_count NewHeads (hub_ids h) \<and> hub_logs h = kind_count Logs (hub_ids h)"

lemma drop_ids:
  assumes "counts_ok h"
  shows "counts_ok (fold drop_id own h)" "hub_sinks (fold drop_id own h) = hub_sinks h"
    "hub_ids (fold drop_id own h) = filter (\<lambda>p. fst p \<notin> set own) (hub_ids h)"
  using assms
proof (induction own arbitrary: h)
  case Nil
  case 1 then show ?case by simp
  case 2 then show ?case by simp
  case 3 then show ?case by simp
next
  case (Cons i own)
  have s: "counts_ok (drop_id i h)" "hub_sinks (drop_id i h) = hub_sinks h" "hub_ids (drop_id i h) = filter (\<lambda>p. fst p \<noteq> i) (hub_ids h)"
    if c: "counts_ok h" for h
  proof -
    show "counts_ok (drop_id i h)" "hub_sinks (drop_id i h) = hub_sinks h"
      using c by (auto simp: counts_ok_def drop_id_def kind_count_jdel split: option.splits simp del: map_of_eq_Some_iff)
    show "hub_ids (drop_id i h) = filter (\<lambda>p. fst p \<noteq> i) (hub_ids h)"
    proof (cases "jget (hub_ids h) i")
      case None
      then have "filter (\<lambda>p. fst p \<noteq> i) (hub_ids h) = hub_ids h"
        by (intro filter_True) (auto simp: map_of_eq_None_iff)
      with None show ?thesis by (simp add: drop_id_def)
    qed (simp add: drop_id_def jdel_filter)
  qed
  case 1 show ?case using Cons.IH(1) [OF s(1) [OF 1]] by simp
  case 2 show ?case using Cons.IH(2) [OF s(1) [OF 2]] s(2) [OF 2] by simp
  case 3 show ?case using Cons.IH(3) [OF s(1) [OF 3]] s(3) [OF 3] by (simp add: conj_commute)
qed

lemma owned_filter: "jwf m \<Longrightarrow> owned s (filter (\<lambda>p. sn_sink (snd p) \<noteq> t) m) = (if s = t then {} else owned s m)"
  using jget_filter [of m "\<lambda>e. sn_sink e \<noteq> t"] by (auto simp: owned_def case_prod_unfold split: option.splits if_splits simp del: map_of_eq_Some_iff)

lemma hub_drop_inv:
  assumes "hub_inv h"
  shows "hub_inv (snd (hub_drop s h))" "hub_ids (snd (hub_drop s h)) = filter (\<lambda>p. sn_sink (snd p) \<noteq> s) (hub_ids h)"
proof -
  have wf: "jwf (hub_ids h)" and c: "counts_ok h" using assms by (simp_all add: hub_inv_def counts_ok_def)
  have own: "set (jget_or [] (hub_sinks h) s) = owned s (hub_ids h)" using assms by (simp add: hub_inv_def)
  have mem: "fst p \<in> owned s (hub_ids h) \<longleftrightarrow> sn_sink (snd p) = s" if "p \<in> set (hub_ids h)" for p
  proof -
    have "jget (hub_ids h) (fst p) = Some (snd p)" using wf that by (simp add: map_of_is_SomeI)
    then show ?thesis by (simp add: owned_def del: map_of_eq_Some_iff)
  qed
  show ids: "hub_ids (snd (hub_drop s h)) = filter (\<lambda>p. sn_sink (snd p) \<noteq> s) (hub_ids h)"
  proof (cases "jget (hub_sinks h) s")
    case None
    then have "owned s (hub_ids h) = {}" using own by (simp add: jget_or_def)
    then show ?thesis using None mem by (simp add: hub_drop_def)
  next
    case (Some os)
    then have "set os = owned s (hub_ids h)" using own by (simp add: jget_or_def)
    then have "filter (\<lambda>p. fst p \<notin> set os) (hub_ids h) = filter (\<lambda>p. sn_sink (snd p) \<noteq> s) (hub_ids h)"
      using mem by (intro filter_cong) auto
    then show ?thesis using Some drop_ids(3) [OF c, of os] by (simp add: hub_drop_def Let_def)
  qed
  show "hub_inv (snd (hub_drop s h))"
  proof (cases "jget (hub_sinks h) s")
    case None
    then show ?thesis using assms by (simp add: hub_drop_def)
  next
    case (Some os)
    let ?h = "snd (hub_drop s h)"
    have h: "?h = (fold drop_id os h)\<lparr>hub_sinks := jdel s (hub_sinks h)\<rparr>"
      using Some drop_ids(2) [OF c, of os] by (simp add: hub_drop_def Let_def)
    have "counts_ok ?h" unfolding h using drop_ids(1) [OF c, of os] by (simp add: counts_ok_def)
    moreover have "hub_sinks ?h = jdel s (hub_sinks h)" by (simp add: h)
    ultimately show ?thesis using assms unfolding hub_inv_def ids counts_ok_def by (auto simp: owned_filter [OF wf])
  qed
qed

lemma hub_run_refines:
  assumes "fresh_ids ops (hub_ids h)" "hub_inv h"
  shows "hub_inv (fold hub_apply ops h) \<and> hub_ids (fold hub_apply ops h) = fold subs_apply ops (hub_ids h)"
  using assms
proof (induction ops arbitrary: h)
  case (Cons op ops)
  have "hub_inv (hub_apply op h) \<and> hub_ids (hub_apply op h) = subs_apply op (hub_ids h)"
    using Cons.prems by (cases op) (simp_all add: hub_apply_def subs_apply_def hub_add_inv hub_remove_inv hub_drop_inv)
  with Cons show ?case by simp
qed simp

lemma kind_count_nonneg: "0 \<le> kind_count k subs"
  by (auto simp: kind_count_def intro!: sum_list_nonneg)

lemma kind_count_pos: "0 < kind_count k subs \<longleftrightarrow> (\<exists>p \<in> set subs. sn_kind (snd p) = k)"
proof (induction subs)
  case (Cons p subs)
  have "kind_count k (p # subs) = of_bool (sn_kind (snd p) = k) + kind_count k subs" by (simp add: kind_count_def)
  with Cons kind_count_nonneg [of k subs] show ?case by auto
qed (simp add: kind_count_def)

lemma in_push_logs:
  "(s, i, x) \<in> set (push_logs logs h) \<longleftrightarrow>
     (\<exists>e f l. (i, e) \<in> set (hub_ids h) \<and> sn_sink e = s \<and> sn_kind e = Logs \<and> sn_filter e = Some f \<and>
        l \<in> set logs \<and> log_matches l f \<and> x = LogOf l)"
proof -
  define sent where "sent = (\<lambda>p :: string \<times> subscription. case sn_filter (snd p) of
      None \<Rightarrow> []
    | Some f \<Rightarrow> if sn_kind (snd p) \<noteq> Logs then [] else map (\<lambda>l. (sn_sink (snd p), fst p, LogOf l)) (filter (\<lambda>l. log_matches l f) logs))"
  have s: "(s, i, x) \<in> set (sent p) \<longleftrightarrow>
      (\<exists>f l. i = fst p \<and> sn_sink (snd p) = s \<and> sn_kind (snd p) = Logs \<and> sn_filter (snd p) = Some f \<and> l \<in> set logs \<and> log_matches l f \<and> x = LogOf l)" for p
    by (cases "sn_filter (snd p)") (auto simp: sent_def)
  have "push_logs logs h = concat (map sent (hub_ids h))" by (simp add: push_logs_def sent_def case_prod_unfold)
  then have "(s, i, x) \<in> set (push_logs logs h) \<longleftrightarrow> (\<exists>p \<in> set (hub_ids h). (s, i, x) \<in> set (sent p))" by auto
  then show ?thesis unfolding s by force
qed

lemma owned_card: "jwf m \<Longrightarrow> card (owned s m) = length (filter (\<lambda>p. sn_sink (snd p) = s) m)"
proof -
  assume wf: "jwf m"
  have "owned s m = set (map fst (filter (\<lambda>p. sn_sink (snd p) = s) m))"
    using wf by (auto simp: owned_def image_iff)
  moreover have "distinct (map fst (filter (\<lambda>p. sn_sink (snd p) = s) m))" using wf by (rule distinct_map_filter)
  ultimately show ?thesis by (metis distinct_card length_map)
qed

text \<open>
  C8: The hub implements a list of live subscriptions: whatever is subscribed, cancelled and closed, in
  any order, the subscriptions are those made and neither cancelled by their own sink nor closed with
  it, the counters say exactly whether the watcher must run and fetch logs, a connection's count is the
  number of its subscriptions, and heads and logs go to exactly these.
\<close>

theorem hub_implements_subscriptions:
  assumes "fresh_ids ops []"
  shows "hub_ids (hub_run ops) = subs_run ops \<and>
         (wants_heads (hub_run ops) \<longleftrightarrow> (\<exists>p \<in> set (subs_run ops). sn_kind (snd p) = NewHeads)) \<and>
         (wants_logs (hub_run ops) \<longleftrightarrow> (\<exists>p \<in> set (subs_run ops). sn_kind (snd p) = Logs)) \<and>
         (\<forall>s. count_of (hub_run ops) s = length (filter (\<lambda>p. sn_sink (snd p) = s) (subs_run ops))) \<and>
         (\<forall>header s i x. (s, i, x) \<in> set (push_head header (hub_run ops)) \<longleftrightarrow>
            x = HeadOf header \<and> (\<exists>e. (i, e) \<in> set (subs_run ops) \<and> sn_sink e = s \<and> sn_kind e = NewHeads)) \<and>
         (\<forall>logs s i x. (s, i, x) \<in> set (push_logs logs (hub_run ops)) \<longleftrightarrow>
            (\<exists>e f l. (i, e) \<in> set (subs_run ops) \<and> sn_sink e = s \<and> sn_kind e = Logs \<and> sn_filter e = Some f \<and>
               l \<in> set logs \<and> log_matches l f \<and> x = LogOf l))"
proof -
  have "hub_inv new_hub" by (simp add: hub_inv_def new_hub_def kind_count_def owned_def jget_or_def)
  with hub_run_refines [of ops new_hub] assms have h: "hub_inv (hub_run ops)" "hub_ids (hub_run ops) = subs_run ops"
    by (simp_all add: hub_run_def subs_run_def new_hub_def)
  have heads: "wants_heads (hub_run ops) \<longleftrightarrow> (\<exists>p \<in> set (subs_run ops). sn_kind (snd p) = NewHeads)"
    and logs: "wants_logs (hub_run ops) \<longleftrightarrow> (\<exists>p \<in> set (subs_run ops). sn_kind (snd p) = Logs)"
    using h by (simp_all add: wants_heads_def wants_logs_def hub_inv_def kind_count_pos)
  have count: "count_of (hub_run ops) s = length (filter (\<lambda>p. sn_sink (snd p) = s) (subs_run ops))" for s
    using h distinct_card [of "jget_or [] (hub_sinks (hub_run ops)) s"] owned_card [of "hub_ids (hub_run ops)" s]
    by (simp add: count_of_def hub_inv_def)
  have ph: "(s, i, x) \<in> set (push_head header (hub_run ops)) \<longleftrightarrow>
      x = HeadOf header \<and> (\<exists>e. (i, e) \<in> set (subs_run ops) \<and> sn_sink e = s \<and> sn_kind e = NewHeads)" for header s i x
    unfolding push_head_def h(2) by auto
  have pl: "(s, i, x) \<in> set (push_logs logs (hub_run ops)) \<longleftrightarrow>
      (\<exists>e f l. (i, e) \<in> set (subs_run ops) \<and> sn_sink e = s \<and> sn_kind e = Logs \<and> sn_filter e = Some f \<and>
         l \<in> set logs \<and> log_matches l f \<and> x = LogOf l)" for logs s i x
    unfolding in_push_logs h(2) ..
  show ?thesis using h(2) heads logs count ph pl by (intro conjI allI)
qed

definition demo_ops :: "hub_op list" where
  "demo_ops = [Add ''0xa'' 1 NewHeads None, Add ''0xb'' 2 NewHeads None, Remove 1 ''0xb'', Drop 1]"

theorem hub_implements_subscriptions_witness:
  "hub_ids (hub_run demo_ops) = [(''0xb'', \<lparr>sn_sink = 2, sn_kind = NewHeads, sn_filter = None\<rparr>)] \<and> wants_heads (hub_run demo_ops)"
proof -
  have f: "fresh_ids demo_ops []" by (simp add: demo_ops_def subs_apply_def)
  have r: "subs_run demo_ops = [(''0xb'', \<lparr>sn_sink = 2, sn_kind = NewHeads, sn_filter = None\<rparr>)]"
    by (simp add: subs_run_def demo_ops_def subs_apply_def)
  show ?thesis using hub_implements_subscriptions [OF f] by (simp add: r)
qed

end
