(* ===== verification/WatchRuns.thy ===== *)
theory WatchRuns
  imports Subscribe
begin

text \<open>
  What the runs of the head watcher (\<open>HeadWatcher\<close>, \<open>apps/gateway/src/subscribe.ts\<close>) announce: the heads
  in order and without gaps it did not choose, and the logs in the order of their ranges.
\<close>

section \<open>Announced heads and delivered ranges\<close>

definition heads_of :: "watch_output list \<Rightarrow> int list" where
  "heads_of outs = concat (map (\<lambda>x. case x of OnHead h \<Rightarrow> (case block_number h of Some n \<Rightarrow> [n] | None \<Rightarrow> []) | _ \<Rightarrow> []) outs)"

definition ranges_of :: "watch_output list \<Rightarrow> (int \<times> int) list" where
  "ranges_of outs = concat (map (\<lambda>x. case x of OnLogs a b ls \<Rightarrow> [(a, b)] | _ \<Rightarrow> []) outs)"

lemma heads_of_simps [simp]:
  "heads_of [] = []" "heads_of (OnHead h # outs) = (case block_number h of Some n \<Rightarrow> [n] | None \<Rightarrow> []) @ heads_of outs"
  "heads_of (AskHead # outs) = heads_of outs" "heads_of (AskBlocks bs # outs) = heads_of outs" "heads_of (AskLogs a b # outs) = heads_of outs"
  "heads_of (OnBlock x # outs) = heads_of outs" "heads_of (OnLogs c d ls # outs) = heads_of outs" "heads_of (OnError e # outs) = heads_of outs"
  "heads_of (outs @ outs') = heads_of outs @ heads_of outs'"
  by (simp_all add: heads_of_def)

lemma ranges_of_simps [simp]:
  "ranges_of [] = []" "ranges_of (OnHead h # outs) = ranges_of outs"
  "ranges_of (AskHead # outs) = ranges_of outs" "ranges_of (AskBlocks bs # outs) = ranges_of outs" "ranges_of (AskLogs a b # outs) = ranges_of outs"
  "ranges_of (OnBlock x # outs) = ranges_of outs" "ranges_of (OnLogs c d ls # outs) = (c, d) # ranges_of outs" "ranges_of (OnError e # outs) = ranges_of outs"
  "ranges_of (outs @ outs') = ranges_of outs @ ranges_of outs'"
  by (simp_all add: ranges_of_def)

lemma header_number [simp]: "block_number (to_header b) = block_number b"
proof -
  have f: "jget (filter (\<lambda>kv. fst kv \<notin> set header_drops) m) ''number'' = jget m ''number''" for m :: js_object
    by (induction m) (auto simp: header_drops_def)
  have "jget (rev (filter (\<lambda>kv. fst kv \<notin> set header_drops) b)) ''number'' = jget (rev b) ''number''"
    unfolding rev_filter f ..
  then show ?thesis by (simp add: block_number_def field_def to_header_def)
qed

text \<open>Each head follows the one before it, unless more than the catch-up bound lay between.\<close>

fun gapless :: "int \<Rightarrow> int list \<Rightarrow> bool" where
  "gapless mc (a # b # xs) = (a < b \<and> (b = a + 1 \<or> b + mc - 1 \<in> set (b # xs)) \<and> gapless mc (b # xs))"
| "gapless mc _ = True"

lemma gapless_append:
  "gapless mc xs \<Longrightarrow> gapless mc ys \<Longrightarrow> xs \<noteq> [] \<Longrightarrow> ys \<noteq> [] \<Longrightarrow> last xs < hd ys \<Longrightarrow> hd ys = last xs + 1 \<or> hd ys + mc - 1 \<in> set ys \<Longrightarrow>
   gapless mc (xs @ ys)"
proof (induction xs)
  case step: (Cons a xs)
  show ?case
  proof (cases xs)
    case Nil
    then show ?thesis using step.prems by (cases ys) auto
  next
    case (Cons b zs)
    then show ?thesis using step by auto
  qed
qed simp

lemma gapless_upto: "gapless mc [a..b]"
proof (induction "nat (b - a)" arbitrary: a)
  case (Suc k)
  have b: "a + 1 \<le> b" using Suc(2) by simp
  have "gapless mc [a + 1..b]" by (rule Suc(1)) (use Suc(2) in simp)
  then show ?case using b by (simp add: upto_rec1 [of a b] upto_rec1 [of "a + 1" b])
qed (cases "b = a"; simp add: upto.simps)

section \<open>Honest runs\<close>

text \<open>The upstream answers the blocks it was asked for, and nobody stops the watcher.\<close>

definition honest_event :: "watcher \<Rightarrow> watch_event \<Rightarrow> bool" where
  "honest_event w e =
     (case e of
        BlocksReply (Inr bs) wants \<Rightarrow>
          (case hw_phase w of
             AskingBlocks b n from \<Rightarrow> map (\<lambda>x. case x of None \<Rightarrow> None | Some blk \<Rightarrow> block_number blk) bs = map Some [from..n - 1]
           | _ \<Rightarrow> True)
      | Stop \<Rightarrow> False
      | _ \<Rightarrow> True)"

fun honest_run :: "int \<Rightarrow> watch_event list \<Rightarrow> watcher \<Rightarrow> bool" where
  "honest_run mc [] w = True"
| "honest_run mc (e # es) w = (honest_event w e \<and> honest_run mc es (fst (watch_step mc e w)))"

definition range_less :: "int \<times> int \<Rightarrow> int \<times> int \<Rightarrow> bool" where
  "range_less r s = (snd r < fst s)"

definition phase_ok :: "int \<Rightarrow> watcher \<Rightarrow> bool" where
  "phase_ok mc w \<longleftrightarrow>
     (case hw_phase w of
        AskingBlocks b n from \<Rightarrow> block_number b = Some n \<and> 0 < hw_last w \<and> hw_last w < from \<and> from < n \<and> (from = hw_last w + 1 \<or> from + mc - 1 = n)
      | _ \<Rightarrow> True)"

definition watch_inv :: "int \<Rightarrow> watcher \<Rightarrow> watch_output list \<Rightarrow> bool" where
  "watch_inv mc w outs \<longleftrightarrow>
     gapless mc (heads_of outs) \<and> 0 \<le> hw_last w \<and>
     (heads_of outs = [] \<longrightarrow> hw_last w = 0) \<and> (heads_of outs \<noteq> [] \<longrightarrow> hw_last w = last (heads_of outs) \<and> 0 < hw_last w) \<and>
     phase_ok mc w \<and>
     sorted_wrt range_less (ranges_of outs @ map fst (hw_fetches w)) \<and>
     (\<forall>r \<in> set (ranges_of outs @ map fst (hw_fetches w)). snd r \<le> hw_last w)"

lemma announce_heads:
  "map (\<lambda>x. case x of None \<Rightarrow> None | Some blk \<Rightarrow> block_number blk) bs = map Some ns \<Longrightarrow> heads_of (announce bs) = ns"
proof (induction bs arbitrary: ns)
  case (Cons x bs)
  then obtain n ms where "ns = n # ms" by (cases ns) auto
  with Cons show ?case by (cases x) (auto simp: announce_def)
qed (simp add: announce_def)

lemma announce_ranges: "ranges_of (announce bs) = []"
proof (induction bs)
  case (Cons x bs)
  then show ?case by (cases x) (auto simp: announce_def)
qed (simp add: announce_def)

lemma end_tick_inv:
  assumes "watch_inv mc w outs" "1 \<le> mc" "block_number b = Some n" "hw_last w < from" "from \<le> n"
    and "hw_last w \<noteq> 0 \<longrightarrow> from = hw_last w + 1 \<or> from + mc - 1 = n" "heads_of pre = [from..n - 1]" "ranges_of pre = []"
    and "end_tick wants b n from w = (w', out)"
  shows "watch_inv mc w' (outs @ pre @ out)"
proof -
  have w': "hw_phase w' = Resting" "hw_last w' = n" "hw_fetches w' = hw_fetches w @ (if wants then [((from, n), None)] else [])"
    and out: "heads_of out = [n]" "ranges_of out = []"
    using assms(3,9) by (auto simp: end_tick_def)
  have up: "[from..n - 1] @ [n] = [from..n]" using assms(5) by (simp add: upto_rec2)
  have ne: "[from..n] \<noteq> []" using assms(5) by simp
  have hd_last: "hd [from..n] = from" "last [from..n] = n"
    using upto_rec1 [OF assms(5)] up by (metis list.sel(1), metis last_snoc)
  have hs: "heads_of (outs @ pre @ out) = heads_of outs @ [from..n]" using assms(7) out up by simp
  have gap: "gapless mc (heads_of outs @ [from..n])"
  proof (cases "heads_of outs = []")
    case True
    then show ?thesis by (simp add: gapless_upto)
  next
    case False
    have "n \<in> set [from..n]" using assms(5) by simp
    then show ?thesis
      using False assms(1,4,6) ne hd_last by (intro gapless_append gapless_upto) (auto simp: watch_inv_def)
  qed
  have "0 < n" using assms(1,4,5) by (simp add: watch_inv_def)
  moreover have "ranges_of (outs @ pre @ out) = ranges_of outs" using assms(8) out by simp
  moreover have "range_less r (from, n)" "snd r \<le> n" if "r \<in> set (ranges_of outs @ map fst (hw_fetches w))" for r
    using that assms(1,4,5) by (force simp: watch_inv_def range_less_def)+
  ultimately show ?thesis
    using assms(1) gap ne hd_last unfolding watch_inv_def phase_ok_def hs w' by (auto simp: sorted_wrt_append)
qed

lemma deliver_keeps:
  "deliver fs = (rest, out) \<Longrightarrow> sorted_wrt range_less (done' @ map fst fs) \<Longrightarrow>
     sorted_wrt range_less (done' @ ranges_of out @ map fst rest) \<and> set (ranges_of out @ map fst rest) \<subseteq> set (map fst fs) \<and> heads_of out = []"
proof (induction fs arbitrary: rest out done' rule: deliver.induct)
  case (1 a b r fs)
  obtain rest' out' where d: "deliver fs = (rest', out')" by fastforce
  note ih = 1(1) [OF d]
  show ?case
  proof (cases "\<exists>l ls. r = Inr (Some (l # ls))")
    case True
    then have "rest = rest'" "ranges_of out = (a, b) # ranges_of out'" "heads_of out = heads_of out'" using 1(2) d by auto
    then show ?thesis using ih [of "done' @ [(a, b)]"] 1(3) by auto
  next
    case False
    have "sorted_wrt range_less (done' @ map fst fs)" using 1(3) by (simp add: sorted_wrt_append)
    moreover have "rest = rest'" "ranges_of out = ranges_of out'" "heads_of out = heads_of out'"
      using 1(2) d False by (auto split: sum.splits option.splits list.splits)
    ultimately show ?thesis using ih [of done'] by auto
  qed
qed auto

lemma head_reply_idle:
  assumes "\<not> (\<exists>b n. r = Inr (Some b) \<and> truthy (field ''number'' b) \<and> block_number b = Some n \<and> hw_last w < n)"
    and "head_reply mc wants r w = (w', out)"
  shows "w' = w\<lparr>hw_phase := Resting\<rparr> \<and> heads_of out = [] \<and> ranges_of out = []"
proof (cases r)
  case (Inl e)
  then show ?thesis using assms(2) by (auto simp: head_reply_def)
next
  case (Inr x)
  show ?thesis
  proof (cases x)
    case None
    then show ?thesis using assms(2) Inr by (auto simp: head_reply_def)
  next
    case (Some b)
    show ?thesis
    proof (cases "truthy (field ''number'' b)")
      case True
      then show ?thesis using assms Inr Some by (cases "block_number b") (auto simp: head_reply_def)
    next
      case False
      then show ?thesis using assms(2) Inr Some by (auto simp: head_reply_def)
    qed
  qed
qed

lemma watch_step_inv:
  assumes "watch_inv mc w outs" "1 \<le> mc" "honest_event w e" "watch_step mc e w = (w', out)"
  shows "watch_inv mc w' (outs @ out)"
proof -
  have keep: "watch_inv mc w' (outs @ out)"
    if "hw_last w' = hw_last w" "hw_fetches w' = hw_fetches w" "heads_of out = []" "ranges_of out = []" "phase_ok mc w'" for w' out
    using assms(1) that unfolding watch_inv_def by auto
  have frame: "watch_inv mc w' (outs @ out)"
    if "hw_last w' = hw_last w" "hw_fetches w' = hw_fetches w" "heads_of out = []" "ranges_of out = []"
      "\<And>b n from. hw_phase w' = AskingBlocks b n from \<Longrightarrow> hw_phase w = AskingBlocks b n from" for w' out
    using assms(1) that by (intro keep) (auto simp: watch_inv_def phase_ok_def split: tick_phase.splits)
  have bt: "watch_inv mc w1 (outs @ out)" if "begin_tick w0 = (w1, out)" "hw_last w0 = hw_last w" "hw_fetches w0 = hw_fetches w" "hw_phase w0 = hw_phase w" for w0 w1 out
    using that by (intro frame) (auto simp: begin_tick_def split: if_splits)
  show ?thesis
  proof (cases e)
    case Start
    then show ?thesis using assms(4) bt [of "w\<lparr>hw_running := True\<rparr>" w' out] frame [of w' out] by (auto simp: watch_step_def split: if_splits)
  next
    case Stop
    then show ?thesis using assms(3) by (simp add: honest_event_def)
  next
    case Tick
    then show ?thesis using assms(4) bt [of w w' out] frame [of w' out] by (auto simp: watch_step_def split: if_splits)
  next
    case (HeadReply r wants)
    show ?thesis
    proof (cases "hw_phase w = AskingHead \<and> (\<exists>b n. r = Inr (Some b) \<and> truthy (field ''number'' b) \<and> block_number b = Some n \<and> hw_last w < n)")
      case False
      show ?thesis
      proof (cases "hw_phase w = AskingHead")
        case True
        then show ?thesis using False head_reply_idle [of r w mc wants w' out] assms(4) HeadReply
          by (intro frame) (auto simp: watch_step_def)
      next
        case False
        then show ?thesis using assms(4) HeadReply frame [of w' out] by (auto simp: watch_step_def)
      qed
    next
      case True
      then obtain b n where b: "r = Inr (Some b)" "truthy (field ''number'' b)" "block_number b = Some n" "hw_last w < n" by auto
      define st where "st = (if hw_last w = 0 then n else max (hw_last w + 1) (n - mc + 1))"
      have f: "hw_last w < st" "st \<le> n" "hw_last w \<noteq> 0 \<longrightarrow> st = hw_last w + 1 \<or> st + mc - 1 = n"
        using b(4) assms(2) by (auto simp: st_def max_def)
      show ?thesis
      proof (cases "st < n")
        case True
        then have "w' = w\<lparr>hw_phase := AskingBlocks b n st\<rparr>" "out = [OnBlock b, AskBlocks [st..n - 1]]"
          using assms(4) HeadReply b \<open>hw_phase w = AskingHead \<and> _\<close> by (auto simp: watch_step_def head_reply_def Let_def st_def [symmetric])
        moreover have "0 < hw_last w" using True assms(1) by (auto simp: st_def watch_inv_def split: if_splits)
        ultimately show ?thesis using b f True by (intro keep) (auto simp: phase_ok_def)
      next
        case False
        with f have n: "st = n" by simp
        obtain w1 out1 where t: "end_tick wants b n st w = (w1, out1)" by fastforce
        have "w' = w1" "out = OnBlock b # out1"
          using assms(4) HeadReply b False t \<open>hw_phase w = AskingHead \<and> _\<close> by (auto simp: watch_step_def head_reply_def Let_def st_def [symmetric])
        then show ?thesis using end_tick_inv [OF assms(1,2) b(3) f _ _ t, of "[OnBlock b]"] n by simp
      qed
    qed
  next
    case (BlocksReply r wants)
    show ?thesis
    proof (cases "\<exists>b n from bs. hw_phase w = AskingBlocks b n from \<and> r = Inr bs")
      case False
      then show ?thesis using assms(4) BlocksReply
        by (intro frame) (auto simp: watch_step_def blocks_reply_def split: tick_phase.splits sum.splits)
    next
      case True
      then obtain b n "from" bs where p: "hw_phase w = AskingBlocks b n from" "r = Inr bs" by auto
      obtain w1 out1 where t: "end_tick wants b n from w = (w1, out1)" by fastforce
      have o: "w' = w1" "out = announce bs @ out1" using assms(4) BlocksReply p t by (auto simp: watch_step_def blocks_reply_def)
      have i: "block_number b = Some n" "hw_last w < from" "from \<le> n" "hw_last w \<noteq> 0 \<longrightarrow> from = hw_last w + 1 \<or> from + mc - 1 = n"
        using assms(1) p by (auto simp: watch_inv_def phase_ok_def)
      have a: "heads_of (announce bs) = [from..n - 1]" "ranges_of (announce bs) = []"
        using assms(3) BlocksReply p by (auto simp: honest_event_def announce_heads announce_ranges)
      show ?thesis unfolding o by (rule end_tick_inv [OF assms(1,2) i a t])
    qed
  next
    case (LogsReply i r)
    show ?thesis
    proof (cases "i < length (hw_fetches w) \<and> snd (hw_fetches w ! i) = None")
      case False
      then show ?thesis using assms(4) LogsReply frame [of w' out] by (auto simp: watch_step_def logs_reply_def)
    next
      case True
      let ?fs = "(hw_fetches w)[i := (fst (hw_fetches w ! i), Some r)]"
      obtain rest where d: "deliver ?fs = (rest, out)" "w' = w\<lparr>hw_fetches := rest\<rparr>"
        using assms(4) LogsReply True by (auto simp: watch_step_def logs_reply_def split: prod.splits)
      have m: "map fst ?fs = map fst (hw_fetches w)" using True by (simp add: map_update list_update_same_conv)
      show ?thesis
        using assms(1) deliver_keeps [OF d(1), of "ranges_of outs"] m d(2) by (auto simp: watch_inv_def phase_ok_def split: tick_phase.splits)
    qed
  qed
qed

lemma watch_run_inv:
  "watch_inv mc w outs \<Longrightarrow> 1 \<le> mc \<Longrightarrow> honest_run mc es w \<Longrightarrow> watch_run mc es w = (w', out) \<Longrightarrow> watch_inv mc w' (outs @ out)"
proof (induction es arbitrary: w outs out)
  case (Cons e es)
  obtain w1 out1 w2 out2 where s: "watch_step mc e w = (w1, out1)" "watch_run mc es w1 = (w2, out2)" by fastforce
  with Cons.prems have o: "w' = w2" "out = out1 @ out2" by simp_all
  have "watch_inv mc w1 (outs @ out1)" by (rule watch_step_inv [OF Cons.prems(1,2) _ s(1)]) (use Cons.prems(3) in simp)
  from Cons.IH [OF this Cons.prems(2)] Cons.prems(3) s o show ?case by simp
qed simp


definition demo_head :: "string \<Rightarrow> js_object" where
  "demo_head n = [(''number'', Str n), (''transactions'', Arr [])]"

definition demo_watch :: "watch_event list" where
  "demo_watch =
     [Start, HeadReply (Inr (Some (demo_head ''0xa''))) True, Tick, HeadReply (Inr (Some (demo_head ''0xc''))) True,
      BlocksReply (Inr [Some (demo_head ''0xb'')]) True, LogsReply 1 (Inr (Some [\<lparr>rl_address = ''0x1'', rl_topics = [], rl_fields = []\<rparr>])),
      LogsReply 0 (Inr (Some [\<lparr>rl_address = ''0x2'', rl_topics = [], rl_fields = []\<rparr>]))]"

lemma demo_watch_heads: "map_prod id heads_of (watch_run 24 demo_watch new_watcher) =
    (\<lparr>hw_running = True, hw_phase = Resting, hw_last = 12, hw_fetches = []\<rparr>, [10, 11, 12])"
  by code_simp


text \<open>
  A tick in flight when the last subscriber leaves still records its position, so the next subscriber is
  sent blocks from before it subscribed.
\<close>

lemma stop_forgets_nothing:
  "\<exists>es. hw_running (fst (watch_run 24 (es @ [Stop, BlocksReply (Inr [Some (demo_head ''0xb'')]) False]) new_watcher)) = False \<and>
     hw_last (fst (watch_run 24 (es @ [Stop, BlocksReply (Inr [Some (demo_head ''0xb'')]) False]) new_watcher)) = 12"
proof (rule exI [of _ "take 4 demo_watch"])
  have "map_prod (\<lambda>w. (hw_running w, hw_last w)) length (watch_run 24 (take 4 demo_watch @ [Stop, BlocksReply (Inr [Some (demo_head ''0xb'')]) False]) new_watcher) =
      ((False, 12), 10)" by code_simp
  then show "hw_running (fst (watch_run 24 (take 4 demo_watch @ [Stop, BlocksReply (Inr [Some (demo_head ''0xb'')]) False]) new_watcher)) = False \<and>
     hw_last (fst (watch_run 24 (take 4 demo_watch @ [Stop, BlocksReply (Inr [Some (demo_head ''0xb'')]) False]) new_watcher)) = 12"
    by (simp add: prod_eq_iff)
qed

end
