(* ===== verification/WebSocket.thy ===== *)
theory WebSocket
  imports HubContract
begin

text \<open>
  The sockets of the gateway (\<open>attachWs\<close>, \<open>apps/gateway/src/ws.ts\<close>): the connections of an address, the
  messages of a socket, the subscriptions, and the poller that runs while somebody is subscribed. The
  shared pipeline (\<open>answer\<close>) and the random ids are inputs; \<^const>\<open>None\<close> of the pipeline is an exception.
\<close>

section \<open>The state\<close>

record ws_state =
  ws_per_ip :: "(string \<times> int) list"
  ws_open :: "(nat \<times> string) list"
  ws_hub :: hub
  ws_watching :: bool

record ws_cfg =
  max_conns :: int
  max_subs :: nat

definition new_ws :: ws_state where
  "new_ws = \<lparr>ws_per_ip = [], ws_open = [], ws_hub = new_hub, ws_watching = False\<rparr>"

text \<open>The poller starts with the first subscriber and stops with the last.\<close>

definition settle_watch :: "ws_state \<Rightarrow> ws_state" where
  "settle_watch st =
     (let wanted = wants_heads (ws_hub st) \<or> wants_logs (ws_hub st) in
      if wanted \<and> \<not> ws_watching st then st\<lparr>ws_watching := True\<rparr>
      else if \<not> wanted \<and> ws_watching st then st\<lparr>ws_watching := False\<rparr>
      else st)"

section \<open>Connections\<close>

datatype upgrade_reply = Destroyed | Draining | TooManyConns | Accepted

definition url_path :: "string \<Rightarrow> string" where
  "url_path url = (let p = takeWhile (\<lambda>c. c \<noteq> CHR ''?'' \<and> c \<noteq> CHR ''#'') url in if p = [] then ''/'' else p)"

definition upgrade :: "ws_cfg \<Rightarrow> bool \<Rightarrow> string \<Rightarrow> string \<Rightarrow> nat \<Rightarrow> ws_state \<Rightarrow> upgrade_reply \<times> ws_state" where
  "upgrade cfg stopping url ip sink st =
     (let path = url_path url; n = jget_or 0 (ws_per_ip st) ip in
      if path \<noteq> ''/'' \<and> path \<noteq> ''/ws'' then (Destroyed, st)
      else if stopping then (Draining, st)
      else if n \<ge> max_conns cfg then (TooManyConns, st)
      else (Accepted, st\<lparr>ws_per_ip := jset ip (n + 1) (ws_per_ip st), ws_open := jset sink ip (ws_open st)\<rparr>))"

definition close_socket :: "nat \<Rightarrow> ws_state \<Rightarrow> ws_state" where
  "close_socket sink st =
     (case jget (ws_open st) sink of
        None \<Rightarrow> st
      | Some ip \<Rightarrow>
          let left = jget_or 1 (ws_per_ip st) ip - 1 in
          settle_watch
            (st\<lparr>ws_per_ip := (if left > 0 then jset ip left (ws_per_ip st) else jdel ip (ws_per_ip st)),
                ws_open := jdel sink (ws_open st), ws_hub := snd (hub_drop sink (ws_hub st))\<rparr>))"

section \<open>Messages\<close>

definition rpc_error :: "int \<Rightarrow> string \<Rightarrow> string \<times> json" where
  "rpc_error code message = (''error'', Obj [(''code'', Num code), (''message'', Str message)])"

definition ws_reply :: "json option \<Rightarrow> string \<times> json \<Rightarrow> json option" where
  "ws_reply i body = map_option (\<lambda>v. Obj [(''jsonrpc'', Str ''2.0''), (''id'', v), body]) i"

definition kind_of :: "string \<Rightarrow> sub_kind option" where
  "kind_of s = (if s = ''newHeads'' then Some NewHeads else if s = ''logs'' then Some Logs else None)"

definition param_list :: "json \<Rightarrow> json list" where
  "param_list msg = (case member ''params'' msg of Some (Arr ps) \<Rightarrow> ps | _ \<Rightarrow> [])"

definition or_empty :: "json list \<Rightarrow> string" where
  "or_empty ps = (case ps of [] \<Rightarrow> [] | p # _ \<Rightarrow> if p = Null then [] else js_string (Some p))"

definition unsupported :: "string \<Rightarrow> string" where
  "unsupported kind =
     ''eth_subscribe('' @ [CHR 0x22] @ kind @ [CHR 0x22] @ '') is not supported; this endpoint offers newHeads and logs'' @
     (if kind = ''newPendingTransactions'' then '' (this chain has no public mempool to watch)'' else [])"

definition ws_subscribe :: "ws_cfg \<Rightarrow> nat \<Rightarrow> string \<Rightarrow> json \<Rightarrow> ws_state \<Rightarrow> json option \<times> ws_state" where
  "ws_subscribe cfg sink fresh msg st =
     (let ps = param_list msg; kind = or_empty ps; reply = ws_reply (member ''id'' msg) in
      case kind_of kind of
        None \<Rightarrow> (reply (rpc_error (- 32601) (unsupported kind)), st)
      | Some k \<Rightarrow>
          if count_of (ws_hub st) sink \<ge> max_subs cfg
          then (reply (rpc_error (- 32005) (''too many subscriptions on one connection ('' @ to_str (int (max_subs cfg)) @ '')'')), st)
          else let f = (if k = Logs then Some (parse_log_filter (if length ps > 1 then Some (ps ! 1) else None)) else None) in
               (reply (''result'', Str fresh), settle_watch (st\<lparr>ws_hub := hub_add fresh sink k f (ws_hub st)\<rparr>)))"

definition ws_unsubscribe :: "nat \<Rightarrow> json \<Rightarrow> ws_state \<Rightarrow> json option \<times> ws_state" where
  "ws_unsubscribe sink msg st =
     (let (ok, h) = hub_remove sink (or_empty (param_list msg)) (ws_hub st) in
      (ws_reply (member ''id'' msg) (''result'', Bool ok), settle_watch (st\<lparr>ws_hub := h\<rparr>)))"

text \<open>One message: the reply (\<^const>\<open>None\<close> for a notification), or an exception of the pipeline.\<close>

definition ws_one :: "ws_cfg \<Rightarrow> (json \<Rightarrow> json option) \<Rightarrow> nat \<Rightarrow> string \<Rightarrow> json \<Rightarrow> ws_state \<Rightarrow> json option option \<times> ws_state" where
  "ws_one cfg answer sink fresh msg st =
     (if member ''method'' msg = Some (Str ''eth_subscribe'') then (let (r, st') = ws_subscribe cfg sink fresh msg st in (Some r, st'))
      else if member ''method'' msg = Some (Str ''eth_unsubscribe'') then (let (r, st') = ws_unsubscribe sink msg st in (Some r, st'))
      else (map_option (\<lambda>a. if member ''id'' msg = None then None else Some a) (answer msg), st))"

text \<open>The messages of a frame are started in order; the subscription methods finish before the next starts.\<close>

fun ws_all :: "ws_cfg \<Rightarrow> (json \<Rightarrow> json option) \<Rightarrow> nat \<Rightarrow> (nat \<Rightarrow> string) \<Rightarrow> nat \<Rightarrow> json list \<Rightarrow> ws_state \<Rightarrow> json option option list \<times> ws_state" where
  "ws_all cfg answer sink rand n [] st = ([], st)"
| "ws_all cfg answer sink rand n (msg # msgs) st =
     (let (r, st1) = ws_one cfg answer sink (rand n) msg st;
          (rs, st2) = ws_all cfg answer sink rand (Suc n) msgs st1 in
      (r # rs, st2))"

text \<open>What the client sees: a text, nothing, or (an exception nobody catches) a rejected handler.\<close>

datatype frame_result = Sends json | Silent | HandlerRejects

definition parse_failure :: json where
  "parse_failure = Obj [(''jsonrpc'', Str ''2.0''), (''id'', Null), rpc_error (- 32700) ''parse error'']"

definition ws_frame :: "ws_cfg \<Rightarrow> (json \<Rightarrow> json option) \<Rightarrow> nat \<Rightarrow> (nat \<Rightarrow> string) \<Rightarrow> json option \<Rightarrow> ws_state \<Rightarrow> frame_result \<times> ws_state" where
  "ws_frame cfg answer sink rand payload st =
     (case payload of
        None \<Rightarrow> (Sends parse_failure, st)
      | Some p \<Rightarrow>
          let (batch, many) = (case p of Arr xs \<Rightarrow> (xs, True) | _ \<Rightarrow> ([p], False));
              (rs, st') = ws_all cfg answer sink rand 0 batch st;
              kept = concat (map (\<lambda>r. case r of Some (Some x) \<Rightarrow> [x] | _ \<Rightarrow> []) rs) in
          (if None \<in> set rs then HandlerRejects
           else if kept = [] then Silent
           else Sends (if many then Arr kept else hd kept), st'))"

section \<open>Runs\<close>

datatype ws_event =
    Upgrade bool string string nat
  | Frame nat "nat \<Rightarrow> string" "json option"
  | Close nat
  | Drain

definition ws_step :: "ws_cfg \<Rightarrow> (json \<Rightarrow> json option) \<Rightarrow> ws_event \<Rightarrow> ws_state \<Rightarrow> ws_state" where
  "ws_step cfg answer e st =
     (case e of
        Upgrade stopping url ip sink \<Rightarrow> snd (upgrade cfg stopping url ip sink st)
      | Frame sink rand payload \<Rightarrow> if jget (ws_open st) sink = None then st else snd (ws_frame cfg answer sink rand payload st)
      | Close sink \<Rightarrow> close_socket sink st
      | Drain \<Rightarrow> st\<lparr>ws_watching := False\<rparr>)"

fun ws_run :: "ws_cfg \<Rightarrow> (json \<Rightarrow> json option) \<Rightarrow> ws_event list \<Rightarrow> ws_state \<Rightarrow> ws_state" where
  "ws_run cfg answer [] st = st"
| "ws_run cfg answer (e # es) st = ws_run cfg answer es (ws_step cfg answer e st)"

text \<open>Sockets are new objects, and the random ids repeat neither each other nor a live one.\<close>

definition fresh_event :: "ws_event \<Rightarrow> ws_state \<Rightarrow> bool" where
  "fresh_event e st =
     (case e of
        Upgrade stopping url ip sink \<Rightarrow> jget (ws_open st) sink = None
      | Frame sink rand payload \<Rightarrow> inj rand \<and> (\<forall>n. jget (hub_ids (ws_hub st)) (rand n) = None)
      | _ \<Rightarrow> True)"

fun fresh_run :: "ws_cfg \<Rightarrow> (json \<Rightarrow> json option) \<Rightarrow> ws_event list \<Rightarrow> ws_state \<Rightarrow> bool" where
  "fresh_run cfg answer [] st = True"
| "fresh_run cfg answer (e # es) st = (fresh_event e st \<and> fresh_run cfg answer es (ws_step cfg answer e st))"

definition conns :: "ws_state \<Rightarrow> string \<Rightarrow> int" where
  "conns st ip = (\<Sum>p \<leftarrow> ws_open st. of_bool (snd p = ip))"

text \<open>Of the state whatever the poller does.\<close>

definition ws_inv :: "ws_cfg \<Rightarrow> ws_state \<Rightarrow> bool" where
  "ws_inv cfg st \<longleftrightarrow>
     jwf (ws_open st) \<and> jwf (ws_per_ip st) \<and> hub_inv (ws_hub st) \<and>
     (\<forall>ip. jget_or 0 (ws_per_ip st) ip = conns st ip \<and> (conns st ip = 0 \<or> conns st ip \<le> max_conns cfg)) \<and>
     (\<forall>i e. jget (hub_ids (ws_hub st)) i = Some e \<longrightarrow> jget (ws_open st) (sn_sink e) \<noteq> None) \<and>
     (\<forall>s. count_of (ws_hub st) s \<le> max_subs cfg)"

definition watch_right :: "ws_state \<Rightarrow> bool" where
  "watch_right st \<longleftrightarrow> (ws_watching st \<longleftrightarrow> hub_ids (ws_hub st) \<noteq> [])"

lemma wanted_iff: "hub_inv h \<Longrightarrow> wants_heads h \<or> wants_logs h \<longleftrightarrow> hub_ids h \<noteq> []"
proof -
  assume h: "hub_inv h"
  have k: "sn_kind e = NewHeads \<or> sn_kind e = Logs" for e by (cases "sn_kind e") auto
  have "wants_heads h \<or> wants_logs h \<longleftrightarrow> (\<exists>p \<in> set (hub_ids h). sn_kind (snd p) = NewHeads \<or> sn_kind (snd p) = Logs)"
    using h by (auto simp: wants_heads_def wants_logs_def hub_inv_def kind_count_pos)
  then show ?thesis using k by (cases "hub_ids h") auto
qed

lemma settle_fields [simp]:
  "ws_per_ip (settle_watch st) = ws_per_ip st" "ws_open (settle_watch st) = ws_open st" "ws_hub (settle_watch st) = ws_hub st"
  by (simp_all add: settle_watch_def Let_def)

lemma settle_inv [simp]: "ws_inv cfg (settle_watch st) = ws_inv cfg st"
  by (simp add: ws_inv_def conns_def)

lemma settle_right: "hub_inv (ws_hub st) \<Longrightarrow> watch_right (settle_watch st)"
  using wanted_iff [of "ws_hub st"] by (auto simp: watch_right_def settle_watch_def Let_def)

lemma count_of_card: "hub_inv h \<Longrightarrow> count_of h s = card (owned s (hub_ids h))"
  using distinct_card [of "jget_or [] (hub_sinks h) s"] by (simp add: count_of_def hub_inv_def)

lemma conns_open: "jget (ws_open st) sink = None \<Longrightarrow> conns (st\<lparr>ws_per_ip := x, ws_open := jset sink ip (ws_open st)\<rparr>) ip' = conns st ip' + of_bool (ip = ip')"
  by (simp add: conns_def jset_append)

lemma conns_nonneg: "0 \<le> conns st ip"
  by (auto simp: conns_def intro!: sum_list_nonneg)

lemma upgrade_inv:
  assumes "ws_inv cfg st" "jget (ws_open st) sink = None"
  shows "ws_inv cfg (snd (upgrade cfg stopping url ip sink st))"
    "watch_right st \<Longrightarrow> watch_right (snd (upgrade cfg stopping url ip sink st))"
proof -
  have "jget_or 0 (ws_per_ip st) ip' = conns st ip'" for ip' using assms(1) by (simp add: ws_inv_def)
  then show "ws_inv cfg (snd (upgrade cfg stopping url ip sink st))"
    using assms by (auto simp: upgrade_def Let_def ws_inv_def conns_open simp del: map_of_eq_Some_iff)
  show "watch_right st \<Longrightarrow> watch_right (snd (upgrade cfg stopping url ip sink st))"
    by (auto simp: upgrade_def Let_def watch_right_def)
qed

lemma conns_pos: "jget (ws_open st) sink = Some ip \<Longrightarrow> 0 < conns st ip"
proof -
  assume "jget (ws_open st) sink = Some ip"
  then have "(sink, ip) \<in> set (ws_open st)" by (rule map_of_SomeD)
  then obtain xs ys where "ws_open st = xs @ (sink, ip) # ys" by (meson split_list)
  then have "conns st ip = (\<Sum>p \<leftarrow> xs. of_bool (snd p = ip)) + (1 + (\<Sum>p \<leftarrow> ys. of_bool (snd p = ip)))" by (simp add: conns_def)
  moreover have "0 \<le> (\<Sum>p \<leftarrow> zs. of_bool (snd p = ip) :: int)" for zs :: "(nat \<times> string) list"
    by (auto intro!: sum_list_nonneg)
  ultimately show ?thesis by (metis add_nonneg_pos add_pos_nonneg zero_less_one)
qed

lemma owned_drop: "jwf m \<Longrightarrow> owned s (filter (\<lambda>p. sn_sink (snd p) \<noteq> t) m) \<subseteq> owned s m"
  by (auto simp: owned_filter)

lemma close_inv:
  assumes "ws_inv cfg st"
  shows "ws_inv cfg (close_socket sink st)" "watch_right st \<Longrightarrow> watch_right (close_socket sink st)"
proof -
  have h: "hub_inv (snd (hub_drop sink (ws_hub st)))" "hub_ids (snd (hub_drop sink (ws_hub st))) = filter (\<lambda>p. sn_sink (snd p) \<noteq> sink) (hub_ids (ws_hub st))"
    using assms by (simp_all add: ws_inv_def hub_drop_inv)
  show "watch_right st \<Longrightarrow> watch_right (close_socket sink st)"
    by (auto simp: close_socket_def Let_def h(1) intro!: settle_right split: option.splits)
  show "ws_inv cfg (close_socket sink st)"
  proof (cases "jget (ws_open st) sink")
    case None
    then show ?thesis using assms by (simp add: close_socket_def)
  next
    case (Some ip)
    have wf: "jwf (hub_ids (ws_hub st))" using assms by (simp add: ws_inv_def hub_inv_def)
    define left where "left = jget_or 1 (ws_per_ip st) ip - 1"
    define st' where "st' = st\<lparr>ws_per_ip := (if left > 0 then jset ip left (ws_per_ip st) else jdel ip (ws_per_ip st)),
                ws_open := jdel sink (ws_open st), ws_hub := snd (hub_drop sink (ws_hub st))\<rparr>"
    have c: "conns st' ip' = conns st ip' - of_bool (ip' = ip)" for ip'
      using assms Some by (auto simp: conns_def st'_def sum_jdel ws_inv_def simp del: map_of_eq_Some_iff)
    have p: "0 < jget_or 0 (ws_per_ip st) ip" using conns_pos [OF Some] assms by (simp add: ws_inv_def)
    then obtain n where n: "jget (ws_per_ip st) ip = Some n" by (cases "jget (ws_per_ip st) ip") (simp_all add: jget_or_def)
    have "jget_or 0 (ws_per_ip st) ip = conns st ip" using assms by (simp add: ws_inv_def)
    then have l: "left = conns st ip - 1" using n by (simp add: left_def jget_or_def del: map_of_eq_Some_iff)
    have ips: "jget_or 0 (ws_per_ip st') ip' = conns st' ip' \<and> (conns st' ip' = 0 \<or> conns st' ip' \<le> max_conns cfg)" for ip'
    proof (cases "ip' = ip")
      case True
      have "conns st ip = 0 \<or> conns st ip \<le> max_conns cfg" using assms by (simp add: ws_inv_def)
      then show ?thesis using True l conns_pos [OF Some] unfolding c by (auto simp: st'_def)
    next
      case False
      then show ?thesis using assms unfolding c by (simp add: st'_def ws_inv_def)
    qed
    have subs: "jget (ws_open st') (sn_sink e) \<noteq> None" if "jget (hub_ids (ws_hub st')) i = Some e" for i e
      using that assms jget_filter [OF wf, of "\<lambda>e. sn_sink e \<noteq> sink" i]
      by (auto simp: st'_def h ws_inv_def case_prod_unfold split: option.splits if_splits simp del: map_of_eq_Some_iff)
    have counts: "count_of (ws_hub st') s \<le> max_subs cfg" for s
    proof -
      have fin: "finite (owned s (hub_ids (ws_hub st)))"
        using assms by (metis List.finite_set hub_inv_def ws_inv_def)
      have "count_of (ws_hub st') s \<le> count_of (ws_hub st) s"
        using assms h card_mono [OF fin owned_drop [OF wf, of s sink]] by (simp add: st'_def count_of_card ws_inv_def)
      then show ?thesis using assms by (meson le_trans ws_inv_def)
    qed
    have wf2: "jwf (ws_open st')" "jwf (ws_per_ip st')" "hub_inv (ws_hub st')"
      using assms h by (simp_all add: st'_def ws_inv_def)
    have "ws_inv cfg st'" unfolding ws_inv_def using ips subs counts by (intro conjI allI impI wf2) blast+
    moreover have "close_socket sink st = settle_watch st'"
      using Some unfolding close_socket_def st'_def left_def Let_def by (simp del: map_of_eq_Some_iff)
    ultimately show ?thesis by simp
  qed
qed

lemma add_inv:
  assumes "ws_inv cfg st" "jget (hub_ids (ws_hub st)) i = None" "jget (ws_open st) sink \<noteq> None" "count_of (ws_hub st) sink < max_subs cfg"
  shows "ws_inv cfg (st\<lparr>ws_hub := hub_add i sink k f (ws_hub st)\<rparr>)"
proof -
  have h0: "hub_inv (ws_hub st)" using assms(1) by (simp add: ws_inv_def)
  note h = hub_add_inv [OF h0 assms(2), of sink k f]
  have ids: "hub_ids (hub_add i sink k f (ws_hub st)) = jset i \<lparr>sn_sink = sink, sn_kind = k, sn_filter = f\<rparr> (hub_ids (ws_hub st))"
    using h(2) assms(2) by (simp add: jset_append)
  have "count_of (hub_add i sink k f (ws_hub st)) s \<le> max_subs cfg" for s
  proof -
    have fin: "finite (owned s (hub_ids (ws_hub st)))" using h0 by (metis List.finite_set hub_inv_def)
    have "card (owned s (hub_ids (hub_add i sink k f (ws_hub st)))) \<le> card (owned s (hub_ids (ws_hub st))) + (if s = sink then 1 else 0)"
      unfolding ids using assms(2) fin by (auto simp: owned_jset card_insert_if)
    then show ?thesis using assms(1,4) h(1) h0 by (auto simp: count_of_card ws_inv_def split: if_splits dest: spec [of _ s])
  qed
  then show ?thesis using assms h(1) unfolding ws_inv_def
    by (auto simp: ids conns_def simp del: map_of_eq_Some_iff)
qed

lemma remove_inv:
  assumes "ws_inv cfg st"
  shows "ws_inv cfg (st\<lparr>ws_hub := snd (hub_remove sink i (ws_hub st))\<rparr>)"
proof -
  have h0: "hub_inv (ws_hub st)" using assms by (simp add: ws_inv_def)
  note h = hub_remove_inv [OF h0, of sink i]
  have sub: "jget (hub_ids (snd (hub_remove sink i (ws_hub st)))) j = Some e \<Longrightarrow> jget (hub_ids (ws_hub st)) j = Some e" for j e
    by (auto simp: hub_remove_def split: option.splits if_splits simp del: map_of_eq_Some_iff)
  have "count_of (snd (hub_remove sink i (ws_hub st))) s \<le> max_subs cfg" for s
  proof -
    have fin: "finite (owned s (hub_ids (ws_hub st)))" using h0 by (metis List.finite_set hub_inv_def)
    have "owned s (hub_ids (snd (hub_remove sink i (ws_hub st)))) \<subseteq> owned s (hub_ids (ws_hub st))"
      using sub by (auto simp: owned_def simp del: map_of_eq_Some_iff)
    from card_mono [OF fin this] show ?thesis using assms h(1) h0 by (simp add: count_of_card ws_inv_def) (meson le_trans)
  qed
  moreover have "jget (ws_open st) (sn_sink e) \<noteq> None" if "jget (hub_ids (snd (hub_remove sink i (ws_hub st)))) j = Some e" for j e
    using assms sub [OF that] unfolding ws_inv_def by blast
  ultimately show ?thesis using assms h(1) unfolding ws_inv_def by (simp add: conns_def del: map_of_eq_Some_iff)
qed

text \<open>What a message leaves as it was, and what it keeps.\<close>

definition kept_fresh :: "(nat \<Rightarrow> string) \<Rightarrow> nat \<Rightarrow> ws_state \<Rightarrow> bool" where
  "kept_fresh rand n st \<longleftrightarrow> (\<forall>k \<ge> n. jget (hub_ids (ws_hub st)) (rand k) = None)"

lemma one_inv:
  assumes "ws_inv cfg st" "jget (ws_open st) sink \<noteq> None" "kept_fresh rand n st" "inj rand" "ws_one cfg answer sink (rand n) msg st = (r, st')"
  shows "ws_inv cfg st' \<and> (watch_right st \<longrightarrow> watch_right st') \<and> ws_open st' = ws_open st \<and> kept_fresh rand (Suc n) st'"
proof -
  have h0: "hub_inv (ws_hub st)" using assms(1) by (simp add: ws_inv_def)
  have fresh: "jget (hub_ids (ws_hub st)) (rand n) = None" using assms(3) by (simp add: kept_fresh_def)
  have same: "ws_inv cfg st \<and> (watch_right st \<longrightarrow> watch_right st) \<and> ws_open st = ws_open st \<and> kept_fresh rand (Suc n) st"
    using assms(1,3) by (simp add: kept_fresh_def)
  have sub: "ws_inv cfg (settle_watch st1) \<and> (watch_right st \<longrightarrow> watch_right (settle_watch st1)) \<and> ws_open (settle_watch st1) = ws_open st \<and>
      kept_fresh rand (Suc n) (settle_watch st1)"
    if "st1 = st\<lparr>ws_hub := hub_add (rand n) sink k f (ws_hub st)\<rparr>" "count_of (ws_hub st) sink < max_subs cfg" for st1 k f
  proof -
    have i: "ws_inv cfg st1" unfolding that(1) by (rule add_inv [OF assms(1) fresh assms(2) that(2)])
    moreover have "watch_right (settle_watch st1)" by (rule settle_right) (use i in \<open>simp add: ws_inv_def\<close>)
    moreover have "kept_fresh rand (Suc n) st1"
      using assms(3,4) that(1) hub_add_inv(2) [OF h0 fresh, of sink k f] by (auto simp: kept_fresh_def inj_eq map_add_def)
    ultimately show ?thesis using that(1) by (simp add: kept_fresh_def)
  qed
  have rem: "ws_inv cfg (settle_watch st1) \<and> (watch_right st \<longrightarrow> watch_right (settle_watch st1)) \<and> ws_open (settle_watch st1) = ws_open st \<and>
      kept_fresh rand (Suc n) (settle_watch st1)"
    if "st1 = st\<lparr>ws_hub := snd (hub_remove sink i (ws_hub st))\<rparr>" for st1 i
  proof -
    have i: "ws_inv cfg st1" unfolding that by (rule remove_inv [OF assms(1)])
    moreover have "watch_right (settle_watch st1)" by (rule settle_right) (use i in \<open>simp add: ws_inv_def\<close>)
    moreover have "kept_fresh rand (Suc n) st1"
      using assms(3) that by (auto simp: kept_fresh_def hub_remove_def split: option.splits simp del: map_of_eq_Some_iff)
    ultimately show ?thesis using that by (simp add: kept_fresh_def)
  qed
  consider (s) "member ''method'' msg = Some (Str ''eth_subscribe'')" | (u) "member ''method'' msg = Some (Str ''eth_unsubscribe'')"
    | (o) "member ''method'' msg \<noteq> Some (Str ''eth_subscribe'')" "member ''method'' msg \<noteq> Some (Str ''eth_unsubscribe'')" by blast
  then show ?thesis
  proof cases
    case s
    then have "st' = snd (ws_subscribe cfg sink (rand n) msg st)" using assms(5) by (auto simp: ws_one_def split: prod.splits)
    then show ?thesis using sub same by (auto simp: ws_subscribe_def Let_def split: option.splits if_splits)
  next
    case u
    then have "st' = snd (ws_unsubscribe sink msg st)" using assms(5) by (auto simp: ws_one_def split: prod.splits)
    then show ?thesis using rem [OF refl] by (simp add: ws_unsubscribe_def case_prod_unfold Let_def)
  next
    case o
    then show ?thesis using assms(5) same by (simp add: ws_one_def)
  qed
qed

lemma all_inv:
  assumes "ws_inv cfg st" "jget (ws_open st) sink \<noteq> None" "kept_fresh rand n st" "inj rand" "ws_all cfg answer sink rand n msgs st = (rs, st')"
  shows "ws_inv cfg st' \<and> (watch_right st \<longrightarrow> watch_right st')"
  using assms
proof (induction msgs arbitrary: n st rs)
  case (Cons msg msgs)
  obtain r st1 rs2 st2 where o: "ws_one cfg answer sink (rand n) msg st = (r, st1)" "ws_all cfg answer sink rand (Suc n) msgs st1 = (rs2, st2)"
    by fastforce
  then have a: "ws_all cfg answer sink rand (Suc n) msgs st1 = (rs2, st')" using Cons.prems(5) by simp
  note i = one_inv [OF Cons.prems(1-4) o(1)]
  have "ws_inv cfg st' \<and> (watch_right st1 \<longrightarrow> watch_right st')"
    by (rule Cons.IH [OF _ _ _ Cons.prems(4) a]) (use i Cons.prems(2) in simp_all)
  with i show ?case by simp
qed simp

lemma frame_inv:
  assumes "ws_inv cfg st" "jget (ws_open st) sink \<noteq> None" "inj rand" "\<forall>n. jget (hub_ids (ws_hub st)) (rand n) = None"
  shows "ws_inv cfg (snd (ws_frame cfg answer sink rand payload st)) \<and> (watch_right st \<longrightarrow> watch_right (snd (ws_frame cfg answer sink rand payload st)))"
proof (cases payload)
  case None
  then show ?thesis using assms(1) by (simp add: ws_frame_def)
next
  case (Some p)
  have "kept_fresh rand 0 st" using assms(4) by (simp add: kept_fresh_def)
  then have a: "ws_inv cfg (snd (ws_all cfg answer sink rand 0 msgs st)) \<and> (watch_right st \<longrightarrow> watch_right (snd (ws_all cfg answer sink rand 0 msgs st)))" for msgs
    using all_inv [OF assms(1,2) _ assms(3), of 0 answer msgs] by (metis prod.collapse)
  have "snd (ws_frame cfg answer sink rand payload st) = snd (ws_all cfg answer sink rand 0 (case p of Arr xs \<Rightarrow> xs | _ \<Rightarrow> [p]) st)"
    unfolding ws_frame_def Some by (cases p) (simp_all add: Let_def case_prod_unfold del: ws_all.simps)
  then show ?thesis using a by simp
qed

lemma ws_step_inv:
  assumes "ws_inv cfg st" "fresh_event e st"
  shows "ws_inv cfg (ws_step cfg answer e st) \<and> (e \<noteq> Drain \<and> watch_right st \<longrightarrow> watch_right (ws_step cfg answer e st))"
proof (cases e)
  case (Upgrade stopping url ip sink)
  then show ?thesis using assms upgrade_inv by (simp add: ws_step_def fresh_event_def)
next
  case (Frame sink rand payload)
  then show ?thesis using assms frame_inv by (simp add: ws_step_def fresh_event_def)
next
  case (Close sink)
  then show ?thesis using assms close_inv by (simp add: ws_step_def)
next
  case Drain
  then show ?thesis using assms(1) by (simp add: ws_step_def ws_inv_def conns_def del: map_of_eq_Some_iff)
qed

lemma ws_run_inv:
  "ws_inv cfg st \<Longrightarrow> fresh_run cfg answer es st \<Longrightarrow>
     ws_inv cfg (ws_run cfg answer es st) \<and> (Drain \<notin> set es \<and> watch_right st \<longrightarrow> watch_right (ws_run cfg answer es st))"
proof (induction es arbitrary: st)
  case (Cons e es)
  have e: "ws_inv cfg (ws_step cfg answer e st) \<and> (e \<noteq> Drain \<and> watch_right st \<longrightarrow> watch_right (ws_step cfg answer e st))"
    by (rule ws_step_inv) (use Cons.prems in simp_all)
  have "ws_inv cfg (ws_run cfg answer es (ws_step cfg answer e st)) \<and>
      (Drain \<notin> set es \<and> watch_right (ws_step cfg answer e st) \<longrightarrow> watch_right (ws_run cfg answer es (ws_step cfg answer e st)))"
    by (rule Cons.IH) (use e Cons.prems in simp_all)
  with e show ?case by auto
qed simp


definition demo_sub :: json where
  "demo_sub = Obj [(''id'', Num 1), (''method'', Str ''eth_subscribe''), (''params'', Arr [Str ''newHeads''])]"

definition demo_cfg :: ws_cfg where
  "demo_cfg = \<lparr>max_conns = 1, max_subs = 1\<rparr>"

definition demo_ws :: "ws_event list" where
  "demo_ws =
     [Upgrade False ''/ws?x'' ''1.2.3.4'' 7, Upgrade False ''/'' ''1.2.3.4'' 8, Frame 7 (\<lambda>n. replicate n CHR ''a'') (Some (Arr [demo_sub, demo_sub]))]"

lemma demo_ws_run: "ws_run demo_cfg (\<lambda>_. None) demo_ws new_ws =
    \<lparr>ws_per_ip = [(''1.2.3.4'', 1)], ws_open = [(7, ''1.2.3.4'')],
     ws_hub = \<lparr>hub_ids = [([], \<lparr>sn_sink = 7, sn_kind = NewHeads, sn_filter = None\<rparr>)], hub_sinks = [(7, [[]])], hub_heads = 1, hub_logs = 0\<rparr>,
     ws_watching = True\<rparr>"
  by code_simp


text \<open>Draining stops the poller, but the first socket that closes meanwhile starts it again.\<close>

lemma drain_restarts:
  "ws_watching (ws_run \<lparr>max_conns = 2, max_subs = 1\<rparr> (\<lambda>_. None)
     [Upgrade False ''/'' ''1.2.3.4'' 7, Upgrade False ''/'' ''1.2.3.4'' 8, Frame 7 (\<lambda>n. replicate n CHR ''a'') (Some demo_sub), Drain, Close 8] new_ws)"
  by code_simp

end
