(* ===== verification/Access.thy ===== *)
theory Access
  imports FastPath LoadLimits Upstream
begin

text \<open>
  Who gets through the gateway: the API keys (\<open>loadApiKeys\<close>, \<open>apps/gateway/src/config.ts\<close>), their
  authentication against the configuration and the shared store, and the admission of one JSON-RPC
  message (\<open>authenticate\<close> and \<open>answer\<close>, \<open>apps/gateway/src/main.ts\<close>) up to the point where it is
  dispatched. The store is a function of the presented key; a failure of it is \<^const>\<open>None\<close>.
\<close>

section \<open>API keys\<close>

datatype key_mode = AuctionMode | DirectMode

record api_key =
  ak_key :: string
  ak_label :: string
  ak_rate :: int
  ak_rebate :: "string option"
  ak_mode :: key_mode

text \<open>The fields of a record that are missing take their default; an empty one does not.\<close>

definition field_or :: "string \<Rightarrow> string list \<Rightarrow> nat \<Rightarrow> string" where
  "field_or d fs i = (if i < length fs then fs ! i else d)"

definition read_key :: "string \<Rightarrow> api_key option" where
  "read_key rec =
     (let fs = split_on CHR '':'' rec;
          key = field_or [] fs 0;
          rebate = (if field_or [] fs 3 = [] then None else Some (field_or [] fs 3));
          mode = field_or [] fs 4 in
      if key = [] then None
      else Some \<lparr>ak_key = key, ak_label = field_or ''unnamed'' fs 1,
                 ak_rate = (case big_int (field_or ''600'' fs 2) of None \<Rightarrow> 0 | Some n \<Rightarrow> n),
                 ak_rebate = rebate,
                 ak_mode = (if mode = ''auction'' then AuctionMode else if mode = ''direct'' then DirectMode
                            else if rebate \<noteq> None then AuctionMode else DirectMode)\<rparr>)"

definition add_key :: "(string \<times> api_key) list \<Rightarrow> string \<Rightarrow> (string \<times> api_key) list" where
  "add_key m rec = (case read_key rec of None \<Rightarrow> m | Some k \<Rightarrow> jset (ak_key k) k m)"

text \<open>\<open>random\<close> is the hexadecimal text of twelve random bytes.\<close>

definition load_api_keys :: "string option \<Rightarrow> string \<Rightarrow> (string \<times> api_key) list" where
  "load_api_keys env random =
     (let raw = (case env of None \<Rightarrow> [] | Some s \<Rightarrow> trim s);
          keys = (if raw \<noteq> [] then foldl add_key [] (split_on CHR '','' raw) else []);
          dev = ''ordo_dev_'' @ random in
      if keys = [] then [(dev, \<lparr>ak_key = dev, ak_label = ''dev-ephemeral'', ak_rate = 600, ak_rebate = None, ak_mode = DirectMode\<rparr>)]
      else keys)"

section \<open>Authentication\<close>

definition key_ttl_ms :: int where "key_ttl_ms = 60000"

record key_table =
  kt_keys :: "(string \<times> api_key) list"
  kt_seen :: "(string \<times> int) list"

type_synonym key_store = "string \<Rightarrow> api_key option option"

definition store_backed_key :: "int \<Rightarrow> key_store \<Rightarrow> string \<Rightarrow> key_table \<Rightarrow> api_key option \<times> key_table" where
  "store_backed_key now lookup presented kt =
     (case lookup presented of
        Some (Some row) \<Rightarrow>
          let key = row\<lparr>ak_key := presented\<rparr> in
          (Some key, kt\<lparr>kt_keys := jset presented key (kt_keys kt), kt_seen := jset presented now (kt_seen kt)\<rparr>)
      | _ \<Rightarrow> (None, kt))"

datatype auth = Keyed api_key | Anon | NoAuth

text \<open>\<open>/^Bearer\s+/i\<close>, removed.\<close>

definition strip_bearer :: "string \<Rightarrow> string" where
  "strip_bearer s =
     (if lower (take 6 s) = ''bearer'' \<and> length s > 6 \<and> is_space (s ! 6) then dropWhile is_space (drop 6 s) else s)"

definition presented_key :: "string option \<Rightarrow> string option \<Rightarrow> string option" where
  "presented_key x_api_key authorization =
     (case x_api_key of Some k \<Rightarrow> Some k | None \<Rightarrow> map_option strip_bearer authorization)"

record access_cfg =
  ac_allow_anon :: bool
  ac_anon_methods :: "string list"
  ac_anon_rate :: int
  ac_anon_send_rate :: int
  ac_anon_inflight :: int
  ac_chain_id :: int

definition anon_auth :: "access_cfg \<Rightarrow> json \<Rightarrow> auth" where
  "anon_auth cfg method = (if ac_allow_anon cfg \<and> method \<in> Str ` set (ac_anon_methods cfg) then Anon else NoAuth)"

definition authenticate :: "access_cfg \<Rightarrow> int \<Rightarrow> key_store \<Rightarrow> string option \<Rightarrow> json \<Rightarrow> key_table \<Rightarrow> auth \<times> key_table" where
  "authenticate cfg now lookup header method kt =
     (case header of
        Some (c # cs) \<Rightarrow>
          let h = c # cs;
              known = jget (kt_keys kt) h;
              fresh = (case jget (kt_seen kt) h of None \<Rightarrow> True | Some seen \<Rightarrow> now - seen < key_ttl_ms) in
          (case known of
             Some k \<Rightarrow>
               if fresh then (Keyed k, kt)
               else (case store_backed_key now lookup h kt of
                       (Some k', kt') \<Rightarrow> (Keyed k', kt')
                     | (None, kt') \<Rightarrow> (Keyed k, kt'))
           | None \<Rightarrow>
               (case store_backed_key now lookup h kt of
                  (Some k', kt') \<Rightarrow> (Keyed k', kt')
                | (None, kt') \<Rightarrow> (anon_auth cfg method, kt')))
      | _ \<Rightarrow> (anon_auth cfg method, kt))"

section \<open>Admission\<close>

record access_state =
  as_keys :: key_table
  as_cache :: "json micro_cache"
  as_limiter :: rate_limiter
  as_sends :: rate_limiter

record rpc_request =
  rq_x_api_key :: "string option"
  rq_authorization :: "string option"
  rq_cf_ip :: header
  rq_forwarded :: header
  rq_remote :: "string option"

text \<open>A local answer, and whether the cache was touched by looking.\<close>

definition local_answer :: "int \<Rightarrow> access_cfg \<Rightarrow> string \<Rightarrow> json list \<Rightarrow> access_state \<Rightarrow> json option \<times> access_state" where
  "local_answer now cfg method params st =
     (case static_answer method (ac_chain_id cfg) of
        Some fixed \<Rightarrow> (Some fixed, st)
      | None \<Rightarrow> (let (hit, c) = cache_get now (cache_key method params) (as_cache st) in (hit, st\<lparr>as_cache := c\<rparr>)))"

definition error_reply :: "json \<Rightarrow> int \<Rightarrow> string \<Rightarrow> json" where
  "error_reply msg code text =
     Obj ((''jsonrpc'', Str ''2.0'') # (case member ''id'' msg of None \<Rightarrow> [] | Some i \<Rightarrow> [(''id'', i)]) @
          [(''error'', Obj [(''code'', Num code), (''message'', Str text)])])"

text \<open>
  Answered, or admitted to \<open>dispatch\<close> as a key or (after the cap of requests in flight) as an anonymous
  address, or an exception: reading \<open>id\<close> of a message that is \<open>null\<close>, or a method that is no string.
\<close>

datatype admission = Answered json | Admitted auth string | AnswerThrows

definition method_of :: "json \<Rightarrow> json" where
  "method_of msg = (case member ''method'' msg of None \<Rightarrow> Str [] | Some Null \<Rightarrow> Str [] | Some m \<Rightarrow> m)"

definition is_text :: "string option \<Rightarrow> bool" where
  "is_text s = (case s of Some (c # cs) \<Rightarrow> True | _ \<Rightarrow> False)"

definition unauthorized :: "rpc_request \<Rightarrow> json \<Rightarrow> json \<Rightarrow> admission" where
  "unauthorized rq method msg =
     (if msg = Null then AnswerThrows
      else if is_text (rq_x_api_key rq) \<or> is_text (rq_authorization rq)
      then Answered (error_reply msg (- 32001) ''unauthorized: the x-api-key presented is not valid'')
      else Answered (error_reply msg (- 32601) (js_string (Some method) @
        '' is not available without an API key on this endpoint (standard eth_/net_ reads and eth_sendRawTransaction are open); keys at https://app.ordofi.network/docs'')))"

definition ip_of :: "rpc_request \<Rightarrow> string" where
  "ip_of rq = client_ip (rq_cf_ip rq) (rq_forwarded rq) (rq_remote rq)"

definition anon_key :: "string \<Rightarrow> string" where "anon_key ip = ''anon:'' @ ip"
definition anon_send_key :: "string \<Rightarrow> string" where "anon_send_key ip = ''anon-send:'' @ ip"

definition limit_checks :: "access_cfg \<Rightarrow> int \<Rightarrow> auth \<Rightarrow> string \<Rightarrow> string \<Rightarrow> access_state \<Rightarrow> (bool \<times> int) \<times> (bool \<times> int) \<times> access_state" where
  "limit_checks cfg now who ip m st =
     (let (rl, lim) = (case who of Keyed k \<Rightarrow> rate_check now (ak_key k) (ak_rate k) (as_limiter st)
                               | _ \<Rightarrow> rate_check now (anon_key ip) (ac_anon_rate cfg) (as_limiter st));
          (srl, sends) = (if who = Anon \<and> m = ''eth_sendRawTransaction''
                          then rate_check now (anon_send_key ip) (ac_anon_send_rate cfg) (as_sends st) else ((True, 0), as_sends st)) in
      (rl, srl, st\<lparr>as_limiter := lim, as_sends := sends\<rparr>))"

definition limited :: "json \<Rightarrow> bool \<times> int \<Rightarrow> bool \<times> int \<Rightarrow> admission" where
  "limited msg rl srl =
     (if msg = Null then AnswerThrows
      else Answered (error_reply msg (- 32005)
        ((if fst srl then ''rate'' else ''send rate'') @ '' limit exceeded, retry in '' @
         to_str ((max (snd rl) (snd srl) + 999) div 1000) @ ''s'')))"

definition admit :: "access_cfg \<Rightarrow> int \<Rightarrow> key_store \<Rightarrow> rpc_request \<Rightarrow> json \<Rightarrow> access_state \<Rightarrow> admission \<times> access_state" where
  "admit cfg now lookup rq msg st0 =
     (let method = method_of msg; params = msg_params msg;
          (who, kt) = authenticate cfg now lookup (presented_key (rq_x_api_key rq) (rq_authorization rq)) method (as_keys st0);
          st1 = st0\<lparr>as_keys := kt\<rparr> in
      if who = NoAuth then (unauthorized rq method msg, st1)
      else case method of
             Str m \<Rightarrow>
               (let (hit, st2) = (if is_plain_read (Some method) then local_answer now cfg m params st1 else (None, st1)) in
                case hit of
                  Some v \<Rightarrow> (if msg = Null then AnswerThrows else Answered (reply msg v), st2)
                | None \<Rightarrow>
                    (let (rl, srl, st3) = limit_checks cfg now who (ip_of rq) m st2 in
                     if \<not> fst rl \<or> \<not> fst srl then (limited msg rl srl, st3) else (Admitted who m, st3)))
           | _ \<Rightarrow> (AnswerThrows, st1))"

text \<open>An admitted anonymous request waits for a slot; without one it is refused.\<close>

definition slot_refused :: "access_cfg \<Rightarrow> json \<Rightarrow> json" where
  "slot_refused cfg msg =
     error_reply msg (- 32005)
       (''too many concurrent requests from this address ('' @ to_str (ac_anon_inflight cfg) @ '' in flight for over 2s); slow down'')"

section \<open>Keys follow the store\<close>

text \<open>
  A key of the store follows the store: once it was last read a minute ago, the next request is
  authenticated by what the store says now (its limit, label and mode), and is not read again within
  the next minute; a key of the configuration, never read from the store, stays as configured whatever
  the store says.
\<close>

theorem key_changes_land:
  assumes "h \<noteq> []" "lookup h = Some (Some row)"
  shows "(jget (kt_seen kt) h = Some seen \<and> key_ttl_ms \<le> now - seen \<longrightarrow>
            fst (authenticate cfg now lookup (Some h) method kt) = Keyed (row\<lparr>ak_key := h\<rparr>) \<and>
            (\<forall>now' lookup'. now \<le> now' \<and> now' < now + key_ttl_ms \<longrightarrow>
               authenticate cfg now' lookup' (Some h) method (snd (authenticate cfg now lookup (Some h) method kt)) =
                 (Keyed (row\<lparr>ak_key := h\<rparr>), snd (authenticate cfg now lookup (Some h) method kt)))) \<and>
         (jget (kt_keys kt) h = Some k \<and> jget (kt_seen kt) h = None \<longrightarrow> authenticate cfg now lookup (Some h) method kt = (Keyed k, kt))"
proof -
  obtain c cs where h: "h = c # cs" using assms(1) by (cases h) auto
  show ?thesis
    using assms(2) unfolding h
    by (auto simp: authenticate_def store_backed_key_def Let_def key_ttl_ms_def simp del: map_of_eq_Some_iff split: option.splits)
qed

definition demo_access :: access_cfg where
  "demo_access =
     \<lparr>ac_allow_anon = True, ac_anon_methods = [''eth_call'', ''eth_sendRawTransaction'', ''ordo_sendRawTransaction''], ac_anon_rate = 3000,
      ac_anon_send_rate = 1, ac_anon_inflight = 16, ac_chain_id = 4663\<rparr>"

definition demo_key :: api_key where
  "demo_key = \<lparr>ak_key = ''k1'', ak_label = ''partner'', ak_rate = 100, ak_rebate = None, ak_mode = DirectMode\<rparr>"

theorem key_changes_land_witness:
  "fst (authenticate demo_access 100000 (\<lambda>_. Some (Some (demo_key\<lparr>ak_rate := 900\<rparr>))) (Some ''k1'') (Str ''eth_call'')
     \<lparr>kt_keys = [(''k1'', demo_key)], kt_seen = [(''k1'', 40000)]\<rparr>) = Keyed (demo_key\<lparr>ak_rate := 900\<rparr>)"
  using key_changes_land [of "''k1''" "\<lambda>_. Some (Some (demo_key\<lparr>ak_rate := 900\<rparr>))" "demo_key\<lparr>ak_rate := 900\<rparr>"
    "\<lparr>kt_keys = [(''k1'', demo_key)], kt_seen = [(''k1'', 40000)]\<rparr>" 40000 100000 demo_access "Str ''eth_call''" demo_key]
  by (simp add: key_ttl_ms_def demo_key_def)

text \<open>A key the store has revoked is served from the table for as long as the process lives.\<close>

lemma revoked_key_served:
  assumes "h \<noteq> []" "jget (kt_keys kt) h = Some k" "lookup h = Some None"
  shows "fst (authenticate cfg now lookup (Some h) method kt) = Keyed k"
proof -
  obtain c cs where h: "h = c # cs" using assms(1) by (cases h) auto
  show ?thesis using assms(2,3) unfolding h
    by (auto simp: authenticate_def store_backed_key_def Let_def simp del: map_of_eq_Some_iff split: option.splits)
qed

section \<open>What one address gets through\<close>

type_synonym arrival = "int \<times> key_store \<times> rpc_request \<times> json"

fun admit_run :: "access_cfg \<Rightarrow> arrival list \<Rightarrow> access_state \<Rightarrow> (rpc_request \<times> admission) list \<times> access_state" where
  "admit_run cfg [] st = ([], st)"
| "admit_run cfg ((now, lookup, rq, msg) # rs) st =
     (let (a, st1) = admit cfg now lookup rq msg st; (outs, st2) = admit_run cfg rs st1 in ((rq, a) # outs, st2))"

definition admitted_of :: "string \<Rightarrow> (string \<Rightarrow> bool) \<Rightarrow> rpc_request \<times> admission \<Rightarrow> bool" where
  "admitted_of ip P = (\<lambda>(rq, a). ip_of rq = ip \<and> (case a of Admitted Anon m \<Rightarrow> P m | _ \<Rightarrow> False))"

definition admitted_count :: "string \<Rightarrow> (string \<Rightarrow> bool) \<Rightarrow> (rpc_request \<times> admission) list \<Rightarrow> int" where
  "admitted_count ip P outs = int (length (filter (admitted_of ip P) outs))"

definition own_keys :: "key_table \<Rightarrow> bool" where
  "own_keys kt \<longleftrightarrow> (\<forall>h k. jget (kt_keys kt) h = Some k \<longrightarrow> ak_key k = h)"

lemma authenticate_own:
  assumes "own_keys kt" "authenticate cfg now lookup header method kt = (who, kt')"
  shows "own_keys kt' \<and> (\<forall>k. who = Keyed k \<longrightarrow> header = Some (ak_key k))"
  using assms
  by (auto simp: authenticate_def store_backed_key_def own_keys_def anon_auth_def Let_def simp del: map_of_eq_Some_iff
      split: option.splits list.splits if_splits)

lemma rate_other: "k \<noteq> k' \<Longrightarrow> rate_check now k l ws = (r, ws') \<Longrightarrow> jget ws' k' = jget ws k'"
  by (auto simp: rate_check_def Let_def split: option.splits if_splits)

lemma rate_step:
  assumes "rate_check now k l ws = ((ok, r), ws')" "k = k' \<Longrightarrow> l = l'" "0 < l'" "end \<le> now + 60000" "now < end"
  shows "(if k = k' \<and> ok then 1 else 0) + allowance l' end (jget ws' k') \<le> allowance l' end (jget ws k')"
proof (cases "k = k'")
  case True
  then show ?thesis using rate_check_allowance [of now k "\<lambda>_. l'" ws ok r ws' k' "end"] assms by simp
qed (use rate_other [OF _ assms(1)] in simp)

text \<open>What the checks of one message do to the two windows of an address.\<close>

lemma limit_checks_step:
  assumes "limit_checks cfg now who ip' m st = (rl, srl, st')" "\<And>k. who = Keyed k \<Longrightarrow> ak_key k \<noteq> anon_key ip"
    and "0 < ac_anon_rate cfg" "0 < ac_anon_send_rate cfg" "end \<le> now + 60000" "now < end"
  shows "(if who = Anon \<and> ip' = ip \<and> fst rl then 1 else 0) + allowance (ac_anon_rate cfg) end (jget (as_limiter st') (anon_key ip))
           \<le> allowance (ac_anon_rate cfg) end (jget (as_limiter st) (anon_key ip))"
    and "(if who = Anon \<and> ip' = ip \<and> m = ''eth_sendRawTransaction'' \<and> fst srl then 1 else 0) + allowance (ac_anon_send_rate cfg) end (jget (as_sends st') (anon_send_key ip))
           \<le> allowance (ac_anon_send_rate cfg) end (jget (as_sends st) (anon_send_key ip))"
    and "as_keys st' = as_keys st"
proof -
  define key where "key = (case who of Keyed k \<Rightarrow> ak_key k | _ \<Rightarrow> anon_key ip')"
  define l where "l = (case who of Keyed k \<Rightarrow> ak_rate k | _ \<Rightarrow> ac_anon_rate cfg)"
  obtain ok r lim where c: "rate_check now key l (as_limiter st) = ((ok, r), lim)" by (metis surj_pair)
  have st': "rl = (ok, r)" "as_limiter st' = lim" "as_keys st' = as_keys st"
    using assms(1) c by (auto simp: limit_checks_def key_def l_def split: auth.splits prod.splits if_splits)
  then show "as_keys st' = as_keys st" by simp
  have "key = anon_key ip \<Longrightarrow> l = ac_anon_rate cfg" using assms(2) by (auto simp: key_def l_def split: auth.splits)
  then have "(if key = anon_key ip \<and> ok then 1 else 0) + allowance (ac_anon_rate cfg) end (jget lim (anon_key ip))
      \<le> allowance (ac_anon_rate cfg) end (jget (as_limiter st) (anon_key ip))"
    by (rule rate_step [OF c _ assms(3,5,6)])
  moreover have "key = anon_key ip" if "who = Anon" "ip' = ip" using that by (simp add: key_def)
  ultimately show "(if who = Anon \<and> ip' = ip \<and> fst rl then 1 else 0) + allowance (ac_anon_rate cfg) end (jget (as_limiter st') (anon_key ip))
           \<le> allowance (ac_anon_rate cfg) end (jget (as_limiter st) (anon_key ip))"
    unfolding st' fst_conv by (auto split: if_splits)
  show "(if who = Anon \<and> ip' = ip \<and> m = ''eth_sendRawTransaction'' \<and> fst srl then 1 else 0) + allowance (ac_anon_send_rate cfg) end (jget (as_sends st') (anon_send_key ip))
           \<le> allowance (ac_anon_send_rate cfg) end (jget (as_sends st) (anon_send_key ip))"
  proof (cases "who = Anon \<and> m = ''eth_sendRawTransaction''")
    case True
    obtain ok2 r2 ws where c2: "rate_check now (anon_send_key ip') (ac_anon_send_rate cfg) (as_sends st) = ((ok2, r2), ws)" by (metis surj_pair)
    have "srl = (ok2, r2)" "as_sends st' = ws" using assms(1) c2 True by (auto simp: limit_checks_def split: prod.splits)
    then show ?thesis using rate_step [OF c2 _ assms(4-6), of "anon_send_key ip"] True by (auto simp: anon_send_key_def)
  next
    case False
    then have "as_sends st' = as_sends st" using assms(1) by (auto simp: limit_checks_def split: prod.splits if_splits)
    then show ?thesis using False by auto
  qed
qed

lemma local_answer_frame:
  "local_answer now cfg m ps st = (hit, st') \<Longrightarrow> as_keys st' = as_keys st \<and> as_limiter st' = as_limiter st \<and> as_sends st' = as_sends st"
  by (auto simp: local_answer_def split: option.splits prod.splits)

lemma admit_cases:
  assumes "admit cfg now lookup rq msg st = (a, st')"
  obtains (no) kt where "as_keys st' = kt" "as_limiter st' = as_limiter st" "as_sends st' = as_sends st" "\<And>w m. a \<noteq> Admitted w m"
      "kt = snd (authenticate cfg now lookup (presented_key (rq_x_api_key rq) (rq_authorization rq)) (method_of msg) (as_keys st))"
  | (checked) who kt m st2 rl srl where
      "authenticate cfg now lookup (presented_key (rq_x_api_key rq) (rq_authorization rq)) (method_of msg) (as_keys st) = (who, kt)"
      "as_keys st2 = kt" "as_limiter st2 = as_limiter st" "as_sends st2 = as_sends st" "limit_checks cfg now who (ip_of rq) m st2 = (rl, srl, st')"
      "\<And>w m'. a = Admitted w m' \<Longrightarrow> w = who \<and> m' = m \<and> fst rl \<and> fst srl" "method_of msg = Str m"
proof -
  obtain who kt where au: "authenticate cfg now lookup (presented_key (rq_x_api_key rq) (rq_authorization rq)) (method_of msg) (as_keys st) = (who, kt)"
    by fastforce
  note a = assms [unfolded admit_def Let_def au prod.case]
  show ?thesis
  proof (cases "who \<noteq> NoAuth \<and> (\<exists>m. method_of msg = Str m)")
    case False
    then have "st' = st\<lparr>as_keys := kt\<rparr>" "\<And>w m. a \<noteq> Admitted w m"
      using a by (auto simp: unauthorized_def split: if_splits json.splits)
    then show ?thesis by (intro no [of kt]) (auto simp: au)
  next
    case True
    then obtain m where m: "method_of msg = Str m" "who \<noteq> NoAuth" by blast
    obtain hit st2 where lo: "(if is_plain_read (Some (method_of msg)) then local_answer now cfg m (msg_params msg) (st\<lparr>as_keys := kt\<rparr>) else (None, st\<lparr>as_keys := kt\<rparr>)) = (hit, st2)"
      by fastforce
    have f: "as_keys st2 = kt" "as_limiter st2 = as_limiter st" "as_sends st2 = as_sends st"
      using lo local_answer_frame [of now cfg m "msg_params msg" "st\<lparr>as_keys := kt\<rparr>" hit st2] by (auto split: if_splits)
    obtain rl srl st3 where lc: "limit_checks cfg now who (ip_of rq) m st2 = (rl, srl, st3)" by (metis surj_pair)
    show ?thesis
    proof (cases hit)
      case (Some v)
      then have "st' = st2" "\<And>w m. a \<noteq> Admitted w m" using a m lo by (auto split: if_splits)
      then show ?thesis using f by (intro no [of kt]) (auto simp: au)
    next
      case None
      then have "st' = st3" "\<And>w m'. a = Admitted w m' \<Longrightarrow> w = who \<and> m' = m \<and> fst rl \<and> fst srl"
        using a m lo lc by (auto simp: limited_def split: if_splits)
      then show ?thesis using au f lc m by (intro checked [of who kt st2 m rl srl]) auto
    qed
  qed
qed

lemma admitted_count_simps [simp]:
  "admitted_count ip P [] = 0"
  "admitted_count ip P (x # outs) = (if admitted_of ip P x then 1 else 0) + admitted_count ip P outs"
  by (simp_all add: admitted_count_def)

lemma admit_step:
  assumes "admit cfg now lookup rq msg st = (a, st')" "own_keys (as_keys st)"
    and "presented_key (rq_x_api_key rq) (rq_authorization rq) \<noteq> Some (anon_key ip)"
    and "0 < ac_anon_rate cfg" "0 < ac_anon_send_rate cfg" "end \<le> now + 60000" "now < end"
  shows "own_keys (as_keys st') \<and>
     (if admitted_of ip (\<lambda>_. True) (rq, a) then 1 else 0) + allowance (ac_anon_rate cfg) end (jget (as_limiter st') (anon_key ip))
        \<le> allowance (ac_anon_rate cfg) end (jget (as_limiter st) (anon_key ip)) \<and>
     (if admitted_of ip (\<lambda>m. m = ''eth_sendRawTransaction'') (rq, a) then 1 else 0) + allowance (ac_anon_send_rate cfg) end (jget (as_sends st') (anon_send_key ip))
        \<le> allowance (ac_anon_send_rate cfg) end (jget (as_sends st) (anon_send_key ip))"
  using assms(1)
proof (cases rule: admit_cases)
  case (no kt)
  have "own_keys kt" using no(5) authenticate_own [OF assms(2)] by (metis prod.collapse)
  then show ?thesis using no by (auto simp: admitted_of_def split: admission.splits auth.splits)
next
  case (checked who kt m st2 rl srl)
  note own = authenticate_own [OF assms(2) checked(1)]
  have k: "ak_key k \<noteq> anon_key ip" if "who = Keyed k" for k using own that assms(3) by auto
  note l = limit_checks_step [OF checked(5) k assms(4-7)]
  have ad: "admitted_of ip P (rq, a) \<Longrightarrow> who = Anon \<and> ip_of rq = ip \<and> fst rl \<and> fst srl \<and> P m" for P
    using checked(6) by (auto simp: admitted_of_def split: admission.splits auth.splits)
  show ?thesis
    using own l ad [of "\<lambda>_. True"] ad [of "\<lambda>m. m = ''eth_sendRawTransaction''"] checked(2-4) by (auto split: if_splits)
qed

lemma admit_run_allowance:
  assumes "admit_run cfg rs st = (outs, st')" "own_keys (as_keys st)"
    and "\<forall>(t, lookup, rq, msg) \<in> set rs. start \<le> t \<and> t < start + 60000 \<and> presented_key (rq_x_api_key rq) (rq_authorization rq) \<noteq> Some (anon_key ip)"
    and "0 < ac_anon_rate cfg" "0 < ac_anon_send_rate cfg"
  shows "admitted_count ip (\<lambda>_. True) outs \<le> allowance (ac_anon_rate cfg) (start + 60000) (jget (as_limiter st) (anon_key ip)) \<and>
         admitted_count ip (\<lambda>m. m = ''eth_sendRawTransaction'') outs \<le> allowance (ac_anon_send_rate cfg) (start + 60000) (jget (as_sends st) (anon_send_key ip))"
  using assms(1-3)
proof (induction rs arbitrary: st outs st')
  case Nil
  then show ?case using assms(4,5) by (auto simp: allowance_def split: option.split)
next
  case (Cons x rs)
  obtain now lookup rq msg where x: "x = (now, lookup, rq, msg)" by (cases x)
  obtain a st1 outs2 st2 where s: "admit cfg now lookup rq msg st = (a, st1)" "admit_run cfg rs st1 = (outs2, st2)" by fastforce
  have o: "outs = (rq, a) # outs2" using Cons.prems(1) s by (simp add: x)
  have t: "start + 60000 \<le> now + 60000" "now < start + 60000" "presented_key (rq_x_api_key rq) (rq_authorization rq) \<noteq> Some (anon_key ip)"
    using Cons.prems(3) by (auto simp: x)
  note st = admit_step [OF s(1) Cons.prems(2) t(3) assms(4,5) t(1,2)]
  have ih: "admitted_count ip (\<lambda>_. True) outs2 \<le> allowance (ac_anon_rate cfg) (start + 60000) (jget (as_limiter st1) (anon_key ip)) \<and>
         admitted_count ip (\<lambda>m. m = ''eth_sendRawTransaction'') outs2 \<le> allowance (ac_anon_send_rate cfg) (start + 60000) (jget (as_sends st1) (anon_send_key ip))"
    by (rule Cons.IH [OF s(2)]) (use st Cons.prems(3) in auto)
  show ?case using st ih unfolding o admitted_count_simps by linarith
qed

text \<open>
  Within any minute, whatever mix of keyed and anonymous messages arrives over any number of
  connections, the anonymous messages of one address that are admitted to the upstream are at most twice
  its rate limit, and its plain sends at most twice the send limit: answers from memory are free, and
  everything else is counted. (No key may be named like an anonymous address.)
\<close>

theorem anonymous_load_bounded:
  assumes "admit_run cfg rs st = (outs, st')" "own_keys (as_keys st)"
    and "\<forall>(t, lookup, rq, msg) \<in> set rs. start \<le> t \<and> t < start + 60000 \<and> presented_key (rq_x_api_key rq) (rq_authorization rq) \<noteq> Some (anon_key ip)"
    and "0 < ac_anon_rate cfg" "0 < ac_anon_send_rate cfg"
    and "\<forall>w. jget (as_limiter st) (anon_key ip) = Some w \<longrightarrow> 0 \<le> rw_count w" "\<forall>w. jget (as_sends st) (anon_send_key ip) = Some w \<longrightarrow> 0 \<le> rw_count w"
  shows "admitted_count ip (\<lambda>_. True) outs \<le> 2 * ac_anon_rate cfg \<and>
         admitted_count ip (\<lambda>m. m = ''eth_sendRawTransaction'') outs \<le> 2 * ac_anon_send_rate cfg"
proof -
  have "allowance (ac_anon_rate cfg) (start + 60000) (jget (as_limiter st) (anon_key ip)) \<le> 2 * ac_anon_rate cfg"
    "allowance (ac_anon_send_rate cfg) (start + 60000) (jget (as_sends st) (anon_send_key ip)) \<le> 2 * ac_anon_send_rate cfg"
    using assms(4-7) by (auto simp: allowance_def split: option.splits simp del: map_of_eq_Some_iff)
  with admit_run_allowance [OF assms(1-5)] show ?thesis by linarith
qed

definition demo_arrival :: "string \<Rightarrow> arrival" where
  "demo_arrival m =
     (5, \<lambda>_. Some None, \<lparr>rq_x_api_key = None, rq_authorization = None, rq_cf_ip = OneHeader ''1.2.3.4'', rq_forwarded = NoHeader, rq_remote = None\<rparr>,
      Obj [(''id'', Num 1), (''method'', Str m), (''params'', Arr [Str ''0x02''])])"

definition demo_state :: access_state where
  "demo_state = \<lparr>as_keys = \<lparr>kt_keys = [], kt_seen = []\<rparr>, as_cache = new_cache, as_limiter = [], as_sends = []\<rparr>"

lemma demo_admit:
  "map (\<lambda>x. admitted_of ''1.2.3.4'' (\<lambda>_. True) x) (fst (admit_run demo_access (replicate 3 (demo_arrival ''eth_sendRawTransaction'')) demo_state)) = [True, False, False]"
  by code_simp

theorem anonymous_load_bounded_witness:
  "admitted_count ''1.2.3.4'' (\<lambda>m. m = ''eth_sendRawTransaction'') (fst (admit_run demo_access (replicate 3 (demo_arrival ''eth_sendRawTransaction'')) demo_state)) \<le> 2"
proof -
  obtain outs st' where r: "admit_run demo_access (replicate 3 (demo_arrival ''eth_sendRawTransaction'')) demo_state = (outs, st')" by fastforce
  have o: "own_keys (as_keys demo_state)" by (simp add: own_keys_def demo_state_def)
  have t: "\<forall>(t, lookup, rq, msg) \<in> set (replicate 3 (demo_arrival ''eth_sendRawTransaction'')). 0 \<le> t \<and> t < 0 + 60000 \<and>
      presented_key (rq_x_api_key rq) (rq_authorization rq) \<noteq> Some (anon_key ''1.2.3.4'')"
    by (simp add: demo_arrival_def presented_key_def)
  have c: "0 < ac_anon_rate demo_access" "0 < ac_anon_send_rate demo_access" "2 * ac_anon_send_rate demo_access = 2"
    by (simp_all add: demo_access_def)
  have w: "as_limiter demo_state = []" "as_sends demo_state = []" by (simp_all add: demo_state_def)
  from anonymous_load_bounded [OF r o t c(1,2)] show ?thesis unfolding r fst_conv c(3) w by simp
qed

text \<open>
  The send with a waived check is open to anonymous callers but not counted as a send: its only limit is
  the general one, far above.
\<close>

lemma waived_sends_uncounted:
  "map (\<lambda>x. admitted_of ''1.2.3.4'' (\<lambda>_. True) x) (fst (admit_run demo_access (replicate 3 (demo_arrival ''ordo_sendRawTransaction'')) demo_state)) = [True, True, True]"
  by code_simp

text \<open>A message that is \<open>null\<close> makes the answer throw, for anyone.\<close>

lemma null_message_throws: "fst (admit cfg now (\<lambda>_. Some None) (fst (snd (snd (demo_arrival m)))) Null demo_state) \<in> {AnswerThrows, Admitted Anon []}"
  by (auto simp: admit_def demo_arrival_def demo_state_def authenticate_def presented_key_def anon_auth_def unauthorized_def limited_def Let_def
      method_of_def split: if_splits prod.splits option.splits)

end
