(* ===== verification/Billing.thy ===== *)
theory Billing
  imports Access
begin

text \<open>
  The invoice of API keys (\<open>apps/gateway/src/billing.ts\<close> over the tables \<open>key_ledger\<close> and \<open>key_topups\<close> of
  \<open>packages/store/src/index.ts\<close>). A table is a map from its primary key, amounts are micro-dollars, and
  \<open>None\<close> for the store means the gateway runs without one.
\<close>

section \<open>The tables\<close>

record key_row =
  kr_sends :: int
  kr_billed :: int
  kr_paid :: int
  kr_prepaid :: int
  kr_last_send :: "int option"

record bill_store =
  bs_ledger :: "(string \<times> key_row) list"
  bs_topups :: "(string \<times> (string \<times> int)) list"

definition empty_row :: key_row where
  "empty_row = \<lparr>kr_sends = 0, kr_billed = 0, kr_paid = 0, kr_prepaid = 0, kr_last_send = None\<rparr>"

definition key_billing :: "bill_store \<Rightarrow> string \<Rightarrow> key_row" where
  "key_billing st label = jget_or empty_row (bs_ledger st) label"

definition owed_micros :: "key_row \<Rightarrow> int" where
  "owed_micros r = max 0 (kr_billed r - kr_paid r)"

definition billed_label :: "string \<Rightarrow> bool" where
  "billed_label label = (label \<noteq> [] \<and> label \<noteq> ''anon'')"

definition can_charge_send :: "bill_store \<Rightarrow> string \<Rightarrow> int \<Rightarrow> bool \<Rightarrow> bool" where
  "can_charge_send st label price enforce =
     (if \<not> enforce \<or> \<not> billed_label label then True else kr_prepaid (key_billing st label) \<ge> price)"

definition charge_keyed_send :: "int \<Rightarrow> string \<Rightarrow> int \<Rightarrow> bill_store \<Rightarrow> bill_store" where
  "charge_keyed_send now label price st =
     (if \<not> billed_label label \<or> price \<le> 0 then st
      else let cur = key_billing st label;
               billed = kr_billed cur + price;
               apply = min (kr_prepaid cur) (billed - kr_paid cur) in
           st\<lparr>bs_ledger := jset label
                (cur\<lparr>kr_sends := kr_sends cur + 1, kr_billed := billed, kr_paid := kr_paid cur + apply,
                     kr_prepaid := kr_prepaid cur - apply, kr_last_send := Some now\<rparr>) (bs_ledger st)\<rparr>)"

datatype credit_error = AnonCredit | NotPositive | NotAHash | AlreadyApplied

text \<open>The row of the ledger is inserted before the top-up, and stays when that hash was applied already.\<close>

definition credit_key :: "string \<Rightarrow> int \<Rightarrow> string \<Rightarrow> bill_store \<Rightarrow> (credit_error + unit) \<times> bill_store" where
  "credit_key label micros tx_hash st =
     (if \<not> billed_label label then (Inl AnonCredit, st)
      else if micros \<le> 0 then (Inl NotPositive, st)
      else let hash = lower tx_hash in
           if \<not> is_hex 64 hash then (Inl NotAHash, st)
           else let st1 = st\<lparr>bs_ledger := jset label (key_billing st label) (bs_ledger st)\<rparr> in
                if jget (bs_topups st1) hash \<noteq> None then (Inl AlreadyApplied, st1)
                else let cur = key_billing st1 label;
                         prepaid = kr_prepaid cur + micros;
                         apply = min prepaid (max 0 (kr_billed cur - kr_paid cur)) in
                     (Inr (), st1\<lparr>bs_topups := jset hash (label, micros) (bs_topups st1),
                                  bs_ledger := jset label (cur\<lparr>kr_paid := kr_paid cur + apply, kr_prepaid := prepaid - apply\<rparr>) (bs_ledger st1)\<rparr>))"

text \<open>\<open>rows\<close>: how many confirmed transactions each label has routed.\<close>

definition backfill_one :: "int \<Rightarrow> string \<times> int \<Rightarrow> bill_store \<Rightarrow> bill_store" where
  "backfill_one price row st =
     (let label = fst row; n = snd row; cur = key_billing st label;
          billed = max (kr_billed cur) (n * price); sends = max (kr_sends cur) n;
          st1 = st\<lparr>bs_ledger := jset label cur (bs_ledger st)\<rparr> in
      if billed = kr_billed cur \<and> sends = kr_sends cur then st1
      else st1\<lparr>bs_ledger := jset label (cur\<lparr>kr_sends := sends, kr_billed := billed\<rparr>) (bs_ledger st1)\<rparr>)"

definition backfill_billing :: "int \<Rightarrow> (string \<times> int) list \<Rightarrow> bill_store \<Rightarrow> bill_store" where
  "backfill_billing price rows st = (if price \<le> 0 then st else fold (backfill_one price) (filter (\<lambda>r. fst r \<noteq> ''anon'') rows) st)"

section \<open>The gateway's side\<close>

text \<open>\<open>Math.round(usd * 1_000_000)\<close>, of a price that is a fraction.\<close>

definition price_micros :: "rat \<Rightarrow> int" where
  "price_micros usd = max 0 \<lfloor>usd * 1000000 + 1 / 2\<rfloor>"

definition can_send :: "bill_store option \<Rightarrow> string \<Rightarrow> rat \<Rightarrow> bool \<Rightarrow> bool" where
  "can_send store label usd enforce =
     (case store of None \<Rightarrow> True | Some st \<Rightarrow> can_charge_send st label (price_micros usd) enforce)"

definition charge_send :: "int \<Rightarrow> bill_store option \<Rightarrow> string \<Rightarrow> rat \<Rightarrow> bill_store option" where
  "charge_send now store label usd =
     (case store of
        None \<Rightarrow> None
      | Some st \<Rightarrow> if \<not> billed_label label then Some st else Some (charge_keyed_send now label (price_micros usd) st))"

section \<open>Every credit is spent once or still there\<close>

datatype bill_op = Charge int string int | Credit string int string | Backfill int "(string \<times> int) list"

definition bill_step :: "bill_op \<Rightarrow> bill_store \<Rightarrow> bill_store" where
  "bill_step op st =
     (case op of
        Charge now label price \<Rightarrow> charge_keyed_send now label price st
      | Credit label micros hash \<Rightarrow> snd (credit_key label micros hash st)
      | Backfill price rows \<Rightarrow> backfill_billing price rows st)"

definition new_store :: bill_store where
  "new_store = \<lparr>bs_ledger = [], bs_topups = []\<rparr>"

definition bill_run :: "bill_op list \<Rightarrow> bill_store" where
  "bill_run ops = fold bill_step ops new_store"

definition credited :: "bill_store \<Rightarrow> string \<Rightarrow> int" where
  "credited st label = (\<Sum>p \<leftarrow> bs_topups st. if fst (snd p) = label then snd (snd p) else 0)"

definition row_ok :: "int \<Rightarrow> key_row \<Rightarrow> bool" where
  "row_ok credit r \<longleftrightarrow> 0 \<le> kr_prepaid r \<and> 0 \<le> kr_paid r \<and> kr_paid r \<le> kr_billed r \<and> kr_paid r + kr_prepaid r = credit"

definition bill_inv :: "bill_store \<Rightarrow> bool" where
  "bill_inv st \<longleftrightarrow> (\<forall>label. row_ok (credited st label) (key_billing st label))"

lemma rowI: "bill_inv st \<Longrightarrow> row_ok (credited st label) (key_billing st label)"
  by (simp add: bill_inv_def)

lemma credited_ledger [simp]: "credited (st\<lparr>bs_ledger := l\<rparr>) label = credited st label"
  by (simp add: credited_def)

lemma set_row_inv: "bill_inv st \<Longrightarrow> row_ok (credited st label) r \<Longrightarrow> bill_inv (st\<lparr>bs_ledger := jset label r (bs_ledger st)\<rparr>)"
  by (auto simp: bill_inv_def key_billing_def)

lemma charge_inv: "bill_inv st \<Longrightarrow> bill_inv (charge_keyed_send now label price st)"
  using rowI [of st label]
  by (auto simp: charge_keyed_send_def Let_def row_ok_def min_def intro!: set_row_inv)

lemma credit_inv:
  assumes "bill_inv st"
  shows "bill_inv (snd (credit_key label micros hash st))"
proof (cases "billed_label label \<and> 0 < micros \<and> is_hex 64 (lower hash)")
  case False
  then show ?thesis using assms by (auto simp: credit_key_def Let_def)
next
  case True
  let ?st1 = "st\<lparr>bs_ledger := jset label (key_billing st label) (bs_ledger st)\<rparr>"
  have i1: "bill_inv ?st1" by (rule set_row_inv [OF assms rowI [OF assms]])
  have b: "key_billing ?st1 label = key_billing st label" by (simp add: key_billing_def)
  show ?thesis
  proof (cases "jget (bs_topups st) (lower hash)")
    case (Some x)
    then show ?thesis using True i1 by (simp add: credit_key_def Let_def del: map_of_eq_Some_iff)
  next
    case None
    define r where "r = key_billing st label"
    define app where "app = min (kr_prepaid r + micros) (max 0 (kr_billed r - kr_paid r))"
    define st2 where "st2 = ?st1\<lparr>bs_topups := jset (lower hash) (label, micros) (bs_topups st)\<rparr>"
    have cr: "credited st2 l = credited st l + (if l = label then micros else 0)" for l
      using None by (simp add: credited_def st2_def jset_append)
    have ok: "row_ok (credited st label) r" using rowI [OF assms] by (simp add: r_def)
    then have new: "row_ok (credited st2 label) (r\<lparr>kr_paid := kr_paid r + app, kr_prepaid := kr_prepaid r + micros - app\<rparr>)"
      using True by (auto simp: row_ok_def cr app_def min_def max_def)
    have rows: "key_billing st2 l = key_billing st l" for l by (simp add: st2_def key_billing_def)
    have "snd (credit_key label micros hash st) =
        st2\<lparr>bs_ledger := jset label (r\<lparr>kr_paid := kr_paid r + app, kr_prepaid := kr_prepaid r + micros - app\<rparr>) (bs_ledger st2)\<rparr>"
      using True None b by (simp add: credit_key_def Let_def st2_def r_def app_def)
    moreover have "bill_inv \<dots>"
      unfolding bill_inv_def
    proof
      fix l
      show "row_ok (credited (st2\<lparr>bs_ledger := jset label (r\<lparr>kr_paid := kr_paid r + app, kr_prepaid := kr_prepaid r + micros - app\<rparr>) (bs_ledger st2)\<rparr>) l)
          (key_billing (st2\<lparr>bs_ledger := jset label (r\<lparr>kr_paid := kr_paid r + app, kr_prepaid := kr_prepaid r + micros - app\<rparr>) (bs_ledger st2)\<rparr>) l)"
        using new cr rows rowI [OF assms, of l] by (cases "l = label") (simp_all add: key_billing_def)
    qed
    ultimately show ?thesis by simp
  qed
qed

lemma backfill_one_inv:
  assumes "bill_inv st"
  shows "bill_inv (backfill_one price row st)"
proof -
  define cur where "cur = key_billing st (fst row)"
  define st1 where "st1 = st\<lparr>bs_ledger := jset (fst row) cur (bs_ledger st)\<rparr>"
  have i1: "bill_inv st1" unfolding st1_def cur_def by (rule set_row_inv [OF assms rowI [OF assms]])
  have "row_ok (credited st1 (fst row)) (cur\<lparr>kr_sends := s, kr_billed := max (kr_billed cur) b\<rparr>)" for s b
    using rowI [OF assms, of "fst row"] by (auto simp: row_ok_def st1_def cur_def)
  then have i2: "bill_inv (st1\<lparr>bs_ledger := jset (fst row) (cur\<lparr>kr_sends := s, kr_billed := max (kr_billed cur) b\<rparr>) (bs_ledger st1)\<rparr>)" for s b
    by (rule set_row_inv [OF i1])
  show ?thesis unfolding backfill_one_def Let_def cur_def [symmetric] st1_def [symmetric]
    by (simp only: i1 i2 if_True split: if_split) simp
qed

lemma backfill_inv: "bill_inv st \<Longrightarrow> bill_inv (backfill_billing price rows st)"
proof -
  have "bill_inv st \<Longrightarrow> bill_inv (fold (backfill_one price) rs st)" for rs
    by (induction rs arbitrary: st) (auto simp: backfill_one_inv)
  then show "bill_inv st \<Longrightarrow> bill_inv (backfill_billing price rows st)" by (simp add: backfill_billing_def)
qed

lemma bill_run_inv: "bill_inv (bill_run ops)"
proof -
  have "bill_inv st \<Longrightarrow> bill_inv (fold bill_step ops st)" for st
    by (induction ops arbitrary: st) (auto simp: bill_step_def charge_inv credit_inv backfill_inv split: bill_op.splits)
  moreover have "bill_inv new_store"
    by (simp add: bill_inv_def new_store_def credited_def key_billing_def jget_or_def row_ok_def empty_row_def)
  ultimately show ?thesis by (simp add: bill_run_def)
qed

lemma topup_once: "jget (bs_topups st) (lower hash) \<noteq> None \<Longrightarrow> bs_topups (snd (credit_key label micros hash st)) = bs_topups st"
  by (auto simp: credit_key_def Let_def simp del: map_of_eq_Some_iff)


text \<open>
  Under enforcement a key is checked before its transaction is sent and charged after, so two sends
  in flight together are both let through on credit for one.
\<close>

lemma concurrent_sends_overdraw:
  fixes st :: bill_store
  defines "st \<equiv> bill_run [Credit ''k'' 10000 (''0x'' @ replicate 64 CHR ''1'')]"
  shows "can_charge_send st ''k'' 10000 True" "owed_micros (key_billing (charge_keyed_send 2 ''k'' 10000 (charge_keyed_send 1 ''k'' 10000 st)) ''k'') = 10000"
  unfolding st_def by code_simp+

end
