(* ===== verification/Gateway.thy ===== *)
theory Gateway
  imports Billing Protect GetLogs Hedging
begin

text \<open>
  The gateway's core (\<open>apps/gateway/src/main.ts\<close>): how a method reaches an upstream and what becomes of its
  errors, the log hops, the dispatch of the sending methods with their billing, and the edge mode with
  \<open>edge.ts\<close>. The transport, the race of a hedge, the auction and the store's contents are inputs; the
  cache, the cursor and the hedge budget are the state of a process that handles one read at a time
  (their interleavings are in \<open>MicroCache\<close>, \<open>LoadLimits\<close> and \<open>Hedging\<close>).
\<close>

section \<open>Errors\<close>

text \<open>
  A failure as the client sees it. \<open>Worded\<close> is the sentence \<open>reasons.ts\<close> makes of the message and the revert
  data, which is not modelled.
\<close>

datatype rpc_text = Busy | Worded string "json option" | AllRefused string

record rpc_failure =
  rf_code :: int
  rf_text :: rpc_text
  rf_data :: "json option"

definition translate_error :: "upstream_error \<Rightarrow> rpc_failure" where
  "translate_error e =
     (if is_retryable e then \<lparr>rf_code = - 32005, rf_text = Busy, rf_data = None\<rparr>
      else case ue_code e of
             Some (Num n) \<Rightarrow> \<lparr>rf_code = n, rf_text = Worded (ue_message e) (ue_data e), rf_data = ue_data e\<rparr>
           | _ \<Rightarrow> \<lparr>rf_code = - 32000, rf_text = AllRefused (ue_message e), rf_data = None\<rparr>)"

section \<open>Log hops\<close>

definition log_hops :: "rpc_env \<Rightarrow> string list \<Rightarrow> string list" where
  "log_hops env logs_upstreams =
     (let own = filter (\<lambda>u. \<not> str_includes ''publicnode'' (lower u)) (rpc_urls env) in
      own @ filter (\<lambda>u. u \<notin> set own) logs_upstreams)"

definition logs_upstreams :: "string option \<Rightarrow> string list" where
  "logs_upstreams env =
     (let raw = (case env of None \<Rightarrow> ''https://rpc-robinhood.blockmachine.io,https://rpc.mainnet.chain.robinhood.com'' | Some s \<Rightarrow> s) in
      filter (\<lambda>u. u \<noteq> []) (map trim (split_on CHR '','' raw)))"

text \<open>The hops with what each answered: the same walk as the private hops of a send.\<close>

definition fetch_logs :: "rpc_env \<Rightarrow> string list \<Rightarrow> post_fn \<Rightarrow> string list \<times> (upstream_error + json option)" where
  "fetch_logs env extra post =
     (if log_hops env extra = [] then ([], Inl (transport_error ''every logs upstream failed''))
      else send_urls post 0 (log_hops env extra) None)"

section \<open>One call upstream\<close>

record up_state =
  us_access :: access_state
  us_cursor :: cursor_state
  us_hedges :: "hedge_bucket list"

record wire =
  wr_env :: rpc_env
  wr_logs :: "string list"
  wr_host :: "string \<Rightarrow> string option"
  wr_post :: post_fn
  wr_later :: int
  wr_hedge_fires :: bool
  wr_hedge_reply :: http_reply
  wr_hedge_first :: bool

definition race_result :: "bool \<Rightarrow> bool \<Rightarrow> 'e + 'v \<Rightarrow> 'e + 'v \<Rightarrow> 'e + 'v" where
  "race_result fired first primary hedge =
     (if \<not> fired then primary
      else case (primary, hedge) of
             (Inr v, Inr h) \<Rightarrow> if first then Inr h else Inr v
           | (Inr v, Inl _) \<Rightarrow> Inr v
           | (Inl _, Inr h) \<Rightarrow> Inr h
           | (Inl e, Inl _) \<Rightarrow> Inl e)"

definition fetch_upstream :: "int \<Rightarrow> hedge_cfg \<Rightarrow> int \<Rightarrow> wire \<Rightarrow> string \<Rightarrow> up_state \<Rightarrow> (upstream_error + json option) \<times> up_state" where
  "fetch_upstream hedge_after hc now w m st =
     (let (primary, cur) = rpc_fetch (wr_env w) (wr_post w) now (wr_later w) (us_cursor st) in
      if m \<notin> set idempotent_reads \<or> length (rpc_urls (wr_env w)) < 2 \<or> hedge_after \<le> 0 then (primary, st\<lparr>us_cursor := cur\<rparr>)
      else let bs = hedge_read hc now (us_hedges st) in
           if \<not> wr_hedge_fires w then (primary, st\<lparr>us_cursor := cur, us_hedges := bs\<rparr>)
           else let (may, bs') = try_hedge hc (now + hedge_after) bs in
                (race_result may (wr_hedge_first w) primary (read_reply (wr_hedge_reply w)), st\<lparr>us_cursor := cur, us_hedges := bs'\<rparr>))"

definition cache_bound :: nat where "cache_bound = 5000"

definition upstream :: "access_cfg \<Rightarrow> int \<Rightarrow> hedge_cfg \<Rightarrow> int \<Rightarrow> wire \<Rightarrow> string \<Rightarrow> json list \<Rightarrow> up_state \<Rightarrow> (rpc_failure + json option) \<times> up_state" where
  "upstream cfg hedge_after hc now w m params st =
     (let told = (\<lambda>r. case r of Inl e \<Rightarrow> Inl (translate_error e) | Inr v \<Rightarrow> Inr v) in
      if m = ''eth_getLogs'' then (told (snd (fetch_logs (wr_env w) (wr_logs w) (wr_post w))), st)
      else if m = ''eth_sendRawTransaction'' then (told (snd (send_raw_transaction (wr_host w) (wr_env w) (wr_post w))), st)
      else let (hit, acc) = local_answer now cfg m params (us_access st); st1 = st\<lparr>us_access := acc\<rparr> in
           if hit \<noteq> None then (Inr hit, st1)
           else let (r, st2) = fetch_upstream hedge_after hc now w m st1 in
                (told r,
                 case r of
                   Inr v \<Rightarrow> if m \<in> set idempotent_reads
                            then st2\<lparr>us_access := (us_access st2)\<lparr>as_cache := cache_set cache_bound (wr_later w) (cache_key m params) v (cache_ttl m params v) (as_cache (us_access st2))\<rparr>\<rparr>
                            else st2
                 | Inl _ \<Rightarrow> st2))"

text \<open>
  A range refusal that carries the throttle's code is taken for a throttle, so a query that only had to be
  halved is answered with "busy" and never split.
\<close>

lemma limit_refusal_masked:
  "let e = \<lparr>ue_rpc_level = True, ue_code = Some (Num (- 32005)), ue_message = ''query returned more than 10000 results'', ue_data = None\<rparr> in
   is_range_refusal (ue_message e) \<and> translate_error e = \<lparr>rf_code = - 32005, rf_text = Busy, rf_data = None\<rparr>"
  by code_simp

section \<open>The sending methods\<close>

datatype send_error = NoCredit string | Refused refusal

datatype dispatched = SentHash string | SentBundle bundle_result | Simulated "string + string" | ReadPath string

record send_env =
  se_gate :: gateway_env
  se_auction :: "string \<Rightarrow> auction_answer"
  se_price :: rat
  se_enforce :: bool

definition raw_param :: "json list \<Rightarrow> refusal + string" where
  "raw_param ps = (case ps of Str s # _ \<Rightarrow> Inr s | [] \<Rightarrow> Inl BadHex | Null # _ \<Rightarrow> Inl BadHex | _ \<Rightarrow> Inl Throws)"

definition waives :: "string \<Rightarrow> json list \<Rightarrow> bool" where
  "waives m ps =
     (m = ''ordo_sendRawTransaction'' \<and> (case ps of _ # opts # _ \<Rightarrow> truthy (member ''allowUnlimitedApproval'' opts) | _ \<Rightarrow> False))"

definition allow_of :: "json \<Rightarrow> allow_revert" where
  "allow_of b =
     (case member ''allowRevert'' b of
        Some (Bool True) \<Rightarrow> RevertAll
      | Some (Arr xs) \<Rightarrow> RevertSome (concat (map (\<lambda>x. case x of Num n \<Rightarrow> if n \<ge> 0 then [nat n] else [] | _ \<Rightarrow> []) xs))
      | _ \<Rightarrow> RevertNone)"

text \<open>The transactions of a bundle; one that is no string makes the loop throw where it meets it.\<close>

definition bundle_txs :: "json list \<Rightarrow> refusal + string list" where
  "bundle_txs ps =
     (case ps of
        b # _ \<Rightarrow>
          (case member ''txs'' b of
             Some (Arr xs) \<Rightarrow>
               if length xs > 10 then Inl (BadBundle ''max 10 txs per bundle'')
               else of_opt Throws (all_some (map (\<lambda>x. case x of Str s \<Rightarrow> Some s | _ \<Rightarrow> None) xs))
           | _ \<Rightarrow> Inl (BadBundle ''bundle.txs required''))
      | [] \<Rightarrow> Inl (BadBundle ''bundle.txs required''))"

definition send_one :: "send_env \<Rightarrow> bool \<Rightarrow> bool \<Rightarrow> json list \<Rightarrow> dispatch list \<times> (refusal + string)" where
  "send_one env auction waived ps =
     (case raw_param ps of
        Inl r \<Rightarrow> ([], Inl r)
      | Inr raw \<Rightarrow>
          if \<not> auction then protect_and_send (se_gate env) waived raw
          else (let (ds, r) = route_order_flow (se_gate env) (se_auction env) waived raw in
                (ds, case r of Inl e \<Rightarrow> Inl e | Inr (h, _) \<Rightarrow> Inr h)))"

definition charge_times :: "nat \<Rightarrow> int \<Rightarrow> bill_store option \<Rightarrow> string \<Rightarrow> rat \<Rightarrow> bill_store option" where
  "charge_times n now store label usd = ((\<lambda>s. charge_send now s label usd) ^^ n) store"

text \<open>
  The three cases of the switch: a transaction, a bundle, and what sends nothing. A key that cannot pay is
  refused before its parameters are looked at; it is charged once a hash comes back, and not before.
\<close>

definition dispatch_send ::
  "send_env \<Rightarrow> int \<Rightarrow> string \<Rightarrow> json list \<Rightarrow> api_key \<Rightarrow> bill_store option \<Rightarrow> dispatch list \<times> (send_error + dispatched) \<times> bill_store option" where
  "dispatch_send env now m ps key store =
     (if \<not> can_send store (ak_label key) (se_price env) (se_enforce env) then ([], Inl (NoCredit (ak_label key)), store)
      else case send_one env (m = ''ordo_sendPrivateTransaction'' \<or> ak_mode key = AuctionMode) (waives m ps) ps of
             (ds, Inl r) \<Rightarrow> (ds, Inl (Refused r), store)
           | (ds, Inr h) \<Rightarrow> (ds, Inr (SentHash h), charge_times 1 now store (ak_label key) (se_price env)))"

definition dispatch_bundle ::
  "send_env \<Rightarrow> int \<Rightarrow> json list \<Rightarrow> api_key \<Rightarrow> bill_store option \<Rightarrow> dispatch list \<times> (send_error + dispatched) \<times> bill_store option" where
  "dispatch_bundle env now ps key store =
     (if \<not> can_send store (ak_label key) (se_price env) (se_enforce env) then ([], Inl (NoCredit (ak_label key)), store)
      else case bundle_txs ps of
             Inl r \<Rightarrow> ([], Inl (Refused r), store)
           | Inr raws \<Rightarrow>
               (case send_bundle (se_gate env) (allow_of (hd ps)) raws of
                  (ds, Inl r) \<Rightarrow> (ds, Inl (Refused r), store)
                | (ds, Inr b) \<Rightarrow> (ds, Inr (SentBundle b), charge_times (length (br_hashes b)) now store (ak_label key) (se_price env))))"

definition dispatch_read :: "send_env \<Rightarrow> string \<Rightarrow> json list \<Rightarrow> send_error + dispatched" where
  "dispatch_read env m ps =
     (if m \<noteq> ''ordo_simulate'' then Inr (ReadPath m)
      else case raw_param ps of
             Inl r \<Rightarrow> Inl (Refused r)
           | Inr raw \<Rightarrow> (case parse_raw (se_gate env) raw of Inl r \<Rightarrow> Inl (Refused r) | Inr p \<Rightarrow> Inr (Simulated (simulate_raw (se_gate env) p))))"

definition dispatch_method ::
  "send_env \<Rightarrow> int \<Rightarrow> string \<Rightarrow> json list \<Rightarrow> api_key \<Rightarrow> bill_store option \<Rightarrow> dispatch list \<times> (send_error + dispatched) \<times> bill_store option" where
  "dispatch_method env now m ps key store =
     (if m \<in> {''eth_sendRawTransaction'', ''ordo_sendRawTransaction'', ''ordo_sendPrivateTransaction''} then dispatch_send env now m ps key store
      else if m = ''ordo_sendBundle'' then dispatch_bundle env now ps key store
      else ([], dispatch_read env m ps, store))"

text \<open>What an anonymous caller is dispatched as.\<close>

definition anon_as_key :: "bool \<Rightarrow> api_key" where
  "anon_as_key anon_auction =
     \<lparr>ak_key = ''anon'', ak_label = ''anon'', ak_rate = 0, ak_rebate = None, ak_mode = (if anon_auction then AuctionMode else DirectMode)\<rparr>"

section \<open>What dispatching does\<close>

lemma send_one_checked:
  assumes "fst (send_one env auction waived ps) \<noteq> []"
  shows "\<exists>raw. raw_param ps = Inr raw \<and> checked (se_gate env) waived raw \<and>
     set (fst (send_one env auction waived ps)) \<subseteq> {ToSequencer raw} \<union> (if auction then {ToAuction raw} else {})"
proof -
  from assms obtain raw where raw: "raw_param ps = Inr raw" by (auto simp: send_one_def split: sum.splits)
  have "checked (se_gate env) waived raw" if "\<exists>u. assert_safe (se_gate env) waived raw = Inr u"
    using that assert_safe_checked by blast
  then show ?thesis
    using assms raw by (auto simp: send_one_def protect_and_send_def route_order_flow_def split: sum.splits option.splits auction_answer.splits)
qed

lemma send_bundle_hashes: "send_bundle env allow raws = (ds, Inr b) \<Longrightarrow> ds = map ToSequencer raws \<and> length (br_hashes b) = length raws"
proof -
  have "all_sent rs = Inr hs \<Longrightarrow> length hs = length rs" for rs hs
    by (induction rs arbitrary: hs rule: all_sent.induct) (auto simp: sbind_Inr)
  then show "send_bundle env allow raws = (ds, Inr b) \<Longrightarrow> ds = map ToSequencer raws \<and> length (br_hashes b) = length raws"
    by (auto simp: send_bundle_def split: sum.splits if_splits)
qed

definition hashes_given :: "send_error + dispatched \<Rightarrow> nat" where
  "hashes_given r = (case r of Inr (SentHash _) \<Rightarrow> 1 | Inr (SentBundle b) \<Rightarrow> length (br_hashes b) | _ \<Rightarrow> 0)"

lemma hashes_given_simps [simp]:
  "hashes_given (Inl e) = 0" "hashes_given (Inr (SentHash h)) = 1" "hashes_given (Inr (SentBundle b)) = length (br_hashes b)"
  "hashes_given (Inr (Simulated s)) = 0" "hashes_given (Inr (ReadPath m)) = 0"
  by (simp_all add: hashes_given_def)

lemma charge_times_0 [simp]: "charge_times 0 now store label usd = store"
  by (simp add: charge_times_def)

lemma dispatch_send_facts:
  assumes "dispatch_send env now m ps key store = (ds, r, store')"
  shows "ds \<noteq> [] \<Longrightarrow> can_send store (ak_label key) (se_price env) (se_enforce env)"
    and "ds \<noteq> [] \<Longrightarrow> \<exists>raw. raw_param ps = Inr raw \<and> set ds \<subseteq> {ToSequencer raw, ToAuction raw} \<and> checked (se_gate env) (waives m ps) raw"
    and "ToAuction raw \<in> set ds \<Longrightarrow> ak_mode key = AuctionMode \<or> m = ''ordo_sendPrivateTransaction''"
    and "store' = charge_times (hashes_given r) now store (ak_label key) (se_price env)"
    and "r \<noteq> Inr (SentBundle b)"
proof -
  let ?auction = "m = ''ordo_sendPrivateTransaction'' \<or> ak_mode key = AuctionMode"
  obtain ds1 r1 where s: "send_one env ?auction (waives m ps) ps = (ds1, r1)" by fastforce
  have ch: "ds1 \<noteq> [] \<Longrightarrow> \<exists>raw. raw_param ps = Inr raw \<and> checked (se_gate env) (waives m ps) raw \<and>
      set ds1 \<subseteq> {ToSequencer raw} \<union> (if ?auction then {ToAuction raw} else {})"
    by (rule send_one_checked [of env ?auction "waives m ps" ps, unfolded s fst_conv])
  have d: "ds \<noteq> [] \<Longrightarrow> can_send store (ak_label key) (se_price env) (se_enforce env)"
    "ds = [] \<or> ds = ds1"
    "store' = charge_times (hashes_given r) now store (ak_label key) (se_price env)"
    "r \<noteq> Inr (SentBundle b)"
    using assms by (auto simp: dispatch_send_def s split: if_splits sum.splits)
  show "ds \<noteq> [] \<Longrightarrow> can_send store (ak_label key) (se_price env) (se_enforce env)"
    "store' = charge_times (hashes_given r) now store (ak_label key) (se_price env)" "r \<noteq> Inr (SentBundle b)" by fact+
  show "ds \<noteq> [] \<Longrightarrow> \<exists>raw. raw_param ps = Inr raw \<and> set ds \<subseteq> {ToSequencer raw, ToAuction raw} \<and> checked (se_gate env) (waives m ps) raw"
    using ch d(2) by (auto split: if_splits)
  show "ak_mode key = AuctionMode \<or> m = ''ordo_sendPrivateTransaction''" if "ToAuction raw \<in> set ds"
  proof (rule ccontr)
    assume "\<not> (ak_mode key = AuctionMode \<or> m = ''ordo_sendPrivateTransaction'')"
    with ch have "ds1 \<noteq> [] \<Longrightarrow> \<exists>r. set ds1 \<subseteq> {ToSequencer r}" by auto
    moreover have "ToAuction raw \<in> set ds1" using that d(2) by auto
    moreover from this have "ds1 \<noteq> []" by auto
    ultimately show False by blast
  qed
qed

lemma dispatch_bundle_facts:
  assumes "dispatch_bundle env now ps key store = (ds, r, store')"
  shows "ds \<noteq> [] \<Longrightarrow> can_send store (ak_label key) (se_price env) (se_enforce env)"
    and "ToAuction raw \<notin> set ds"
    and "store' = charge_times (hashes_given r) now store (ak_label key) (se_price env)"
    and "r = Inr (SentBundle b) \<Longrightarrow> length (br_hashes b) = length ds"
proof -
  have seq: "send_bundle (se_gate env) allow raws = (ds1, r1) \<Longrightarrow> ToAuction raw \<notin> set ds1" for allow raws ds1 r1
    by (auto simp: send_bundle_def split: if_splits sum.splits)
  show "ds \<noteq> [] \<Longrightarrow> can_send store (ak_label key) (se_price env) (se_enforce env)"
    using assms by (auto simp: dispatch_bundle_def split: if_splits)
  show "ToAuction raw \<notin> set ds"
    using assms by (auto simp: dispatch_bundle_def split: if_splits sum.splits prod.splits dest: seq)
  show "store' = charge_times (hashes_given r) now store (ak_label key) (se_price env)"
    using assms by (auto simp: dispatch_bundle_def split: if_splits sum.splits prod.splits)
  show "r = Inr (SentBundle b) \<Longrightarrow> length (br_hashes b) = length ds"
    using assms by (auto simp: dispatch_bundle_def split: if_splits sum.splits prod.splits dest: send_bundle_hashes)
qed

lemma hashes_given_read [simp]: "hashes_given (dispatch_read env m ps) = 0"
  by (simp add: dispatch_read_def split: sum.splits)

lemma dispatch_read_no_bundle [simp]: "dispatch_read env m ps \<noteq> Inr (SentBundle b)"
  by (simp add: dispatch_read_def split: sum.splits)


text \<open>The gateway of the proof of delivery, a key in direct mode and no store: one transaction is sent and nothing charged.\<close>

definition demo_send_env :: send_env where
  "demo_send_env = \<lparr>se_gate = demo_gateway, se_auction = (\<lambda>_. AuctionDown ''timeout''), se_price = 1 / 100, se_enforce = True\<rparr>"

lemma demo_dispatch:
  "dispatch_method demo_send_env 0 ''eth_sendRawTransaction'' [Str ''0x02aa''] (anon_as_key True) None =
     ([ToAuction ''0x02aa'', ToSequencer ''0x02aa''], Inr (SentHash ''sent 0x02aa''), None)"
  by (simp add: dispatch_method_def dispatch_send_def demo_send_env_def can_send_def anon_as_key_def send_one_def raw_param_def waives_def
      demo_gateway_routes charge_times_def charge_send_def)


end
