(* ===== verification/Liquidity.thy ===== *)
theory Liquidity
  imports Prelude Complex_Main
begin

text \<open>
  The arithmetic of a concentrated-liquidity position (\<open>packages/core/src/liquidity.ts\<close>): the price of a
  tick at Q64.96, what a quantity of liquidity holds, and the most liquidity two amounts fund. Everything
  is \<open>bigint\<close>, so \<^typ>\<open>int\<close>; a division by zero and a tick out of range throw, which is \<^const>\<open>None\<close>.
\<close>

section \<open>Ticks\<close>

definition q96 :: int where "q96 = 2 ^ 96"
definition min_tick :: int where "min_tick = - 887272"
definition max_tick :: int where "max_tick = 887272"

text \<open>The factor of each bit of a tick, \<open>sqrt(1.0001) ^ - 2 ^ k\<close> at Q128, from the second bit on.\<close>

definition tick_factors :: "(nat \<times> int) list" where
  "tick_factors =
     [(1, 0xfff97272373d413259a46990580e213a), (2, 0xfff2e50f5f656932ef12357cf3c7fdcc), (3, 0xffe5caca7e10e4e61c3624eaa0941cd0),
      (4, 0xffcb9843d60f6159c9db58835c926644), (5, 0xff973b41fa98c081472e6896dfb254c0), (6, 0xff2ea16466c96a3843ec78b326b52861),
      (7, 0xfe5dee046a99a2a811c461f1969c3053), (8, 0xfcbe86c7900a88aedcffc83b479aa3a4), (9, 0xf987a7253ac413176f2b074cf7815e54),
      (10, 0xf3392b0822b70005940c7a398e4b70f3), (11, 0xe7159475a2c29b7443b29c7fa6e889d9), (12, 0xd097f3bdfd2022b8845ad8f792aa5825),
      (13, 0xa9f746462d870fdf8a65dc1f90e061e5), (14, 0x70d869a156d2a1b890bb3df62baf32f7), (15, 0x31be135f97d08fd981231505542fcfa6),
      (16, 0x9aa508b5b7a84e1c677de54f3e99bc9), (17, 0x5d6af8dedb81196699c329225ee604), (18, 0x2216e584f5fa1ea926041bedfe98),
      (19, 0x48a170391f7dc42444e8fa2)]"

definition tick_bit :: "int \<Rightarrow> nat \<Rightarrow> bool" where
  "tick_bit a k = odd (a div 2 ^ k)"

definition mul_q128 :: "int \<Rightarrow> int \<Rightarrow> int" where
  "mul_q128 r m = (r * m) div 2 ^ 128"

definition tick_ratio :: "int \<Rightarrow> int" where
  "tick_ratio a =
     fold (\<lambda>(k, m) r. if tick_bit a k then mul_q128 r m else r) tick_factors
       (if tick_bit a 0 then 0xfffcb933bd6fad37aa2d162d1a594001 else 0x100000000000000000000000000000000)"

definition tick_to_sqrt :: "int \<Rightarrow> int option" where
  "tick_to_sqrt tick =
     (if tick < min_tick \<or> tick > max_tick then None
      else let r = tick_ratio \<bar>tick\<bar>; r = (if tick > 0 then (2 ^ 256 - 1) div r else r) in
           Some (r div 2 ^ 32 + (if r mod 2 ^ 32 = 0 then 0 else 1)))"

text \<open>A tick of the spacing's grid: \<open>down\<close>, \<open>up\<close> or the nearest, then clamped, to a tick that may be off the grid.\<close>

datatype align_dir = DirDown | DirUp | DirNearest

definition js_round :: "rat \<Rightarrow> int" where
  "js_round x = \<lfloor>x + 1 / 2\<rfloor>"

definition align_tick :: "int \<Rightarrow> int \<Rightarrow> align_dir \<Rightarrow> int" where
  "align_tick tick spacing dir =
     (let q = of_int tick / of_int spacing :: rat;
          n = (case dir of DirDown \<Rightarrow> \<lfloor>q\<rfloor> | DirUp \<Rightarrow> \<lceil>q\<rceil> | DirNearest \<Rightarrow> js_round q) in
      max min_tick (min max_tick (n * spacing)))"

section \<open>Amounts\<close>

definition mul_div :: "int \<Rightarrow> int \<Rightarrow> int \<Rightarrow> int option" where
  "mul_div a b d = (if d = 0 then None else Some (tdiv (a * b) d))"

definition amount0_for :: "int \<Rightarrow> int \<Rightarrow> int \<Rightarrow> int option" where
  "amount0_for a b l =
     (let num = l * 2 ^ 96 * (b - a); den = b * a in
      if den = 0 then None else Some (tdiv (num + den - 1) den))"

definition amount1_for :: "int \<Rightarrow> int \<Rightarrow> int \<Rightarrow> int" where
  "amount1_for a b l = (let num = l * (b - a) in tdiv (num + q96 - 1) q96)"

definition amounts_for_liquidity :: "int \<Rightarrow> int \<Rightarrow> int \<Rightarrow> int \<Rightarrow> (int \<times> int) option" where
  "amounts_for_liquidity p a0 b0 l =
     (let (a, b) = (if a0 > b0 then (b0, a0) else (a0, b0)) in
      if l = 0 then Some (0, 0)
      else if p \<le> a then map_option (\<lambda>x. (x, 0)) (amount0_for a b l)
      else if p \<ge> b then Some (0, amount1_for a b l)
      else map_option (\<lambda>x. (x, amount1_for a p l)) (amount0_for p b l))"

definition liquidity_for0 :: "int \<Rightarrow> int \<Rightarrow> int \<Rightarrow> int option" where
  "liquidity_for0 a b amount = Option.bind (mul_div a b q96) (\<lambda>i. mul_div amount i (b - a))"

definition liquidity_for1 :: "int \<Rightarrow> int \<Rightarrow> int \<Rightarrow> int option" where
  "liquidity_for1 a b amount = mul_div amount q96 (b - a)"

definition liquidity_for_amounts :: "int \<Rightarrow> int \<Rightarrow> int \<Rightarrow> int \<Rightarrow> int \<Rightarrow> int option" where
  "liquidity_for_amounts p a0 b0 amount0 amount1 =
     (let (a, b) = (if a0 > b0 then (b0, a0) else (a0, b0)) in
      if p \<le> a then liquidity_for0 a b amount0
      else if p \<ge> b then liquidity_for1 a b amount1
      else Option.bind (liquidity_for0 p b amount0) (\<lambda>l0.
           Option.bind (liquidity_for1 a p amount1) (\<lambda>l1. Some (if l0 < l1 then l0 else l1))))"

section \<open>The price of a tick is positive\<close>

definition all_bits :: "(nat \<times> int) list \<Rightarrow> int \<Rightarrow> int" where
  "all_bits ms r = fold (\<lambda>(k, m) r. mul_q128 r m) ms r"

lemma mul_q128_mono: "l \<le> r \<Longrightarrow> 0 \<le> m \<Longrightarrow> mul_q128 l m \<le> mul_q128 r m"
  by (simp add: mul_q128_def zdiv_mono1 mult_right_mono)

lemma mul_q128_le: "0 \<le> r \<Longrightarrow> m \<le> 2 ^ 128 \<Longrightarrow> mul_q128 r m \<le> r"
proof -
  assume "0 \<le> r" "m \<le> 2 ^ 128"
  then have "r * m \<le> r * 2 ^ 128" by (rule mult_left_mono [rotated])
  then have "(r * m) div 2 ^ 128 \<le> (r * 2 ^ 128) div 2 ^ 128" by (rule zdiv_mono1) simp
  then show ?thesis by (simp add: mul_q128_def)
qed

lemma mul_q128_nonneg: "0 \<le> r \<Longrightarrow> 0 \<le> m \<Longrightarrow> 0 \<le> mul_q128 r m"
  by (simp add: mul_q128_def pos_imp_zdiv_nonneg_iff)

lemma all_bits_le:
  assumes "\<forall>(k, m) \<in> set ms. 0 \<le> m \<and> m \<le> 2 ^ 128" "0 \<le> l" "l \<le> r"
  shows "all_bits ms l \<le> fold (\<lambda>(k, m) r. if tick_bit a k then mul_q128 r m else r) ms r"
  using assms
proof (induction ms arbitrary: l r)
  case (Cons km ms)
  obtain k m where km: "km = (k, m)" by fastforce
  have m: "0 \<le> m" "m \<le> 2 ^ 128" using Cons.prems(1) km by auto
  have "mul_q128 l m \<le> (if tick_bit a k then mul_q128 r m else r)"
    using mul_q128_mono [OF Cons.prems(3) m(1)] mul_q128_le [OF Cons.prems(2) m(2)] Cons.prems(3) by auto
  then have "all_bits ms (mul_q128 l m) \<le> fold (\<lambda>(k, m) r. if tick_bit a k then mul_q128 r m else r) ms (if tick_bit a k then mul_q128 r m else r)"
    using Cons.prems(1) mul_q128_nonneg [OF Cons.prems(2) m(1)] by (intro Cons.IH) auto
  then show ?case by (simp add: all_bits_def km)
qed (simp add: all_bits_def)

lemma bits_fold_le:
  assumes "\<forall>(k, m) \<in> set ms. 0 \<le> m \<and> m \<le> 2 ^ 128" "0 \<le> r"
  shows "fold (\<lambda>(k, m) r. if tick_bit a k then mul_q128 r m else r) ms r \<le> r"
  using assms
proof (induction ms arbitrary: r)
  case (Cons km ms)
  obtain k m where km: "km = (k, m)" by fastforce
  have m: "0 \<le> m" "m \<le> 2 ^ 128" using Cons.prems(1) km by auto
  let ?r = "if tick_bit a k then mul_q128 r m else r"
  have r: "0 \<le> ?r" "?r \<le> r"
    using mul_q128_nonneg [OF Cons.prems(2) m(1)] mul_q128_le [OF Cons.prems(2) m(2)] Cons.prems(2) by auto
  have "fold (\<lambda>(k, m) r. if tick_bit a k then mul_q128 r m else r) ms ?r \<le> ?r"
    using Cons.prems(1) r(1) by (intro Cons.IH) auto
  then show ?case using r(2) by (simp only: km fold.simps prod.case o_apply)
qed simp

lemma tick_factors_ok: "\<forall>(k, m) \<in> set tick_factors. 0 \<le> m \<and> m \<le> 2 ^ 128"
  by (simp add: tick_factors_def)

lemma tick_ratio_bounds: "0 < tick_ratio a \<and> tick_ratio a \<le> 2 ^ 128"
proof -
  let ?r = "if tick_bit a 0 then 0xfffcb933bd6fad37aa2d162d1a594001 else 0x100000000000000000000000000000000 :: int"
  have start: "0xfffcb933bd6fad37aa2d162d1a594001 \<le> ?r" "0 \<le> ?r" "?r \<le> 2 ^ 128" by simp_all
  have "0 < all_bits tick_factors 0xfffcb933bd6fad37aa2d162d1a594001" by code_simp
  also have "\<dots> \<le> tick_ratio a" unfolding tick_ratio_def by (rule all_bits_le [OF tick_factors_ok _ start(1)]) simp
  finally have low: "0 < tick_ratio a" .
  have "tick_ratio a \<le> ?r" unfolding tick_ratio_def by (rule bits_fold_le [OF tick_factors_ok start(2)])
  with start(3) low show ?thesis by (blast intro: order_trans)
qed

lemma tick_to_sqrt_pos:
  assumes "tick_to_sqrt t = Some s"
  shows "0 < s"
proof -
  define r where "r = (if t > 0 then (2 ^ 256 - 1) div tick_ratio \<bar>t\<bar> else tick_ratio \<bar>t\<bar>)"
  have s: "s = r div 2 ^ 32 + (if r mod 2 ^ 32 = 0 then 0 else 1)"
    using assms unfolding tick_to_sqrt_def Let_def r_def by (simp only: option.inject option.distinct simp_thms split: if_split_asm)
  have "tick_ratio \<bar>t\<bar> \<le> 2 ^ 256 - 1" using tick_ratio_bounds [of "\<bar>t\<bar>"] by simp
  then have "0 < (2 ^ 256 - 1) div tick_ratio \<bar>t\<bar>"
    using pos_imp_zdiv_pos_iff [of "tick_ratio \<bar>t\<bar>" "2 ^ 256 - 1"] tick_ratio_bounds [of "\<bar>t\<bar>"] by blast
  then have r: "0 < r" using tick_ratio_bounds [of "\<bar>t\<bar>"] unfolding r_def by presburger
  have "r div 2 ^ 32 \<noteq> 0 \<or> r mod 2 ^ 32 \<noteq> 0"
  proof (rule ccontr)
    assume "\<not> ?thesis"
    then have "r = 0" using mult_div_mod_eq [of "2 ^ 32" r] by simp
    with r show False by simp
  qed
  moreover have "0 \<le> r div 2 ^ 32" "0 \<le> r mod 2 ^ 32" using r by (simp_all add: pos_imp_zdiv_nonneg_iff)
  ultimately show ?thesis unfolding s by (simp only: split: if_split) linarith
qed

lemma tick_to_sqrt_Some: "min_tick \<le> t \<Longrightarrow> t \<le> max_tick \<Longrightarrow> \<exists>s. tick_to_sqrt t = Some s"
  by (simp add: tick_to_sqrt_def Let_def)


section \<open>What liquidity holds\<close>

text \<open>
  The amounts, before rounding, are proportional to the liquidity: with a price below the range it is all
  token 0, above it all token 1, inside it some of both.
\<close>

definition lo_sqrt :: "int \<Rightarrow> int \<Rightarrow> int" where "lo_sqrt a b = min a b"
definition hi_sqrt :: "int \<Rightarrow> int \<Rightarrow> int" where "hi_sqrt a b = max a b"

definition per0 :: "int \<Rightarrow> int \<Rightarrow> rat" where
  "per0 a b = of_int (2 ^ 96 * (b - a)) / of_int (b * a)"

definition per1 :: "int \<Rightarrow> int \<Rightarrow> rat" where
  "per1 a b = of_int (b - a) / of_int q96"

definition unit0 :: "int \<Rightarrow> int \<Rightarrow> int \<Rightarrow> rat" where
  "unit0 p a b = (let a' = min a b; b' = max a b in if p \<ge> b' \<and> \<not> p \<le> a' then 0 else per0 (max p a') b')"

definition unit1 :: "int \<Rightarrow> int \<Rightarrow> int \<Rightarrow> rat" where
  "unit1 p a b = (let a' = min a b; b' = max a b in if p \<le> a' then 0 else per1 a' (min p b'))"

lemma ceil_div: "0 \<le> n \<Longrightarrow> 0 < d \<Longrightarrow> tdiv (n + d - 1) d = \<lceil>of_int n / of_int d :: rat\<rceil>"
proof -
  assume "0 \<le> n" "0 < d"
  define q where "q = (n + d - 1) div d"
  have e: "n + d - 1 = d * q + (n + d - 1) mod d" by (simp add: q_def)
  have "0 \<le> (n + d - 1) mod d" "(n + d - 1) mod d < d" using \<open>0 < d\<close> by simp_all
  with e have "n \<le> d * q" and "d * (q - 1) < n" by (simp_all add: right_diff_distrib)
  then have "(of_int n :: rat) \<le> of_int d * of_int q" "of_int d * (of_int q - 1) < (of_int n :: rat)"
    by (metis of_int_le_iff of_int_mult) (metis of_int_1 of_int_diff of_int_less_iff of_int_mult \<open>d * (q - 1) < n\<close>)
  with \<open>0 < d\<close> have "\<lceil>of_int n / of_int d :: rat\<rceil> = q"
    by (intro ceiling_unique) (simp_all add: pos_less_divide_eq pos_divide_le_eq mult.commute)
  then show ?thesis using \<open>0 \<le> n\<close> \<open>0 < d\<close> by (simp add: tdiv_nonneg q_def)
qed

lemma amount0_for_ceil:
  assumes "0 < a" "a \<le> b" "0 \<le> l"
  shows "amount0_for a b l = Some \<lceil>of_int l * per0 a b\<rceil>"
proof -
  have d: "0 < b * a" using assms by simp
  have n: "0 \<le> l * 2 ^ 96 * (b - a)" using assms by simp
  have "of_int (l * 2 ^ 96 * (b - a)) / of_int (b * a) = (of_int l * per0 a b :: rat)"
    by (simp add: per0_def)
  with ceil_div [OF n d] d assms show ?thesis unfolding amount0_for_def Let_def by auto
qed

lemma amount1_for_ceil:
  assumes "a \<le> b" "0 \<le> l"
  shows "amount1_for a b l = \<lceil>of_int l * per1 a b\<rceil>"
proof -
  have n: "0 \<le> l * (b - a)" and d: "0 < q96" using assms by (simp_all add: q96_def)
  have "of_int (l * (b - a)) / of_int q96 = (of_int l * per1 a b :: rat)" by (simp add: per1_def)
  with ceil_div [OF n d] show ?thesis by (simp add: amount1_for_def Let_def)
qed

lemma amounts_ceil:
  assumes "0 < p" "0 < a" "0 < b" "0 \<le> l"
  shows "amounts_for_liquidity p a b l = Some (\<lceil>of_int l * unit0 p a b\<rceil>, \<lceil>of_int l * unit1 p a b\<rceil>)"
proof -
  define a' b' where ab': "a' = min a b" "b' = max a b"
  have swap: "(if a > b then (b, a) else (a, b)) = (a', b')" by (auto simp: ab')
  have ab: "0 < a'" "a' \<le> b'" using assms by (auto simp: ab')
  have u: "unit0 p a b = (if p \<ge> b' \<and> \<not> p \<le> a' then 0 else per0 (max p a') b')"
    "unit1 p a b = (if p \<le> a' then 0 else per1 a' (min p b'))"
    unfolding unit0_def unit1_def Let_def ab' by (rule refl)+
  consider "l = 0" | "l \<noteq> 0" "p \<le> a'" | "l \<noteq> 0" "\<not> p \<le> a'" "p \<ge> b'" | "l \<noteq> 0" "\<not> p \<le> a'" "\<not> p \<ge> b'" by blast
  then show ?thesis
  proof cases
    case 1
    then show ?thesis unfolding amounts_for_liquidity_def swap by simp
  next
    case 2
    then have m: "max p a' = a'" by simp
    from 2 show ?thesis unfolding amounts_for_liquidity_def swap u m by (simp add: amount0_for_ceil [OF ab assms(4)])
  next
    case 3
    then have m: "min p b' = b'" by simp
    from 3 show ?thesis unfolding amounts_for_liquidity_def swap u m by (simp add: amount1_for_ceil [OF ab(2) assms(4)])
  next
    case 4
    then have m: "max p a' = p" "min p b' = p" and o: "p \<le> b'" "a' \<le> p" by simp_all
    from 4 show ?thesis unfolding amounts_for_liquidity_def swap u m
      by (simp add: amount0_for_ceil [OF assms(1) o(1) assms(4)] amount1_for_ceil [OF o(2) assms(4)])
  qed
qed

lemma unit_nonneg:
  assumes "0 < p" "0 < a" "0 < b"
  shows "0 \<le> unit0 p a b" "0 \<le> unit1 p a b"
proof -
  have 0: "0 \<le> per0 x y" if "0 < x" "x \<le> y" for x y
    using that unfolding per0_def by (intro divide_nonneg_pos) (simp_all del: of_int_mult)
  have 1: "0 \<le> per1 x y" if "x \<le> y" for x y
    using that by (simp add: per1_def q96_def)
  show "0 \<le> unit0 p a b" using assms by (auto simp: unit0_def Let_def intro!: 0)
  show "0 \<le> unit1 p a b" using assms by (auto simp: unit1_def Let_def intro!: 1)
qed

text \<open>Liquidity computed from two amounts never costs more than they are.\<close>

lemma liquidity_for0_le:
  assumes "0 < a" "a < b" "0 \<le> x" "liquidity_for0 a b x = Some l"
  shows "0 \<le> l" "\<lceil>of_int l * per0 a b\<rceil> \<le> x"
proof -
  define i where "i = a * b div q96"
  have i: "0 \<le> i" "i * q96 \<le> a * b"
  proof -
    show "0 \<le> i" using assms by (simp add: i_def q96_def pos_imp_zdiv_nonneg_iff)
    have "tdiv (a * b) q96 * q96 \<le> a * b" using assms by (intro tdiv_le) (simp_all add: q96_def)
    then show "i * q96 \<le> a * b" using assms by (simp add: i_def tdiv_nonneg q96_def)
  qed
  have l: "l = tdiv (x * i) (b - a)"
    using assms by (simp add: liquidity_for0_def mul_div_def i_def q96_def tdiv_nonneg split: if_splits)
  show nn: "0 \<le> l" using assms i(1) by (simp add: l tdiv_nonneg_ge0)
  have "l * (b - a) \<le> x * i" using assms i(1) by (simp add: l tdiv_le)
  then have "l * (b - a) * q96 \<le> x * i * q96" by (rule mult_right_mono) (simp add: q96_def)
  also have "\<dots> \<le> x * (a * b)" using mult_left_mono [OF i(2) assms(3)] by (simp add: mult.assoc)
  finally have "l * (q96 * (b - a)) \<le> x * (b * a)" by (simp add: ac_simps)
  then have "(of_int (l * (q96 * (b - a))) :: rat) \<le> of_int (x * (b * a))" by (rule of_int_le_iff [THEN iffD2])
  then have "of_int l * per0 a b \<le> (of_int x :: rat)"
    using assms(1,2) by (simp add: per0_def q96_def pos_divide_le_eq del: power_numeral)
  then show "\<lceil>of_int l * per0 a b\<rceil> \<le> x" by (simp add: ceiling_le_iff)
qed

lemma liquidity_for1_le:
  assumes "a < b" "0 \<le> x" "liquidity_for1 a b x = Some l"
  shows "0 \<le> l" "\<lceil>of_int l * per1 a b\<rceil> \<le> x"
proof -
  have l: "l = tdiv (x * q96) (b - a)" using assms by (simp add: liquidity_for1_def mul_div_def split: if_splits)
  show "0 \<le> l" using assms by (simp add: l tdiv_nonneg_ge0 q96_def)
  have "l * (b - a) \<le> x * q96" using assms by (simp add: l tdiv_le q96_def)
  then have "(of_int (l * (b - a)) :: rat) \<le> of_int (x * q96)" by (rule of_int_le_iff [THEN iffD2])
  then have "of_int l * per1 a b \<le> (of_int x :: rat)" by (simp add: per1_def q96_def pos_divide_le_eq)
  then show "\<lceil>of_int l * per1 a b\<rceil> \<le> x" by (simp add: ceiling_le_iff)
qed

lemma ceil_mono_left: "l \<le> l' \<Longrightarrow> 0 \<le> u \<Longrightarrow> \<lceil>of_int l' * (u :: rat)\<rceil> \<le> x \<Longrightarrow> \<lceil>of_int l * u\<rceil> \<le> x"
  using mult_right_mono [of "of_int l" "of_int l'" u] by (meson ceiling_mono of_int_le_iff order_trans)

text \<open>
  Liquidity funded by two amounts is liquidity the amounts can pay for: turned back into amounts, with
  the rounding up the pool applies, it never asks for more of either token than was put in, whichever way
  round the range is given and wherever the price stands.
\<close>

theorem funded_liquidity_affordable:
  assumes "0 < p" "0 < a" "0 < b" "a \<noteq> b" "0 \<le> x" "0 \<le> y"
  shows "\<exists>l u v. liquidity_for_amounts p a b x y = Some l \<and> amounts_for_liquidity p a b l = Some (u, v) \<and> 0 \<le> l \<and> u \<le> x \<and> v \<le> y"
proof -
  define a' b' where ab': "a' = min a b" "b' = max a b"
  have swap: "(if a > b then (b, a) else (a, b)) = (a', b')" by (auto simp: ab')
  have ab: "0 < a'" "a' < b'" using assms by (auto simp: ab')
  have u: "unit0 p a b = (if p \<ge> b' \<and> \<not> p \<le> a' then 0 else per0 (max p a') b')"
    "unit1 p a b = (if p \<le> a' then 0 else per1 a' (min p b'))"
    unfolding unit0_def unit1_def Let_def ab' by (rule refl)+
  have some0: "\<exists>l. liquidity_for0 c d z = Some l" if "c < d" for c d z
    using that by (simp add: liquidity_for0_def mul_div_def q96_def)
  have some1: "\<exists>l. liquidity_for1 c d z = Some l" if "c < d" for c d z
    using that by (simp add: liquidity_for1_def mul_div_def)
  obtain l where l: "liquidity_for_amounts p a b x y = Some l" "0 \<le> l" "\<lceil>of_int l * unit0 p a b\<rceil> \<le> x" "\<lceil>of_int l * unit1 p a b\<rceil> \<le> y"
  proof -
    consider "p \<le> a'" | "\<not> p \<le> a'" "p \<ge> b'" | "\<not> p \<le> a'" "\<not> p \<ge> b'" by blast
    then show ?thesis
    proof cases
      case 1
      obtain l where l: "liquidity_for0 a' b' x = Some l" using some0 [OF ab(2)] by blast
      have m: "max p a' = a'" using 1 by simp
      show ?thesis using that [of l] liquidity_for0_le [OF ab assms(5) l] 1 assms(6) l
        unfolding liquidity_for_amounts_def swap u m by simp
    next
      case 2
      obtain l where l: "liquidity_for1 a' b' y = Some l" using some1 [OF ab(2)] by blast
      have m: "min p b' = b'" using 2 by simp
      show ?thesis using that [of l] liquidity_for1_le [OF ab(2) assms(6) l] 2 assms(5) l
        unfolding liquidity_for_amounts_def swap u m by simp
    next
      case 3
      then have o: "p < b'" "a' < p" and m: "max p a' = p" "min p b' = p" by simp_all
      obtain l0 l1 where l: "liquidity_for0 p b' x = Some l0" "liquidity_for1 a' p y = Some l1"
        using some0 [OF o(1)] some1 [OF o(2)] by blast
      note f = liquidity_for0_le [OF assms(1) o(1) assms(5) l(1)] liquidity_for1_le [OF o(2) assms(6) l(2)]
      have n: "0 \<le> per0 p b'" "0 \<le> per1 a' p"
        using unit_nonneg [OF assms(1-3)] 3 unfolding u m by simp_all
      have "\<lceil>of_int (min l0 l1) * per0 p b'\<rceil> \<le> x" by (rule ceil_mono_left [OF _ n(1) f(2)]) simp
      moreover have "\<lceil>of_int (min l0 l1) * per1 a' p\<rceil> \<le> y" by (rule ceil_mono_left [OF _ n(2) f(4)]) simp
      moreover have "liquidity_for_amounts p a b x y = Some (min l0 l1)"
        using 3 l unfolding liquidity_for_amounts_def swap by (simp add: min_def)
      ultimately show ?thesis using that [of "min l0 l1"] f(1,3) 3 unfolding u m by simp
    qed
  qed
  then show ?thesis using amounts_ceil [OF assms(1-3) l(2)] by auto
qed

theorem funded_liquidity_affordable_witness:
  "\<exists>l u v. liquidity_for_amounts q96 (q96 div 2) (2 * q96) 1000 500 = Some l \<and>
     amounts_for_liquidity q96 (q96 div 2) (2 * q96) l = Some (u, v) \<and> 0 \<le> l \<and> u \<le> 1000 \<and> v \<le> 500"
  by (rule funded_liquidity_affordable) (simp_all add: q96_def)

end
