(* ===== verification/LadderPlan.thy ===== *)
theory LadderPlan
  imports Liquidity
begin

text \<open>
  The ladder planner (\<open>planLadder\<close>, \<open>packages/core/src/liquidity.ts\<close>): a range cut into bins, weights by
  shape, one scale for the whole ladder so that neither budget is exceeded. Ticks and amounts are exact;
  the fractions the code computes with doubles (weights, the share of a bin) are \<^typ>\<open>rat\<close>, and
  \<open>Math.exp\<close> is a parameter.
\<close>

section \<open>The shape\<close>

datatype shape = Spot | Curve | BidAsk

text \<open>The first \<open>\<lceil>bins\<rceil>\<close> numbers are the \<open>i\<close> with \<open>i < bins\<close>; a range whose span is no multiple of the spacing has a fractional count.\<close>

definition bin_count :: "rat \<Rightarrow> nat" where "bin_count bins = nat \<lceil>bins\<rceil>"

definition raw_weight :: "(rat \<Rightarrow> rat) \<Rightarrow> shape \<Rightarrow> rat \<Rightarrow> rat \<Rightarrow> nat \<Rightarrow> rat" where
  "raw_weight ex sh bins centre i =
     (let x = (if bins = 1 then 1 / 2 else (of_nat i + 1 / 2) / bins);
          d = \<bar>x - centre\<bar> in
      case sh of Spot \<Rightarrow> 1
      | Curve \<Rightarrow> ex (- (d * d) / (2 * (22 / 100) * (22 / 100)))
      | BidAsk \<Rightarrow> 15 / 100 + d * d * 4)"

definition shape_weights :: "(rat \<Rightarrow> rat) \<Rightarrow> shape \<Rightarrow> rat \<Rightarrow> rat \<Rightarrow> rat list" where
  "shape_weights ex sh bins centre =
     (let w = map (raw_weight ex sh bins centre) [0..<bin_count bins] in map (\<lambda>v. v / sum_list w) w)"

section \<open>The bins\<close>

record plan_input =
  pi_tick :: int
  pi_spacing :: int
  pi_min :: int
  pi_max :: int
  pi_bins :: rat
  pi_shape :: shape
  pi_budget0 :: int
  pi_budget1 :: int
  pi_slip :: "rat option"

record bin =
  bn_lo :: int
  bn_hi :: int
  bn_sa :: int
  bn_sb :: int
  bn_unit :: int
  bn_weight :: rat

definition unit_of :: "rat \<Rightarrow> int" where
  "unit_of w = tdiv (js_round (w * 10 ^ 9) * 10 ^ 18) (10 ^ 9)"

definition make_bin :: "int \<Rightarrow> int \<Rightarrow> int \<Rightarrow> rat \<Rightarrow> rat \<Rightarrow> nat \<Rightarrow> bin option" where
  "make_bin lo0 hi0 step bins w i =
     (let lo = lo0 + int i * step; hi = (if of_nat i = bins - 1 then hi0 else lo + step) in
      Option.bind (tick_to_sqrt lo) (\<lambda>sa. Option.bind (tick_to_sqrt hi) (\<lambda>sb.
        Some \<lparr>bn_lo = lo, bn_hi = hi, bn_sa = sa, bn_sb = sb, bn_unit = unit_of w, bn_weight = w\<rparr>)))"

definition all_of :: "'a option list \<Rightarrow> 'a list option" where
  "all_of xs = (if None \<in> set xs then None else Some (map the xs))"

definition make_bins :: "int \<Rightarrow> int \<Rightarrow> int \<Rightarrow> rat \<Rightarrow> rat list \<Rightarrow> bin list option" where
  "make_bins lo hi step bins ws = all_of (map (\<lambda>i. make_bin lo hi step bins (ws ! i) i) [0..<bin_count bins])"

definition bin_amounts :: "int \<Rightarrow> bin \<Rightarrow> int \<Rightarrow> (int \<times> int) option" where
  "bin_amounts sp b l = amounts_for_liquidity sp (bn_sa b) (bn_sb b) l"

definition needs :: "int \<Rightarrow> bin list \<Rightarrow> (int \<times> int) option" where
  "needs sp bs =
     map_option (\<lambda>as. (sum_list (map fst as), sum_list (map snd as))) (all_of (map (\<lambda>b. bin_amounts sp b (bn_unit b)) bs))"

section \<open>The scale\<close>

datatype limit_side = NoSide | Side0 | Side1

type_synonym plan_scale = "int \<times> int \<times> limit_side"

definition consider_side :: "int \<Rightarrow> int \<Rightarrow> limit_side \<Rightarrow> plan_scale \<Rightarrow> plan_scale" where
  "consider_side budget need side st =
     (case st of (num, den, lmt) \<Rightarrow>
        if need = 0 then st
        else if lmt = NoSide \<or> budget * den < num * need then (budget, need, side) else st)"

section \<open>The rungs\<close>

record rung =
  rg_lower :: int
  rg_upper :: int
  rg_amount0 :: int
  rg_amount1 :: int
  rg_min0 :: int
  rg_min1 :: int
  rg_liquidity :: int
  rg_weight :: rat

definition slip_bps :: "rat option \<Rightarrow> int" where
  "slip_bps s = max 0 (min 5000 (js_round (case s of None \<Rightarrow> 100 | Some x \<Rightarrow> x)))"

definition build_rung :: "int \<Rightarrow> limit_side \<Rightarrow> int \<Rightarrow> int \<Rightarrow> int \<Rightarrow> bin \<Rightarrow> rung list option" where
  "build_rung sp lmt slip num den b =
     (let l = (if lmt = NoSide then 0 else tdiv (bn_unit b * num) den) in
      if l = 0 then Some []
      else map_option (\<lambda>(x, y).
             if x = 0 \<and> y = 0 then []
             else [\<lparr>rg_lower = bn_lo b, rg_upper = bn_hi b, rg_amount0 = x, rg_amount1 = y,
                    rg_min0 = tdiv (x * (10000 - slip)) 10000, rg_min1 = tdiv (y * (10000 - slip)) 10000,
                    rg_liquidity = l, rg_weight = bn_weight b\<rparr>])
             (bin_amounts sp b l))"

definition build :: "int \<Rightarrow> limit_side \<Rightarrow> int \<Rightarrow> bin list \<Rightarrow> int \<Rightarrow> int \<Rightarrow> rung list option" where
  "build sp lmt slip bs num den = map_option concat (all_of (map (build_rung sp lmt slip num den) bs))"

definition total0 :: "rung list \<Rightarrow> int" where "total0 rs = sum_list (map rg_amount0 rs)"
definition total1 :: "rung list \<Rightarrow> int" where "total1 rs = sum_list (map rg_amount1 rs)"

definition over :: "int \<Rightarrow> int \<Rightarrow> rung list \<Rightarrow> bool" where
  "over b0 b1 rs = (total0 rs > b0 \<or> total1 rs > b1)"

text \<open>The two loops: a millionth off, at most eight times; then half, at most 64 times and while something is left.\<close>

fun shave :: "(int \<Rightarrow> int \<Rightarrow> rung list option) \<Rightarrow> (rung list \<Rightarrow> bool) \<Rightarrow> nat \<Rightarrow> int \<Rightarrow> int \<Rightarrow> rung list \<Rightarrow> (int \<times> int \<times> rung list) option" where
  "shave mk ov 0 num den rs = Some (num, den, rs)"
| "shave mk ov (Suc k) num den rs =
     (if ov rs then Option.bind (mk (num * 999999) (den * 1000000)) (\<lambda>rs'. shave mk ov k (num * 999999) (den * 1000000) rs')
      else Some (num, den, rs))"

fun halve :: "(int \<Rightarrow> int \<Rightarrow> rung list option) \<Rightarrow> (rung list \<Rightarrow> bool) \<Rightarrow> nat \<Rightarrow> int \<Rightarrow> int \<Rightarrow> rung list \<Rightarrow> rung list option" where
  "halve mk ov 0 num den rs = Some rs"
| "halve mk ov (Suc k) num den rs =
     (if ov rs \<and> rs \<noteq> [] then Option.bind (mk num (den * 2)) (\<lambda>rs'. halve mk ov k num (den * 2) rs')
      else Some rs)"

section \<open>The plan\<close>

record plan =
  pl_rungs :: "rung list"
  pl_total0 :: int
  pl_total1 :: int
  pl_min :: int
  pl_max :: int
  pl_limited :: limit_side
  pl_single :: "nat option"

definition plan_range :: "plan_input \<Rightarrow> int \<times> int" where
  "plan_range i =
     (let lo = align_tick (min (pi_min i) (pi_max i)) (pi_spacing i) DirDown;
          hi = align_tick (max (pi_min i) (pi_max i)) (pi_spacing i) DirUp in
      (lo, if hi \<le> lo then lo + pi_spacing i else hi))"

definition plan_bins :: "plan_input \<Rightarrow> rat \<times> int" where
  "plan_bins i =
     (let (lo, hi) = plan_range i;
          span = of_int (hi - lo) / of_int (pi_spacing i) :: rat;
          bins = max 1 (min 40 (min (of_int \<lfloor>pi_bins i\<rfloor>) span)) in
      (bins, \<lfloor>span / bins\<rfloor> * pi_spacing i))"

definition plan_centre :: "plan_input \<Rightarrow> rat" where
  "plan_centre i = (let (lo, hi) = plan_range i in min 1 (max 0 (of_int (pi_tick i - lo) / of_int (hi - lo))))"

definition plan_scale_of :: "plan_input \<Rightarrow> int \<times> int \<Rightarrow> plan_scale" where
  "plan_scale_of i n = consider_side (pi_budget1 i) (snd n) Side1 (consider_side (pi_budget0 i) (fst n) Side0 (0, 1, NoSide))"

definition fit_rungs :: "plan_input \<Rightarrow> int \<Rightarrow> bin list \<Rightarrow> plan_scale \<Rightarrow> rung list option" where
  "fit_rungs i sp bs sc =
     (case sc of (num, den, lmt) \<Rightarrow>
        let mk = build sp lmt (slip_bps (pi_slip i)) bs; ov = over (pi_budget0 i) (pi_budget1 i) in
        Option.bind (mk num den) (\<lambda>rs.
        Option.bind (shave mk ov 8 num den rs) (\<lambda>(num', den', rs'). halve mk ov 64 num' den' rs')))"

definition plan_ladder :: "(rat \<Rightarrow> rat) \<Rightarrow> plan_input \<Rightarrow> plan option" where
  "plan_ladder ex i =
     (if pi_spacing i \<le> 0 then None
      else let (lo, hi) = plan_range i; (bins, step) = plan_bins i;
               ws = shape_weights ex (pi_shape i) bins (plan_centre i) in
           Option.bind (tick_to_sqrt (pi_tick i)) (\<lambda>sp.
           Option.bind (make_bins lo hi step bins ws) (\<lambda>bs.
           Option.bind (needs sp bs) (\<lambda>n.
           let sc = plan_scale_of i n in
           Option.bind (fit_rungs i sp bs sc) (\<lambda>rs.
             Some \<lparr>pl_rungs = rs, pl_total0 = total0 rs, pl_total1 = total1 rs, pl_min = lo, pl_max = hi,
                   pl_limited = snd (snd sc),
                   pl_single = (if hi \<le> pi_tick i then Some 1 else if lo > pi_tick i then Some 0 else None)\<rparr>)))))"

end
