(* ===== verification/LadderBudget.thy ===== *)
theory LadderBudget
  imports LadderPlan
begin

text \<open>
  The planner keeps to the budgets. What a scale \<open>num / den\<close> draws of a token is a sum of rounded-up
  amounts; it is within one unit per bin of the scaled need, so shaving settles every budget that is not
  dust, and halving settles the rest: either the scale drops to at most one, where the ladder needs no
  more than the budgets, or no liquidity is left at all.
\<close>

section \<open>What a scale draws\<close>

definition drawn :: "(bin \<Rightarrow> rat) \<Rightarrow> bin list \<Rightarrow> int \<Rightarrow> int \<Rightarrow> int" where
  "drawn c bs num den = (\<Sum>b\<leftarrow>bs. \<lceil>of_int (bn_unit b * num div den) * c b\<rceil>)"

definition bins_ok :: "(bin \<Rightarrow> rat) \<Rightarrow> bin list \<Rightarrow> bool" where
  "bins_ok c bs \<longleftrightarrow> (\<forall>b \<in> set bs. 0 \<le> bn_unit b \<and> bn_unit b \<le> 10 ^ 18 \<and> 0 \<le> c b)"

lemma bins_ok_simps [simp]:
  "bins_ok c []" "bins_ok c (b # bs) \<longleftrightarrow> 0 \<le> bn_unit b \<and> bn_unit b \<le> 10 ^ 18 \<and> 0 \<le> c b \<and> bins_ok c bs"
  by (auto simp: bins_ok_def)

lemma drawn_simps [simp]:
  "drawn c [] num den = 0"
  "drawn c (b # bs) num den = \<lceil>of_int (bn_unit b * num div den) * c b\<rceil> + drawn c bs num den"
  by (simp_all add: drawn_def)

lemma scaled_unit_le: "0 < den \<Longrightarrow> (of_int (u * num div den) :: rat) \<le> of_int u * (of_int num / of_int den)"
proof -
  assume "0 < den"
  have "u * num div den * den \<le> u * num" using \<open>0 < den\<close> by (metis minus_mod_eq_div_mult diff_le_eq le_add_same_cancel1 pos_mod_sign)
  then have "(of_int (u * num div den * den) :: rat) \<le> of_int (u * num)" by (rule of_int_le_iff [THEN iffD2])
  then show ?thesis using \<open>0 < den\<close> by (simp add: pos_le_divide_eq)
qed

lemma ceil_nonneg: "0 \<le> (x :: rat) \<Longrightarrow> 0 \<le> \<lceil>x\<rceil>"
  using ceiling_mono [of 0 x] by simp

lemma drawn_nonneg:
  assumes "bins_ok c bs" "0 \<le> num" "0 < den"
  shows "0 \<le> drawn c bs num den"
  using assms(1)
proof (induction bs)
  case (Cons b bs)
  have "0 \<le> bn_unit b * num div den" using Cons.prems assms by (simp add: pos_imp_zdiv_nonneg_iff)
  then have "0 \<le> (of_int (bn_unit b * num div den) :: rat) * c b" using Cons.prems by simp
  from ceil_nonneg [OF this] Cons show ?case by simp
qed simp

lemma drawn_scaled:
  assumes "bins_ok c bs" "0 \<le> num" "0 < den"
  shows "of_int (drawn c bs num den) \<le> of_int num / of_int den * of_int (drawn c bs 1 1) + (of_nat (length bs) :: rat)"
  using assms(1)
proof (induction bs)
  case (Cons b bs)
  let ?s = "of_int num / of_int den :: rat"
  have s: "0 \<le> ?s" using assms by simp
  have b: "0 \<le> bn_unit b" "0 \<le> c b" using Cons.prems by simp_all
  have "(of_int (bn_unit b * num div den) :: rat) * c b \<le> (of_int (bn_unit b) * ?s) * c b"
    using scaled_unit_le [OF assms(3)] b(2) by (rule mult_right_mono)
  also have "\<dots> = ?s * (of_int (bn_unit b) * c b)" by simp
  also have "\<dots> \<le> ?s * of_int \<lceil>of_int (bn_unit b) * c b\<rceil>" using s by (rule mult_left_mono [rotated]) simp
  finally have "of_int \<lceil>of_int (bn_unit b * num div den) * c b\<rceil> \<le> ?s * of_int \<lceil>of_int (bn_unit b) * c b\<rceil> + 1"
    using ceiling_correct [of "of_int (bn_unit b * num div den) * c b"] by linarith
  moreover have "of_int (drawn c bs num den) \<le> ?s * of_int (drawn c bs 1 1) + (of_nat (length bs) :: rat)"
    using Cons by simp
  ultimately show ?case by (simp add: distrib_left)
qed simp

lemma drawn_within_need:
  assumes "bins_ok c bs" "0 \<le> num" "num \<le> den" "0 < den"
  shows "drawn c bs num den \<le> drawn c bs 1 1"
  using assms(1)
proof (induction bs)
  case (Cons b bs)
  have b: "0 \<le> bn_unit b" "0 \<le> c b" using Cons.prems by simp_all
  have "bn_unit b * num div den \<le> bn_unit b * den div den"
    using b(1) assms by (intro zdiv_mono1 mult_left_mono) simp_all
  then have "bn_unit b * num div den \<le> bn_unit b" using assms(4) by simp
  then have "(of_int (bn_unit b * num div den) :: rat) * c b \<le> of_int (bn_unit b) * c b"
    using b(2) by (intro mult_right_mono) simp_all
  then have "\<lceil>of_int (bn_unit b * num div den) * c b\<rceil> \<le> \<lceil>of_int (bn_unit b) * c b\<rceil>" by (rule ceiling_mono)
  with Cons show ?case by simp
qed simp

lemma drawn_nothing:
  assumes "bins_ok c bs" "0 \<le> num" "10 ^ 18 * num < den"
  shows "drawn c bs num den = 0"
  using assms(1)
proof (induction bs)
  case (Cons b bs)
  have b: "0 \<le> bn_unit b" "bn_unit b \<le> 10 ^ 18" using Cons.prems by simp_all
  have "bn_unit b * num \<le> 10 ^ 18 * num" using b(2) assms(2) by (rule mult_right_mono)
  then have "bn_unit b * num div den = 0"
    using b(1) assms by (intro div_pos_pos_trivial mult_nonneg_nonneg) linarith+
  with Cons show ?case by simp
qed simp

lemma drawn_no_need:
  assumes "bins_ok c bs" "drawn c bs 1 1 = 0"
  shows "drawn c bs num den = 0"
  using assms
proof (induction bs)
  case (Cons b bs)
  have b: "0 \<le> bn_unit b" "0 \<le> c b" "bins_ok c bs" using Cons.prems by simp_all
  have 0: "0 \<le> (of_int (bn_unit b) :: rat) * c b" using b by simp
  from ceil_nonneg [OF this] have n: "0 \<le> \<lceil>(of_int (bn_unit b) :: rat) * c b\<rceil>" .
  have m: "0 \<le> drawn c bs 1 1" using drawn_nonneg [OF b(3), of 1 1] by simp
  have "\<lceil>(of_int (bn_unit b) :: rat) * c b\<rceil> + drawn c bs 1 1 = 0" using Cons.prems(2) by simp
  with n m have z: "\<lceil>(of_int (bn_unit b) :: rat) * c b\<rceil> = 0" "drawn c bs 1 1 = 0" by linarith+
  from z(1) 0 have "(of_int (bn_unit b) :: rat) * c b = 0" by (simp add: ceiling_eq_iff)
  then have "bn_unit b = 0 \<or> c b = 0" by simp
  with Cons.IH b(3) z(2) show ?case by auto
qed simp

section \<open>The scale that is chosen\<close>

lemma scale_fair:
  assumes "0 \<le> b0" "0 \<le> b1" "0 \<le> n0" "0 \<le> n1"
    "consider_side b1 n1 Side1 (consider_side b0 n0 Side0 (0, 1, NoSide)) = (num, den, lmt)"
  shows "0 \<le> num" "0 < den" "n0 * num \<le> b0 * den" "n1 * num \<le> b1 * den" "lmt = NoSide \<longleftrightarrow> n0 = 0 \<and> n1 = 0"
  using assms by (auto simp: consider_side_def mult.commute split: if_splits)

section \<open>The loops\<close>

lemma shave_result:
  assumes "shave mk ov k num den rs = Some (num', den', rs')" "mk num den = Some rs"
  shows "mk num' den' = Some rs' \<and> (\<not> ov rs' \<or> (num' = num * 999999 ^ k \<and> den' = den * 1000000 ^ k))"
  using assms
  by (induction mk ov k num den rs arbitrary: num' den' rs' rule: shave.induct)
    (auto simp: bind_eq_Some_conv ac_simps split: if_splits)

lemma halve_result:
  assumes "halve mk ov k num den rs = Some rs'" "mk num den = Some rs"
  shows "\<not> ov rs' \<or> rs' = [] \<or> (ov rs \<and> mk num (den * 2 ^ k) = Some rs')"
  using assms
  by (induction mk ov k num den rs rule: halve.induct) (auto simp: bind_eq_Some_conv ac_simps split: if_splits)

section \<open>The rungs of a scale\<close>

definition need_of0 :: "int \<Rightarrow> bin \<Rightarrow> rat" where "need_of0 sp b = unit0 sp (bn_sa b) (bn_sb b)"
definition need_of1 :: "int \<Rightarrow> bin \<Rightarrow> rat" where "need_of1 sp b = unit1 sp (bn_sa b) (bn_sb b)"

definition bin_ok :: "bin \<Rightarrow> bool" where
  "bin_ok b \<longleftrightarrow> 0 < bn_sa b \<and> 0 < bn_sb b \<and> 0 \<le> bn_unit b \<and> bn_unit b \<le> 10 ^ 18"

lemma bin_ok_bins_ok:
  assumes "0 < sp" "\<forall>b \<in> set bs. bin_ok b"
  shows "bins_ok (need_of0 sp) bs" "bins_ok (need_of1 sp) bs"
  using assms unit_nonneg by (simp_all add: bins_ok_def bin_ok_def need_of0_def need_of1_def)

lemma bin_amounts_ceil:
  assumes "0 < sp" "bin_ok b" "0 \<le> l"
  shows "bin_amounts sp b l = Some (\<lceil>of_int l * need_of0 sp b\<rceil>, \<lceil>of_int l * need_of1 sp b\<rceil>)"
  using assms amounts_ceil by (simp add: bin_amounts_def bin_ok_def need_of0_def need_of1_def)

lemma all_of_map: "(\<And>x. x \<in> set xs \<Longrightarrow> f x = Some (g x)) \<Longrightarrow> all_of (map f xs) = Some (map g xs)"
  by (auto simp: all_of_def image_iff)

definition rung_ok :: "int \<Rightarrow> int \<Rightarrow> rung \<Rightarrow> bool" where
  "rung_ok sp slip r \<longleftrightarrow>
     0 < rg_liquidity r \<and> 0 \<le> rg_amount0 r \<and> 0 \<le> rg_amount1 r \<and> 0 < rg_amount0 r + rg_amount1 r \<and>
     rg_min0 r = rg_amount0 r * (10000 - slip) div 10000 \<and> rg_min1 r = rg_amount1 r * (10000 - slip) div 10000 \<and>
     (\<exists>sa sb. tick_to_sqrt (rg_lower r) = Some sa \<and> tick_to_sqrt (rg_upper r) = Some sb \<and>
              amounts_for_liquidity sp sa sb (rg_liquidity r) = Some (rg_amount0 r, rg_amount1 r))"

definition placed :: "bin \<Rightarrow> bool" where
  "placed b \<longleftrightarrow> bin_ok b \<and> tick_to_sqrt (bn_lo b) = Some (bn_sa b) \<and> tick_to_sqrt (bn_hi b) = Some (bn_sb b)"

lemma build_rung_drawn:
  assumes "0 < sp" "placed b" "0 \<le> num" "0 < den" "0 \<le> slip" "slip \<le> 5000" "lmt \<noteq> NoSide"
  shows "\<exists>rs. build_rung sp lmt slip num den b = Some rs \<and>
     total0 rs = drawn (need_of0 sp) [b] num den \<and> total1 rs = drawn (need_of1 sp) [b] num den \<and> (\<forall>r \<in> set rs. rung_ok sp slip r)"
proof -
  let ?l = "bn_unit b * num div den"
  have b: "bin_ok b" using assms(2) by (simp add: placed_def)
  have u: "0 \<le> bn_unit b * num" using b assms by (simp add: bin_ok_def)
  have l: "tdiv (bn_unit b * num) den = ?l" "0 \<le> ?l" using u assms(4) by (simp_all add: tdiv_nonneg pos_imp_zdiv_nonneg_iff)
  define x where "x = \<lceil>of_int ?l * need_of0 sp b\<rceil>"
  define y where "y = \<lceil>of_int ?l * need_of1 sp b\<rceil>"
  have amounts: "bin_amounts sp b ?l = Some (x, y)" unfolding x_def y_def by (rule bin_amounts_ceil [OF assms(1) b l(2)])
  have n: "0 \<le> need_of0 sp b" "0 \<le> need_of1 sp b"
    using bin_ok_bins_ok [OF assms(1), of "[b]"] b by simp_all
  have xy: "0 \<le> x" "0 \<le> y"
    unfolding x_def y_def using n l(2) by (intro ceil_nonneg mult_nonneg_nonneg; simp)+
  show ?thesis
  proof (cases "?l = 0")
    case True
    then show ?thesis by (simp add: build_rung_def l total0_def total1_def)
  next
    case False
    then show ?thesis
      using amounts xy l assms b
      by (auto simp: build_rung_def Let_def total0_def total1_def rung_ok_def tdiv_nonneg placed_def bin_amounts_def simp flip: x_def y_def)
  qed
qed

lemma total_append [simp]:
  "total0 (xs @ ys) = total0 xs + total0 ys" "total1 (xs @ ys) = total1 xs + total1 ys" "total0 [] = 0" "total1 [] = 0"
  by (simp_all add: total0_def total1_def)

lemma build_Cons:
  "build sp lmt slip (b # bs) num den =
     Option.bind (build_rung sp lmt slip num den b) (\<lambda>r. map_option (\<lambda>rs. r @ rs) (build sp lmt slip bs num den))"
  by (cases "build_rung sp lmt slip num den b") (auto simp: build_def all_of_def)

lemma build_drawn:
  assumes "0 < sp" "\<forall>b \<in> set bs. placed b" "0 \<le> num" "0 < den" "0 \<le> slip" "slip \<le> 5000" "lmt \<noteq> NoSide"
  shows "\<exists>rs. build sp lmt slip bs num den = Some rs \<and>
     total0 rs = drawn (need_of0 sp) bs num den \<and> total1 rs = drawn (need_of1 sp) bs num den \<and> (\<forall>r \<in> set rs. rung_ok sp slip r)"
  using assms(2)
proof (induction bs)
  case Nil
  then show ?case by (simp add: build_def all_of_def)
next
  case (Cons b bs)
  from Cons obtain rs where rs: "build sp lmt slip bs num den = Some rs" "total0 rs = drawn (need_of0 sp) bs num den"
    "total1 rs = drawn (need_of1 sp) bs num den" "\<forall>r \<in> set rs. rung_ok sp slip r" by auto
  from Cons.prems build_rung_drawn [OF assms(1) _ assms(3-7), of b] obtain r where
    r: "build_rung sp lmt slip num den b = Some r" "total0 r = drawn (need_of0 sp) [b] num den"
    "total1 r = drawn (need_of1 sp) [b] num den" "\<forall>x \<in> set r. rung_ok sp slip x" by auto
  from rs r show ?case by (auto simp: build_Cons)
qed

lemma build_none_needed: "build sp NoSide slip bs num den = Some []"
  by (simp add: build_def build_rung_def all_of_def image_iff map_replicate_const)

section \<open>The ladder fits\<close>

lemma shave_exists:
  assumes "\<And>n d. 0 \<le> n \<Longrightarrow> 0 < d \<Longrightarrow> mk n d \<noteq> None" "0 \<le> num" "0 < den"
  shows "\<exists>num' den' rs'. shave mk ov k num den rs = Some (num', den', rs') \<and> 0 \<le> num' \<and> 0 < den'"
  using assms(2,3)
proof (induction k arbitrary: num den rs)
  case (Suc k)
  from assms(1) [of "num * 999999" "den * 1000000"] Suc.prems obtain rs1 where "mk (num * 999999) (den * 1000000) = Some rs1" by auto
  then show ?case using Suc by auto
qed simp

lemma halve_exists:
  assumes "\<And>d. 0 < d \<Longrightarrow> mk num d \<noteq> None" "0 < den"
  shows "\<exists>rs'. halve mk ov k num den rs = Some rs'"
  using assms(2)
proof (induction k arbitrary: den rs)
  case (Suc k)
  from assms(1) [of "den * 2"] Suc.prems obtain rs1 where "mk num (den * 2) = Some rs1" by auto
  then show ?case using Suc by auto
qed simp

text \<open>A budget that a shaved scale still overdraws is a few million units at most, so the scale was below that.\<close>

lemma overdrawn_small:
  assumes "bins_ok c bs" "length bs \<le> 40" "0 \<le> num" "0 < den" "drawn c bs 1 1 * num \<le> b * den"
    "b < drawn c bs (num * 999999 ^ 8) (den * 1000000 ^ 8)"
  shows "num \<le> 6000000 * den"
proof -
  let ?n = "drawn c bs 1 1" and ?q = "999999 ^ 8 / 1000000 ^ 8 :: rat" and ?s = "of_int num / of_int den :: rat"
  have n: "0 \<le> ?n" using drawn_nonneg [OF assms(1), of 1 1] by simp
  have n1: "1 \<le> ?n"
  proof (rule ccontr)
    assume "\<not> 1 \<le> ?n"
    then have z: "?n = 0" using n by simp
    then have "drawn c bs (num * 999999 ^ 8) (den * 1000000 ^ 8) = 0" by (rule drawn_no_need [OF assms(1)])
    moreover have "0 \<le> b * den" using assms(5) z by simp
    then have "0 \<le> b" using assms(4) by (simp add: zero_le_mult_iff)
    ultimately show False using assms(6) by simp
  qed
  have sn: "?s * of_int ?n \<le> of_int b"
  proof -
    have "(of_int (?n * num) :: rat) \<le> of_int (b * den)" using assms(5) by (rule of_int_le_iff [THEN iffD2])
    then show ?thesis using assms(4) by (simp add: pos_divide_le_eq mult.commute)
  qed
  have "(of_int b :: rat) \<le> of_int (drawn c bs (num * 999999 ^ 8) (den * 1000000 ^ 8)) - 1"
  proof -
    have "b \<le> drawn c bs (num * 999999 ^ 8) (den * 1000000 ^ 8) - 1" using assms(6) by simp
    then have "(of_int b :: rat) \<le> of_int (drawn c bs (num * 999999 ^ 8) (den * 1000000 ^ 8) - 1)" by (rule of_int_le_iff [THEN iffD2])
    then show ?thesis by simp
  qed
  also have "\<dots> \<le> of_int (num * 999999 ^ 8) / of_int (den * 1000000 ^ 8) * of_int ?n + of_nat (length bs) - 1"
    using drawn_scaled [OF assms(1), of "num * 999999 ^ 8" "den * 1000000 ^ 8"] assms(3,4) by simp
  also have "\<dots> \<le> ?q * (?s * of_int ?n) + 39"
    using assms(2) by (simp add: field_simps)
  also have "\<dots> \<le> ?q * of_int b + 39" using sn by (intro add_right_mono mult_left_mono) simp_all
  finally have "(1 - ?q) * of_int b \<le> 39" by (simp add: algebra_simps)
  then have b: "(of_int b :: rat) \<le> 6000000" by (simp add: field_simps)
  have "?s * 1 \<le> ?s * of_int ?n" using n1 assms(3,4) by (intro mult_left_mono) simp_all
  with sn b have "?s \<le> 6000000" by simp
  then have "(of_int num :: rat) \<le> of_int (6000000 * den)" using assms(4) by (simp add: pos_divide_le_eq)
  then show ?thesis by (simp only: of_int_le_iff)
qed

lemma fit_within:
  assumes sp: "0 < sp" and bs: "\<forall>b \<in> set bs. placed b" "length bs \<le> 40"
    and budgets: "0 \<le> pi_budget0 i" "0 \<le> pi_budget1 i"
    and n: "n = (drawn (need_of0 sp) bs 1 1, drawn (need_of1 sp) bs 1 1)"
  shows "\<exists>rs. fit_rungs i sp bs (plan_scale_of i n) = Some rs \<and> \<not> over (pi_budget0 i) (pi_budget1 i) rs \<and>
     (\<forall>r \<in> set rs. rung_ok sp (slip_bps (pi_slip i)) r)"
proof -
  let ?b0 = "pi_budget0 i" and ?b1 = "pi_budget1 i" and ?slip = "slip_bps (pi_slip i)"
  have slip: "0 \<le> ?slip" "?slip \<le> 5000" by (simp_all add: slip_bps_def)
  obtain num den lmt where sc: "plan_scale_of i n = (num, den, lmt)" by (cases "plan_scale_of i n")
  have ok: "bins_ok (need_of0 sp) bs" "bins_ok (need_of1 sp) bs"
    using bin_ok_bins_ok [OF sp] bs(1) by (simp_all add: placed_def)
  have n0: "0 \<le> fst n" "0 \<le> snd n" using drawn_nonneg [OF ok(1), of 1 1] drawn_nonneg [OF ok(2), of 1 1] n by simp_all
  note fair = scale_fair [OF budgets n0 sc [unfolded plan_scale_of_def]]
  have none: "\<not> over ?b0 ?b1 []" using budgets by (simp add: over_def)
  show ?thesis
  proof (cases "lmt = NoSide")
    case True
    have b: "build sp lmt ?slip bs a d = Some []" for a d by (simp add: True build_none_needed)
    have s: "shave (build sp lmt ?slip bs) (over ?b0 ?b1) 8 num den [] = Some (num, den, [])"
      using none by (simp add: numeral_eq_Suc)
    have h: "halve (build sp lmt ?slip bs) (over ?b0 ?b1) 64 num den [] = Some []"
      by (simp add: numeral_eq_Suc)
    show ?thesis by (simp add: fit_rungs_def sc b s h none Let_def)
  next
    case lmt: False
    let ?mk = "build sp lmt ?slip bs"
    have mk: "\<exists>rs. ?mk a d = Some rs \<and> total0 rs = drawn (need_of0 sp) bs a d \<and> total1 rs = drawn (need_of1 sp) bs a d \<and> (\<forall>r \<in> set rs. rung_ok sp ?slip r)"
      if "0 \<le> a" "0 < d" for a d
      using build_drawn [OF sp bs(1) that slip lmt] .
    have mk_some: "?mk a d \<noteq> None" if "0 \<le> a" "0 < d" for a d using mk [OF that] by auto
    obtain rs where rs: "?mk num den = Some rs" using mk [OF fair(1,2)] by auto
    obtain num' den' rs' where sh: "shave ?mk (over ?b0 ?b1) 8 num den rs = Some (num', den', rs')" and pos: "0 \<le> num'" "0 < den'"
      using shave_exists [of ?mk num den "over ?b0 ?b1" 8 rs] mk_some fair(1,2) by blast
    note shr = shave_result [OF sh rs]
    obtain rs2 where hv: "halve ?mk (over ?b0 ?b1) 64 num' den' rs' = Some rs2"
      using halve_exists [of ?mk num' den'] mk_some pos by blast
    note hvr = halve_result [OF hv conjunct1 [OF shr]]
    have fit: "fit_rungs i sp bs (plan_scale_of i n) = Some rs2" by (simp add: fit_rungs_def sc rs sh hv Let_def)
    have "\<not> over ?b0 ?b1 rs2"
    proof
      assume ov: "over ?b0 ?b1 rs2"
      with none have "rs2 \<noteq> []" by auto
      with ov hvr have o: "over ?b0 ?b1 rs'" and r2: "?mk num' (den' * 2 ^ 64) = Some rs2" by auto
      with shr have scale: "num' = num * 999999 ^ 8" "den' = den * 1000000 ^ 8" and r1: "?mk num' den' = Some rs'" by auto
      have t: "total0 rs2 = drawn (need_of0 sp) bs num' (den' * 2 ^ 64)" "total1 rs2 = drawn (need_of1 sp) bs num' (den' * 2 ^ 64)"
        using mk [of num' "den' * 2 ^ 64"] pos r2 by auto
      show False
      proof (cases "num < den")
        case True
        then have "10 ^ 18 * num' < den' * 2 ^ 64" using fair(1) by (simp add: scale)
        then have "total0 rs2 = 0" "total1 rs2 = 0" unfolding t
          by (rule drawn_nothing [OF ok(1) pos(1)], rule drawn_nothing [OF ok(2) pos(1)])
        with ov budgets show False by (simp add: over_def)
      next
        case False
        have small: "num \<le> 6000000 * den"
        proof -
          have "?b0 < drawn (need_of0 sp) bs num' den' \<or> ?b1 < drawn (need_of1 sp) bs num' den'"
            using o mk [OF pos] r1 by (auto simp: over_def)
          then show ?thesis
            using overdrawn_small [OF ok(1) bs(2) fair(1,2), of ?b0] overdrawn_small [OF ok(2) bs(2) fair(1,2), of ?b1] fair(3,4) n scale
            by auto
        qed
        then have "num' \<le> den' * 2 ^ 64" using fair(1) by (simp add: scale)
        then have le: "total0 rs2 \<le> fst n" "total1 rs2 \<le> snd n"
          unfolding t n fst_conv snd_conv using pos by (auto intro: drawn_within_need [OF ok(1)] drawn_within_need [OF ok(2)])
        have cover: "x \<le> b" if "x * num \<le> b * den" "0 \<le> x" for x b
        proof -
          have "x * den \<le> x * num" using False that(2) by (intro mult_left_mono) simp_all
          with that(1) have "x * den \<le> b * den" by simp
          then show "x \<le> b" using fair(2) by simp
        qed
        from le cover [OF fair(3) n0(1)] cover [OF fair(4) n0(2)] ov show False by (simp add: over_def)
      qed
    qed
    moreover have "\<forall>r \<in> set rs2. rung_ok sp ?slip r"
    proof -
      have mono: "\<exists>d. 0 < d \<and> ?mk num' d = Some rs2"
      proof -
        have "\<lbrakk>halve ?mk (over ?b0 ?b1) k a d xs = Some ys; 0 < d; ?mk a d = Some xs\<rbrakk> \<Longrightarrow> \<exists>d'. 0 < d' \<and> ?mk a d' = Some ys" for k a d xs ys
          by (induction ?mk "over ?b0 ?b1" k a d xs rule: halve.induct) (auto simp: bind_eq_Some_conv split: if_splits)
        from this [OF hv pos(2) conjunct1 [OF shr]] show ?thesis .
      qed
      then show ?thesis using mk [OF pos(1)] by fastforce
    qed
    ultimately show ?thesis using fit by blast
  qed
qed

section \<open>The bins of a plan\<close>

lemma raw_weight_nonneg: "\<forall>x. 0 \<le> ex x \<Longrightarrow> 0 \<le> raw_weight ex sh bins centre k"
  by (cases sh) (simp_all add: raw_weight_def Let_def)

lemma in_sum_list_le: "\<forall>v \<in> set ws. 0 \<le> v \<Longrightarrow> v \<in> set ws \<Longrightarrow> (v :: rat) \<le> sum_list ws"
proof (induction ws)
  case (Cons w ws)
  have "0 \<le> sum_list ws" using Cons.prems(1) by (simp add: sum_list_nonneg)
  with Cons show ?case by auto
qed simp

lemma shape_weights_ok:
  assumes "\<forall>x. 0 \<le> ex x"
  shows "length (shape_weights ex sh bins centre) = bin_count bins" "w \<in> set (shape_weights ex sh bins centre) \<Longrightarrow> 0 \<le> w \<and> w \<le> 1"
proof -
  let ?ws = "map (raw_weight ex sh bins centre) [0..<bin_count bins]"
  show "length (shape_weights ex sh bins centre) = bin_count bins" by (simp add: shape_weights_def)
  assume "w \<in> set (shape_weights ex sh bins centre)"
  then obtain v where v: "v \<in> set ?ws" "w = v / sum_list ?ws" by (auto simp: shape_weights_def Let_def)
  have nn: "\<forall>v \<in> set ?ws. 0 \<le> v" using raw_weight_nonneg [OF assms] by auto
  then have "v \<le> sum_list ?ws" using v(1) by (rule in_sum_list_le)
  with nn v show "0 \<le> w \<and> w \<le> 1"
    by (cases "sum_list ?ws = 0") (auto simp: divide_le_eq_1 sum_list_nonneg intro!: divide_nonneg_nonneg)
qed

lemma unit_of_bounds: "0 \<le> w \<Longrightarrow> w \<le> 1 \<Longrightarrow> 0 \<le> unit_of w \<and> unit_of w \<le> 10 ^ 18"
proof -
  assume w: "0 \<le> w" "w \<le> 1"
  have "(0 :: rat) \<le> w * 10 ^ 9 + 1 / 2" using w by simp
  then have lo: "0 \<le> js_round (w * 10 ^ 9)" unfolding js_round_def by (simp add: zero_le_floor)
  have "w * 10 ^ 9 \<le> 1 * 10 ^ 9" using w(2) by (rule mult_right_mono) simp
  then have "w * 10 ^ 9 + 1 / 2 < (10 ^ 9 + 1 :: rat)" by simp
  then have "js_round (w * 10 ^ 9) < 10 ^ 9 + 1" unfolding js_round_def by (simp add: floor_less_iff)
  then have hi: "js_round (w * 10 ^ 9) * 10 ^ 18 \<le> 10 ^ 18 * 10 ^ 9" by simp
  have u: "unit_of w = js_round (w * 10 ^ 9) * 10 ^ 18 div 10 ^ 9" using lo by (simp add: unit_of_def tdiv_nonneg)
  have "unit_of w \<le> 10 ^ 18 * 10 ^ 9 div 10 ^ 9" unfolding u using hi by (rule zdiv_mono1) simp
  then show ?thesis using lo unfolding u by (simp add: pos_imp_zdiv_nonneg_iff)
qed

lemma all_of_Some: "all_of xs = Some ys \<Longrightarrow> length ys = length xs \<and> (\<forall>k < length xs. xs ! k = Some (ys ! k))"
  by (auto simp: all_of_def in_set_conv_nth split: if_splits)

lemma make_bins_placed:
  assumes "make_bins lo hi step bins ws = Some bs" "length ws = bin_count bins" "\<forall>w \<in> set ws. 0 \<le> w \<and> w \<le> 1"
  shows "\<forall>b \<in> set bs. placed b" "length bs = bin_count bins"
proof -
  note m = all_of_Some [OF assms(1) [unfolded make_bins_def]]
  then show len: "length bs = bin_count bins" by simp
  show "\<forall>b \<in> set bs. placed b"
  proof
    fix b
    assume "b \<in> set bs"
    then obtain k where k: "k < bin_count bins" "bs ! k = b" using len by (auto simp: in_set_conv_nth)
    with m have mk: "make_bin lo hi step bins (ws ! k) k = Some b" by simp
    have w: "0 \<le> ws ! k" "ws ! k \<le> 1" using assms(2,3) k(1) by simp_all
    from mk show "placed b"
      using unit_of_bounds [OF w]
      by (auto simp: make_bin_def Let_def placed_def bin_ok_def bind_eq_Some_conv dest: tick_to_sqrt_pos)
  qed
qed

lemma needs_drawn:
  assumes "0 < sp" "\<forall>b \<in> set bs. placed b"
  shows "needs sp bs = Some (drawn (need_of0 sp) bs 1 1, drawn (need_of1 sp) bs 1 1)"
proof -
  have "all_of (map (\<lambda>b. bin_amounts sp b (bn_unit b)) bs) =
      Some (map (\<lambda>b. (\<lceil>of_int (bn_unit b) * need_of0 sp b\<rceil>, \<lceil>of_int (bn_unit b) * need_of1 sp b\<rceil>)) bs)"
    using assms by (intro all_of_map bin_amounts_ceil) (simp_all add: placed_def bin_ok_def)
  then show ?thesis by (simp add: needs_def drawn_def comp_def)
qed

lemma bin_count_bound: "bin_count (fst (plan_bins i)) \<le> 40"
proof -
  have "fst (plan_bins i) \<le> 40" by (simp add: plan_bins_def Let_def split: prod.split)
  then have "\<lceil>fst (plan_bins i)\<rceil> \<le> 40" by (simp only: ceiling_le_iff of_int_numeral)
  then show ?thesis unfolding bin_count_def by linarith
qed

section \<open>A range inside the ticks of the chain\<close>

definition inner_range :: "plan_input \<Rightarrow> bool" where
  "inner_range i \<longleftrightarrow> 0 < pi_spacing i \<and> min_tick \<le> pi_tick i \<and> pi_tick i \<le> max_tick \<and>
     min_tick + pi_spacing i \<le> min (pi_min i) (pi_max i) \<and> max (pi_min i) (pi_max i) \<le> max_tick - pi_spacing i"

lemma align_down:
  assumes "0 < s" "min_tick + s \<le> t" "t \<le> max_tick"
  shows "align_tick t s DirDown = t div s * s" "t - s < t div s * s" "t div s * s \<le> t"
proof -
  have m: "t div s * s = t - t mod s" by (rule minus_mod_eq_div_mult [symmetric])
  show l: "t - s < t div s * s" "t div s * s \<le> t" using assms(1) by (simp_all add: m)
  show "align_tick t s DirDown = t div s * s"
    using assms(2,3) l by (simp add: align_tick_def Let_def floor_divide_of_int_eq)
qed

lemma align_up:
  assumes "0 < s" "min_tick \<le> t" "t \<le> max_tick - s"
  shows "\<exists>k. align_tick t s DirUp = k * s \<and> t \<le> k * s \<and> k * s < t + s"
proof -
  let ?k = "\<lceil>of_int t / of_int s :: rat\<rceil>"
  have sr: "(0 :: rat) < of_int s" using assms(1) by simp
  have "(of_int t :: rat) \<le> of_int ?k * of_int s" by (rule pos_divide_le_eq [OF sr, THEN iffD1, OF le_of_int_ceiling])
  then have le: "(of_int t :: rat) \<le> of_int (?k * s)" by simp
  have "of_int ?k - 1 < (of_int t / of_int s :: rat)" using ceiling_correct [of "of_int t / of_int s :: rat"] by simp
  from pos_less_divide_eq [OF sr, THEN iffD1, OF this]
  have "(of_int ((?k - 1) * s) :: rat) < of_int t" by simp
  then have "(?k - 1) * s < t" by (simp only: of_int_less_iff)
  moreover have "t \<le> ?k * s" using le by (simp only: of_int_le_iff)
  ultimately have k: "t \<le> ?k * s" "?k * s - s < t" by (simp_all add: left_diff_distrib)
  then have "align_tick t s DirUp = ?k * s" using assms by (simp add: align_tick_def Let_def)
  with k show ?thesis by auto
qed

lemma inner_plan_range:
  assumes "inner_range i"
  shows "\<exists>lo k. plan_range i = (lo, lo + k * pi_spacing i) \<and> 0 < k \<and> min_tick \<le> lo \<and> lo + k * pi_spacing i \<le> max_tick"
proof -
  let ?s = "pi_spacing i" and ?a = "min (pi_min i) (pi_max i)" and ?b = "max (pi_min i) (pi_max i)"
  have s: "0 < ?s" and a: "min_tick + ?s \<le> ?a" "?a \<le> max_tick" and b: "min_tick \<le> ?b" "?b \<le> max_tick - ?s"
    using assms by (auto simp: inner_range_def)
  note d = align_down [OF s a]
  obtain k where k: "align_tick ?b ?s DirUp = k * ?s" "?b \<le> k * ?s" "k * ?s < ?b + ?s" using align_up [OF s b] by blast
  define j where "j = ?a div ?s"
  have lo: "align_tick ?a ?s DirDown = j * ?s" "min_tick \<le> j * ?s" "j * ?s \<le> ?a"
    using d a(1) unfolding j_def by linarith+
  show ?thesis
  proof (cases "k * ?s \<le> j * ?s")
    case True
    have "j * ?s + 1 * ?s \<le> max_tick" using lo(3) b(2) by linarith
    then have "plan_range i = (j * ?s, j * ?s + 1 * ?s) \<and> 0 < (1 :: int) \<and> min_tick \<le> j * ?s \<and> j * ?s + 1 * ?s \<le> max_tick"
      using True lo k(1) by (simp add: plan_range_def Let_def)
    then show ?thesis by blast
  next
    case False
    then have "0 < k - j" using s by simp
    moreover have "j * ?s + (k - j) * ?s = k * ?s" by (simp add: left_diff_distrib)
    ultimately have "plan_range i = (j * ?s, j * ?s + (k - j) * ?s) \<and> 0 < k - j \<and> min_tick \<le> j * ?s \<and> j * ?s + (k - j) * ?s \<le> max_tick"
      using False lo k(1) order_trans [OF less_imp_le [OF k(3)], of max_tick] b(2) by (simp add: plan_range_def Let_def)
    then show ?thesis by blast
  qed
qed

lemma inner_plan_bins:
  assumes "plan_range i = (lo, lo + k * pi_spacing i)" "0 < k" "0 < pi_spacing i"
  shows "\<exists>m. plan_bins i = (of_int m, k div m * pi_spacing i) \<and> 1 \<le> m \<and> m \<le> k"
proof -
  let ?m = "max 1 (min 40 (min \<lfloor>pi_bins i\<rfloor> k))"
  have span: "of_int (lo + k * pi_spacing i - lo) / of_int (pi_spacing i) = (of_int k :: rat)" using assms(3) by simp
  have m: "max 1 (min 40 (min (of_int \<lfloor>pi_bins i\<rfloor>) (of_int k))) = (of_int ?m :: rat)"
    by (simp add: of_int_max of_int_min)
  have "\<lfloor>of_int k / of_int ?m :: rat\<rfloor> = k div ?m" by (rule floor_divide_of_int_eq)
  then have "plan_bins i = (of_int ?m, k div ?m * pi_spacing i)"
    unfolding plan_bins_def assms(1) Let_def prod.case span m by simp
  then show ?thesis using assms(2) by (intro exI [of _ ?m]) simp
qed

lemma plan_exists:
  assumes "inner_range i" "\<forall>x. 0 \<le> ex x" "0 \<le> pi_budget0 i" "0 \<le> pi_budget1 i"
  shows "plan_ladder ex i \<noteq> None"
proof -
  let ?s = "pi_spacing i"
  have s: "0 < ?s" "min_tick \<le> pi_tick i" "pi_tick i \<le> max_tick" using assms(1) by (simp_all add: inner_range_def)
  obtain lo k where rng: "plan_range i = (lo, lo + k * ?s)" "0 < k" "min_tick \<le> lo" "lo + k * ?s \<le> max_tick"
    using inner_plan_range [OF assms(1)] by blast
  obtain m where bn: "plan_bins i = (of_int m, k div m * ?s)" "1 \<le> m" "m \<le> k" using inner_plan_bins [OF rng(1,2) s(1)] by blast
  let ?ws = "shape_weights ex (pi_shape i) (of_int m) (plan_centre i)" and ?step = "k div m * ?s" and ?hi = "lo + k * ?s"
  obtain sp where sp: "tick_to_sqrt (pi_tick i) = Some sp" using tick_to_sqrt_Some s by blast
  have inside: "min_tick \<le> lo + j * ?step \<and> lo + j * ?step \<le> max_tick" if "0 \<le> j" "j \<le> m" for j
  proof -
    have "0 \<le> k div m" using rng(2) bn(2) by (simp add: pos_imp_zdiv_nonneg_iff)
    have "j * (k div m) \<le> m * (k div m)" using that(2) \<open>0 \<le> k div m\<close> by (rule mult_right_mono)
    also have "\<dots> \<le> k" using bn(2) by (metis add.commute le_add_same_cancel2 less_le_trans mod_mult_div_eq pos_mod_sign zero_less_one)
    finally have "j * (k div m) * ?s \<le> k * ?s" using s(1) by simp
    moreover have "0 \<le> j * (k div m) * ?s" using that(1) \<open>0 \<le> k div m\<close> s(1) by simp
    ultimately show ?thesis using rng(3,4) by (simp add: mult.assoc)
  qed
  have "make_bin lo ?hi ?step (of_int m) w j \<noteq> None" if "j < bin_count (of_int m)" for w j
  proof -
    have j: "0 \<le> int j" "int j + 1 \<le> m" using that bn(2) by (simp_all add: bin_count_def)
    obtain sa where "tick_to_sqrt (lo + int j * ?step) = Some sa"
      using tick_to_sqrt_Some inside [of "int j"] j by auto
    moreover obtain sb where "tick_to_sqrt (if of_nat j = (of_int m :: rat) - 1 then ?hi else lo + int j * ?step + ?step) = Some sb"
    proof (cases "of_nat j = (of_int m :: rat) - 1")
      case True
      have "min_tick \<le> ?hi" using rng s(1) by (simp add: order_trans [OF rng(3)])
      with rng(4) tick_to_sqrt_Some True show ?thesis using that by auto
    next
      case False
      have e: "lo + int j * ?step + ?step = lo + (int j + 1) * ?step" by (simp add: distrib_right)
      obtain sb where "tick_to_sqrt (lo + (int j + 1) * ?step) = Some sb"
        using inside [of "int j + 1"] j tick_to_sqrt_Some by auto
      then show ?thesis using that [of sb] False by (simp only: e if_False)
    qed
    ultimately show ?thesis by (simp add: make_bin_def Let_def)
  qed
  then have "make_bins lo ?hi ?step (of_int m) ?ws \<noteq> None" by (auto simp: make_bins_def all_of_def) (metis option.distinct(1))
  then obtain bs where bs: "make_bins lo ?hi ?step (of_int m) ?ws = Some bs" by blast
  note pos = tick_to_sqrt_pos [OF sp]
  note placed = make_bins_placed [OF bs shape_weights_ok(1) [OF assms(2)]] shape_weights_ok(2) [OF assms(2)]
  have pl: "\<forall>b \<in> set bs. placed b" "length bs = bin_count (of_int m)" using placed by blast+
  have len: "length bs \<le> 40" using bin_count_bound [of i] bn(1) pl(2) by simp
  from fit_within [OF pos pl(1) len assms(3,4) refl] needs_drawn [OF pos pl(1)] show ?thesis
    using s(1) by (auto simp: plan_ladder_def rng(1) bn(1) sp bs Let_def)
qed

lemma plan_facts:
  assumes "plan_ladder ex i = Some p" "\<forall>x. 0 \<le> ex x" "0 \<le> pi_budget0 i" "0 \<le> pi_budget1 i"
  shows "pl_total0 p = (\<Sum>r\<leftarrow>pl_rungs p. rg_amount0 r) \<and> pl_total1 p = (\<Sum>r\<leftarrow>pl_rungs p. rg_amount1 r) \<and>
    pl_total0 p \<le> pi_budget0 i \<and> pl_total1 p \<le> pi_budget1 i \<and>
    (\<exists>sp. tick_to_sqrt (pi_tick i) = Some sp \<and> (\<forall>r \<in> set (pl_rungs p). rung_ok sp (slip_bps (pi_slip i)) r))"
proof -
  obtain lo hi bins step where rng: "plan_range i = (lo, hi)" and bn: "plan_bins i = (bins, step)" by fastforce
  let ?ws = "shape_weights ex (pi_shape i) bins (plan_centre i)"
  from assms(1) rng bn obtain sp bs n rs where sp: "tick_to_sqrt (pi_tick i) = Some sp"
    and bs: "make_bins lo hi step bins ?ws = Some bs" and n: "needs sp bs = Some n"
    and rs: "fit_rungs i sp bs (plan_scale_of i n) = Some rs"
    and p: "pl_rungs p = rs" "pl_total0 p = total0 rs" "pl_total1 p = total1 rs"
    by (auto simp: plan_ladder_def bind_eq_Some_conv Let_def split: if_splits)
  note pos = tick_to_sqrt_pos [OF sp]
  note placed = make_bins_placed [OF bs shape_weights_ok(1) [OF assms(2)]] shape_weights_ok(2) [OF assms(2)]
  have pl: "\<forall>b \<in> set bs. placed b" "length bs = bin_count bins" using placed by blast+
  have len: "length bs \<le> 40" using bin_count_bound [of i] bn pl(2) by simp
  have n': "n = (drawn (need_of0 sp) bs 1 1, drawn (need_of1 sp) bs 1 1)" using needs_drawn [OF pos pl(1)] n by simp
  from fit_within [OF pos pl(1) len assms(3,4) n'] rs
  have "\<not> over (pi_budget0 i) (pi_budget1 i) rs" "\<forall>r \<in> set rs. rung_ok sp (slip_bps (pi_slip i)) r" by auto
  then show ?thesis using sp p by (auto simp: over_def total0_def total1_def not_less)
qed

text \<open>
  C17: Whatever the range, the shape, the price and the two budgets, a ladder that is planned keeps to the
  budgets: the totals are the sums over the rungs and neither exceeds what the user was willing to spend,
  although every rung is rounded up. Each rung has liquidity, sits between two ticks of the chain, asks for
  exactly the amounts its liquidity holds at the current price, and for minimums that are those amounts
  less the slippage. A range that stays a spacing inside the ticks of the chain is always planned.
\<close>

theorem ladder_within_budgets:
  assumes "\<forall>x. 0 \<le> ex x" "0 \<le> pi_budget0 i" "0 \<le> pi_budget1 i"
  shows "(inner_range i \<longrightarrow> plan_ladder ex i \<noteq> None) \<and>
    (\<forall>p. plan_ladder ex i = Some p \<longrightarrow>
       pl_total0 p = (\<Sum>r\<leftarrow>pl_rungs p. rg_amount0 r) \<and> pl_total1 p = (\<Sum>r\<leftarrow>pl_rungs p. rg_amount1 r) \<and>
       pl_total0 p \<le> pi_budget0 i \<and> pl_total1 p \<le> pi_budget1 i \<and>
       (\<exists>sp. tick_to_sqrt (pi_tick i) = Some sp \<and> (\<forall>r \<in> set (pl_rungs p). rung_ok sp (slip_bps (pi_slip i)) r)))"
  using plan_exists [OF _ assms] plan_facts [OF _ assms] by blast

definition demo_ladder :: plan_input where
  "demo_ladder = \<lparr>pi_tick = 0, pi_spacing = 1, pi_min = - 1, pi_max = 1, pi_bins = 1, pi_shape = Spot, pi_budget0 = 1000, pi_budget1 = 700, pi_slip = None\<rparr>"

theorem ladder_within_budgets_witness:
  "\<exists>p. plan_ladder (\<lambda>_. 0) demo_ladder = Some p \<and> pl_rungs p \<noteq> [] \<and> pl_total0 p \<le> 1000 \<and> pl_total1 p \<le> 700"
proof -
  have "map_option (\<lambda>p. length (pl_rungs p)) (plan_ladder (\<lambda>_. 0) demo_ladder) = Some 1" by code_simp
  then obtain p where p: "plan_ladder (\<lambda>_. 0) demo_ladder = Some p" "length (pl_rungs p) = 1" by auto
  from ladder_within_budgets [of "\<lambda>_. 0" demo_ladder] p show ?thesis by (auto simp: demo_ladder_def)
qed

text \<open>
  The grid is not kept at the ends of the range: the clamp of \<^const>\<open>align_tick\<close> gives a tick that is no
  multiple of the spacing, and so are all ticks of a full-range ladder.
\<close>

lemma clamped_tick_off_grid: "align_tick min_tick 60 DirDown = min_tick \<and> \<not> 60 dvd min_tick"
  by code_simp

end
