(* ===== verification/SplitLadder.thy ===== *)
theory SplitLadder
  imports LadderPlan
begin

text \<open>
  The split allocation (\<open>splitLadder\<close>, \<open>allocateRungs\<close>, \<open>packages/core/src/liquidity.ts\<close>): a range cut
  into bins on the grid, and each token's whole budget spread over the bins that can hold it.
\<close>

section \<open>Cutting the range\<close>

record split_input =
  si_tick :: int
  si_spacing :: int
  si_min :: int
  si_max :: int
  si_bins :: rat
  si_shape :: shape
  si_budget0 :: int
  si_budget1 :: int

definition to_grid :: "int \<Rightarrow> int \<Rightarrow> int" where
  "to_grid sp t = js_round (of_int t / of_int sp) * sp"

definition cut_at :: "int \<Rightarrow> int \<Rightarrow> int \<Rightarrow> nat \<Rightarrow> nat \<Rightarrow> int" where
  "cut_at lo sp spacings n k = lo + \<lfloor>of_int (spacings * int k) / of_nat n :: rat\<rfloor> * sp"

definition split_bounds :: "split_input \<Rightarrow> (int \<times> int) list" where
  "split_bounds i =
     (let sp = si_spacing i; lo = to_grid sp (min (si_min i) (si_max i)); hi = to_grid sp (max (si_min i) (si_max i)) in
      if \<not> hi > lo then []
      else let spacings = js_round (of_int (hi - lo) / of_int sp);
               b = \<lfloor>si_bins i\<rfloor>; n = nat (max 1 (min (if b = 0 then 1 else b) spacings)) in
           filter (\<lambda>(a, b). a < b) (map (\<lambda>k. (cut_at lo sp spacings n k, cut_at lo sp spacings n (k + 1))) [0..<n]))"

section \<open>Spreading the budgets\<close>

datatype rung_side = OnlyToken0 | OnlyToken1 | BothTokens

record split_rung =
  sr_index :: nat
  sr_lower :: int
  sr_upper :: int
  sr_side :: rung_side
  sr_weight :: rat
  sr_amount0 :: int
  sr_amount1 :: int

definition side_of :: "int \<Rightarrow> int \<times> int \<Rightarrow> rung_side" where
  "side_of tick b = (if tick \<ge> snd b then OnlyToken1 else if tick < fst b then OnlyToken0 else BothTokens)"

definition anchor_of :: "int \<Rightarrow> (int \<times> int) list \<Rightarrow> nat" where
  "anchor_of tick bs =
     (case find (\<lambda>k. side_of tick (bs ! k) = BothTokens) [0..<length bs] of
        Some k \<Rightarrow> k
      | None \<Rightarrow> if tick \<ge> snd (last bs) then length bs - 1 else 0)"

definition reach_of :: "nat \<Rightarrow> rat \<Rightarrow> rat" where
  "reach_of n x = max (max x (of_nat n - 1 - x)) 1"

definition rung_weight :: "shape \<Rightarrow> nat \<Rightarrow> nat \<Rightarrow> nat \<Rightarrow> rat" where
  "rung_weight sh n anchor k =
     (let mid = (of_nat n - 1) / 2 in
      case sh of Spot \<Rightarrow> 1
      | Curve \<Rightarrow> max (2 / 100) (1 - \<bar>of_nat k - mid\<bar> / (reach_of n mid + 1))
      | BidAsk \<Rightarrow> max (2 / 100) (\<bar>of_nat k - of_nat anchor\<bar> / reach_of n (of_nat anchor)))"

definition share_weight :: "rat \<Rightarrow> int" where "share_weight w = max 1 (js_round (w * 1000000))"

text \<open>Each takes its share rounded down, and the last one whatever is left.\<close>

fun share_loop :: "int \<Rightarrow> int \<Rightarrow> int \<Rightarrow> int list \<Rightarrow> int list" where
  "share_loop budget wsum given [] = []"
| "share_loop budget wsum given [w] = [budget - given]"
| "share_loop budget wsum given (w # v # ws) =
     (let amt = tdiv (budget * w) wsum in amt # share_loop budget wsum (given + amt) (v # ws))"

definition shares :: "int \<Rightarrow> rat list \<Rightarrow> int list" where
  "shares budget ws =
     (if budget = 0 then map (\<lambda>_. 0) ws
      else let v = map share_weight ws in share_loop budget (sum_list v) 0 v)"

fun hand_out :: "('a \<Rightarrow> bool) \<Rightarrow> (int \<Rightarrow> 'a \<Rightarrow> 'a) \<Rightarrow> 'a list \<Rightarrow> int list \<Rightarrow> 'a list" where
  "hand_out P f [] as = []"
| "hand_out P f (r # rs) as =
     (if P r then (case as of [] \<Rightarrow> r # hand_out P f rs [] | a # as' \<Rightarrow> f a r # hand_out P f rs as') else r # hand_out P f rs as)"

definition share_out :: "(split_rung \<Rightarrow> bool) \<Rightarrow> (int \<Rightarrow> split_rung \<Rightarrow> split_rung) \<Rightarrow> int \<Rightarrow> split_rung list \<Rightarrow> split_rung list" where
  "share_out P f budget rs = hand_out P f rs (shares budget (map sr_weight (filter P rs)))"

definition set0 :: "int \<Rightarrow> split_rung \<Rightarrow> split_rung" where "set0 a r = r\<lparr>sr_amount0 := a\<rparr>"
definition set1 :: "int \<Rightarrow> split_rung \<Rightarrow> split_rung" where "set1 a r = r\<lparr>sr_amount1 := a\<rparr>"

definition bare_rungs :: "(int \<times> int) list \<Rightarrow> int \<Rightarrow> shape \<Rightarrow> split_rung list" where
  "bare_rungs bs tick sh =
     map (\<lambda>k. \<lparr>sr_index = k, sr_lower = fst (bs ! k), sr_upper = snd (bs ! k), sr_side = side_of tick (bs ! k),
              sr_weight = rung_weight sh (length bs) (anchor_of tick bs) k, sr_amount0 = 0, sr_amount1 = 0\<rparr>) [0..<length bs]"

definition funded_rungs :: "(int \<times> int) list \<Rightarrow> int \<Rightarrow> shape \<Rightarrow> int \<Rightarrow> int \<Rightarrow> split_rung list" where
  "funded_rungs bs tick sh b0 b1 =
     share_out (\<lambda>r. sr_side r \<noteq> OnlyToken0) set1 b1 (share_out (\<lambda>r. sr_side r \<noteq> OnlyToken1) set0 b0 (bare_rungs bs tick sh))"

definition allocate_rungs :: "(int \<times> int) list \<Rightarrow> int \<Rightarrow> shape \<Rightarrow> int \<Rightarrow> int \<Rightarrow> split_rung list" where
  "allocate_rungs bs tick sh b0 b1 =
     filter (\<lambda>r. (sr_amount0 r > 0 \<or> sr_amount1 r > 0) \<and> (sr_side r \<noteq> BothTokens \<or> (sr_amount0 r > 0 \<and> sr_amount1 r > 0)))
       (funded_rungs bs tick sh b0 b1)"

definition split_ladder :: "split_input \<Rightarrow> split_rung list" where
  "split_ladder i = allocate_rungs (split_bounds i) (si_tick i) (si_shape i) (si_budget0 i) (si_budget1 i)"

section \<open>A share is exact\<close>

lemma share_weight_pos: "0 < share_weight w"
  by (simp add: share_weight_def)

lemma share_loop_exact:
  assumes "ws \<noteq> []" "\<forall>w \<in> set ws. 0 < w" "0 < wsum" "0 \<le> budget" "given * wsum \<le> budget * (wsum - sum_list ws)"
  shows "length (share_loop budget wsum given ws) = length ws \<and> sum_list (share_loop budget wsum given ws) = budget - given \<and>
    (\<forall>a \<in> set (share_loop budget wsum given ws). 0 \<le> a)"
  using assms
proof (induction budget wsum given ws rule: share_loop.induct)
  case (2 budget wsum given w)
  have "given * wsum \<le> budget * (wsum - w)" using 2 by simp
  also have "\<dots> \<le> budget * wsum" using 2 by (intro mult_left_mono) simp_all
  finally have "given \<le> budget" using 2 by simp
  then show ?case by simp
next
  case (3 budget wsum given w v ws)
  let ?amt = "tdiv (budget * w) wsum"
  have amt: "0 \<le> ?amt" "?amt * wsum \<le> budget * w" using 3 by (simp_all add: tdiv_nonneg_ge0 tdiv_le)
  have "(given + ?amt) * wsum \<le> budget * (wsum - sum_list (v # ws))"
    using 3(6) amt(2) by (simp add: algebra_simps)
  with 3 amt(1) show ?case by (simp add: Let_def)
qed simp

lemma shares_exact:
  assumes "0 \<le> budget" "ws \<noteq> []"
  shows "length (shares budget ws) = length ws" "sum_list (shares budget ws) = budget" "\<forall>a \<in> set (shares budget ws). 0 \<le> a"
proof -
  let ?v = "map share_weight ws"
  have v: "?v \<noteq> []" "\<forall>w \<in> set ?v. 0 < w" using assms(2) share_weight_pos by auto
  have "0 < sum_list ?v" using assms(2)
    by (induction ws rule: list_nonempty_induct) (auto simp: share_weight_pos intro!: add_pos_pos)
  from share_loop_exact [OF v this assms(1), of 0]
  show "length (shares budget ws) = length ws" "sum_list (shares budget ws) = budget" "\<forall>a \<in> set (shares budget ws). 0 \<le> a"
    by (auto simp: shares_def Let_def)
qed

lemma shares_Nil [simp]: "shares budget [] = []"
  by (simp add: shares_def Let_def)

lemma share_out_sum:
  assumes "0 \<le> budget" "\<And>r a. g (f a r) = a" "\<And>r. r \<in> set rs \<Longrightarrow> g r = 0"
  shows "(\<Sum>r\<leftarrow>share_out P f budget rs. g r) = (if filter P rs = [] then 0 else budget)"
    and "r \<in> set (share_out P f budget rs) \<Longrightarrow> 0 \<le> g r"
proof -
  have sum: "length as = length (filter P rs) \<Longrightarrow> (\<And>r. r \<in> set rs \<Longrightarrow> g r = 0) \<Longrightarrow> (\<Sum>r\<leftarrow>hand_out P f rs as. g r) = sum_list as" for as rs
    by (induction rs arbitrary: as) (auto simp: assms(2) split: list.splits)
  have nonneg: "\<forall>a \<in> set as. 0 \<le> a \<Longrightarrow> (\<And>r. r \<in> set rs \<Longrightarrow> g r = 0) \<Longrightarrow> \<forall>r \<in> set (hand_out P f rs as). 0 \<le> g r" for as rs
    by (induction rs arbitrary: as) (auto simp: assms(2) split: list.splits)
  show "(\<Sum>r\<leftarrow>share_out P f budget rs. g r) = (if filter P rs = [] then 0 else budget)"
  proof (cases "filter P rs = []")
    case True
    then show ?thesis using sum [of "[]" rs] assms(3) by (simp add: share_out_def)
  next
    case False
    then show ?thesis using shares_exact [OF assms(1), of "map sr_weight (filter P rs)"] sum assms(3) by (simp add: share_out_def)
  qed
  show "0 \<le> g r" if "r \<in> set (share_out P f budget rs)"
  proof (cases "filter P rs = []")
    case True
    then show ?thesis using nonneg [of "[]" rs] assms(3) that by (simp add: share_out_def)
  next
    case False
    then have "map sr_weight (filter P rs) \<noteq> []" by simp
    from nonneg [OF shares_exact(3) [OF assms(1) this] assms(3)] that show ?thesis by (simp add: share_out_def)
  qed
qed

text \<open>What a share does not touch.\<close>

lemma hand_out_keeps:
  assumes "\<And>r a. h (f a r) = h r"
  shows "map h (hand_out P f rs as) = map h rs"
  by (induction rs arbitrary: as) (auto simp: assms split: list.splits)

lemma hand_out_only:
  assumes "\<And>r a. P (f a r) = P r" "r \<in> set (hand_out P f rs as)" "\<not> P r"
  shows "r \<in> set rs"
  using assms(2,3) by (induction rs arbitrary: as) (auto simp: assms(1) split: if_splits list.splits)

section \<open>The bins tile the range\<close>

lemma cut_steps:
  assumes "0 < n" "int n \<le> spacings" "0 < sp"
  shows "cut_at lo sp spacings n 0 = lo" "cut_at lo sp spacings n n = lo + spacings * sp"
    "cut_at lo sp spacings n k < cut_at lo sp spacings n (k + 1)"
proof -
  show "cut_at lo sp spacings n 0 = lo" by (simp add: cut_at_def)
  have "of_int (spacings * int n) / of_nat n = (of_int spacings :: rat)" using assms(1) by simp
  then show "cut_at lo sp spacings n n = lo + spacings * sp" unfolding cut_at_def by simp
  have "(1 :: rat) \<le> of_int spacings / of_nat n" using assms(1,2) by (simp add: pos_le_divide_eq)
  moreover have "of_int (spacings * int (k + 1)) / of_nat n = of_int (spacings * int k) / of_nat n + (of_int spacings / of_nat n :: rat)"
    by (simp add: distrib_left add_divide_distrib)
  ultimately have "of_int (spacings * int k) / of_nat n + 1 \<le> (of_int (spacings * int (k + 1)) / of_nat n :: rat)" by linarith
  then have "\<lfloor>of_int (spacings * int k) / of_nat n + 1 :: rat\<rfloor> \<le> \<lfloor>of_int (spacings * int (k + 1)) / of_nat n :: rat\<rfloor>" by (rule floor_mono)
  then have "\<lfloor>of_int (spacings * int k) / of_nat n :: rat\<rfloor> < \<lfloor>of_int (spacings * int (k + 1)) / of_nat n :: rat\<rfloor>" by linarith
  then show "cut_at lo sp spacings n k < cut_at lo sp spacings n (k + 1)" using assms(3) by (simp add: cut_at_def)
qed

definition tiles :: "int \<Rightarrow> int \<Rightarrow> int \<Rightarrow> (int \<times> int) list \<Rightarrow> bool" where
  "tiles sp lo hi bs \<longleftrightarrow>
     bs \<noteq> [] \<and> fst (hd bs) = lo \<and> snd (last bs) = hi \<and> (\<forall>k. Suc k < length bs \<longrightarrow> snd (bs ! k) = fst (bs ! Suc k)) \<and>
     (\<forall>(a, b) \<in> set bs. a < b \<and> sp dvd a \<and> sp dvd b)"

lemma split_bounds_tile:
  assumes "0 < si_spacing i"
    and "lo = to_grid (si_spacing i) (min (si_min i) (si_max i))" "hi = to_grid (si_spacing i) (max (si_min i) (si_max i))" "lo < hi"
  shows "tiles (si_spacing i) lo hi (split_bounds i)"
proof -
  let ?sp = "si_spacing i"
  define spacings where "spacings = js_round (of_int (hi - lo) / of_int ?sp)"
  define n where "n = nat (max 1 (min (if \<lfloor>si_bins i\<rfloor> = 0 then 1 else \<lfloor>si_bins i\<rfloor>) spacings))"
  have dvd: "?sp dvd lo" "?sp dvd hi" using assms(2,3) by (simp_all add: to_grid_def)
  then obtain m where m: "hi - lo = m * ?sp" by (metis dvd_diff dvd_def mult.commute)
  have sp: "spacings = m"
  proof -
    have "of_int (hi - lo) / of_int ?sp = (of_int m :: rat)" using assms(1) m by simp
    moreover have "\<lfloor>(of_int m :: rat) + 1 / 2\<rfloor> = m" by linarith
    ultimately show ?thesis by (simp add: spacings_def js_round_def)
  qed
  have "0 < m" using assms(1,4) m by (metis diff_gt_0_iff_gt zero_less_mult_pos2)
  then have n: "0 < n" "int n \<le> spacings" by (simp_all add: n_def sp)
  note steps = cut_steps [OF n assms(1), of lo]
  define cuts where "cuts = map (\<lambda>k. (cut_at lo ?sp spacings n k, cut_at lo ?sp spacings n (k + 1))) [0..<n]"
  have "filter (\<lambda>(a, b). a < b) cuts = cuts" using steps(3) by (auto simp: cuts_def intro!: filter_True)
  then have bs: "split_bounds i = cuts"
    using assms(4) unfolding split_bounds_def Let_def assms(2) [symmetric] assms(3) [symmetric] spacings_def [symmetric] n_def [symmetric] cuts_def by simp
  have "lo + spacings * ?sp = hi" using m sp by simp
  moreover have "hd cuts = (cut_at lo ?sp spacings n 0, cut_at lo ?sp spacings n 1)" using n(1) by (simp add: cuts_def hd_map)
  moreover have "last cuts = (cut_at lo ?sp spacings n (n - 1), cut_at lo ?sp spacings n n)" using n(1) by (simp add: cuts_def last_map)
  moreover have "?sp dvd cut_at lo ?sp spacings n k" for k using dvd(1) by (simp add: cut_at_def)
  ultimately show ?thesis
    using steps n(1) by (auto simp: bs tiles_def) (auto simp: cuts_def)
qed

section \<open>The budgets are spent\<close>

lemma bare_simps:
  "map (\<lambda>r. (sr_lower r, sr_upper r)) (bare_rungs bs tick sh) = bs"
  "r \<in> set (bare_rungs bs tick sh) \<Longrightarrow> sr_amount0 r = 0 \<and> sr_amount1 r = 0"
  "map sr_side (bare_rungs bs tick sh) = map (side_of tick) bs"
  by (auto simp: bare_rungs_def comp_def map_nth intro: nth_equalityI)

definition rung_split_ok :: "split_rung \<Rightarrow> bool" where
  "rung_split_ok r \<longleftrightarrow>
     (case sr_side r of
        OnlyToken0 \<Rightarrow> 0 < sr_amount0 r \<and> sr_amount1 r = 0
      | OnlyToken1 \<Rightarrow> sr_amount0 r = 0 \<and> 0 < sr_amount1 r
      | BothTokens \<Rightarrow> 0 < sr_amount0 r \<and> 0 < sr_amount1 r)"

lemma funded_facts:
  assumes "0 \<le> b0" "0 \<le> b1" "fs = funded_rungs bs tick sh b0 b1"
  shows "map (\<lambda>r. (sr_lower r, sr_upper r)) fs = bs" "map sr_side fs = map (side_of tick) bs"
    "(\<Sum>r\<leftarrow>fs. sr_amount0 r) = (if \<forall>b \<in> set bs. side_of tick b = OnlyToken1 then 0 else b0)"
    "(\<Sum>r\<leftarrow>fs. sr_amount1 r) = (if \<forall>b \<in> set bs. side_of tick b = OnlyToken0 then 0 else b1)"
    "r \<in> set fs \<Longrightarrow> 0 \<le> sr_amount0 r \<and> 0 \<le> sr_amount1 r \<and> (sr_side r = OnlyToken1 \<longrightarrow> sr_amount0 r = 0) \<and> (sr_side r = OnlyToken0 \<longrightarrow> sr_amount1 r = 0)"
proof -
  let ?P0 = "\<lambda>r. sr_side r \<noteq> OnlyToken1" and ?P1 = "\<lambda>r. sr_side r \<noteq> OnlyToken0" and ?bare = "bare_rungs bs tick sh"
  define r0 where "r0 = share_out ?P0 set0 b0 ?bare"
  have fs: "fs = share_out ?P1 set1 b1 r0" by (simp add: assms(3) funded_rungs_def r0_def)
  have keep0: "map h r0 = map h ?bare" if "\<And>r a. h (set0 a r) = h r" for h :: "split_rung \<Rightarrow> 'x"
    unfolding r0_def share_out_def by (rule hand_out_keeps) (rule that)
  have keep1: "map h fs = map h r0" if "\<And>r a. h (set1 a r) = h r" for h :: "split_rung \<Rightarrow> 'x"
    unfolding fs share_out_def by (rule hand_out_keeps) (rule that)
  have z0: "sr_amount0 r = 0" if "r \<in> set ?bare" for r using bare_simps(2) that by blast
  have z1: "sr_amount1 r = 0" if "r \<in> set r0" for r
  proof -
    have "map sr_amount1 r0 = map sr_amount1 ?bare" by (rule keep0) (simp add: set0_def)
    then have "sr_amount1 ` set r0 = sr_amount1 ` set ?bare" by (metis list.set_map)
    with that bare_simps(2) show ?thesis by (metis imageE imageI)
  qed
  have sides0: "map sr_side r0 = map (side_of tick) bs" using keep0 [of sr_side] bare_simps(3) by (simp add: set0_def)
  show sides: "map sr_side fs = map (side_of tick) bs" using keep1 [of sr_side] sides0 by (simp add: set1_def)
  show "map (\<lambda>r. (sr_lower r, sr_upper r)) fs = bs"
    using keep1 [of "\<lambda>r. (sr_lower r, sr_upper r)"] keep0 [of "\<lambda>r. (sr_lower r, sr_upper r)"] bare_simps(1) by (simp add: set0_def set1_def)
  have empty: "filter (\<lambda>r. sr_side r \<noteq> x) xs = [] \<longleftrightarrow> (\<forall>b \<in> set bs. side_of tick b = x)" if "map sr_side xs = map (side_of tick) bs" for x xs
  proof -
    have "sr_side ` set xs = side_of tick ` set bs" using that by (metis list.set_map)
    then show ?thesis by (auto simp: filter_empty_conv)
  qed
  have m0: "map sr_amount0 fs = map sr_amount0 r0" by (rule keep1) (simp add: set1_def)
  have "(\<Sum>r\<leftarrow>r0. sr_amount0 r) = (if filter ?P0 ?bare = [] then 0 else b0)"
    unfolding r0_def by (rule share_out_sum(1) [OF assms(1)]) (simp_all add: set0_def z0)
  then show "(\<Sum>r\<leftarrow>fs. sr_amount0 r) = (if \<forall>b \<in> set bs. side_of tick b = OnlyToken1 then 0 else b0)"
    using empty [OF bare_simps(3), of OnlyToken1] m0 by simp
  have "(\<Sum>r\<leftarrow>fs. sr_amount1 r) = (if filter ?P1 r0 = [] then 0 else b1)"
    unfolding fs by (rule share_out_sum(1) [OF assms(2)]) (simp_all add: set1_def z1)
  then show "(\<Sum>r\<leftarrow>fs. sr_amount1 r) = (if \<forall>b \<in> set bs. side_of tick b = OnlyToken0 then 0 else b1)"
    using empty [OF sides0, of OnlyToken0] by simp
  have n0: "0 \<le> sr_amount0 r \<and> (sr_side r = OnlyToken1 \<longrightarrow> sr_amount0 r = 0)" if "r \<in> set r0" for r
  proof
    show "0 \<le> sr_amount0 r" using that unfolding r0_def by (rule share_out_sum(2) [OF assms(1), rotated -1]) (simp_all add: set0_def z0)
    show "sr_side r = OnlyToken1 \<longrightarrow> sr_amount0 r = 0"
      using hand_out_only [of ?P0 set0 r ?bare] that z0 unfolding r0_def share_out_def by (auto simp: set0_def)
  qed
  show "0 \<le> sr_amount0 r \<and> 0 \<le> sr_amount1 r \<and> (sr_side r = OnlyToken1 \<longrightarrow> sr_amount0 r = 0) \<and> (sr_side r = OnlyToken0 \<longrightarrow> sr_amount1 r = 0)"
    if "r \<in> set fs" for r
  proof -
    have "map (\<lambda>r. (sr_side r, sr_amount0 r)) fs = map (\<lambda>r. (sr_side r, sr_amount0 r)) r0" by (rule keep1) (simp add: set1_def)
    then have "(\<lambda>r. (sr_side r, sr_amount0 r)) ` set fs = (\<lambda>r. (sr_side r, sr_amount0 r)) ` set r0" by (metis list.set_map)
    with that have "(sr_side r, sr_amount0 r) \<in> (\<lambda>r. (sr_side r, sr_amount0 r)) ` set r0" by (metis (mono_tags, lifting) imageI)
    then obtain r' where r': "r' \<in> set r0" "sr_side r = sr_side r'" "sr_amount0 r = sr_amount0 r'" by auto
    have "0 \<le> sr_amount1 r" using that unfolding fs by (rule share_out_sum(2) [OF assms(2), rotated -1]) (simp_all add: set1_def z1)
    moreover have "sr_side r = OnlyToken0 \<longrightarrow> sr_amount1 r = 0"
      using hand_out_only [of ?P1 set1 r r0] that z1 unfolding fs share_out_def by (auto simp: set1_def)
    ultimately show ?thesis using n0 [OF r'(1)] r'(2,3) by simp
  qed
qed

lemma filter_sum_le:
  fixes g :: "'a \<Rightarrow> int"
  assumes "\<And>r. r \<in> set rs \<Longrightarrow> 0 \<le> g r"
  shows "(\<Sum>r\<leftarrow>filter P rs. g r) \<le> (\<Sum>r\<leftarrow>rs. g r)"
  using assms
proof (induction rs)
  case (Cons r rs)
  have "0 \<le> g r" "(\<Sum>r\<leftarrow>filter P rs. g r) \<le> (\<Sum>r\<leftarrow>rs. g r)" using Cons by simp_all
  then show ?case by simp
qed simp


definition demo_split :: split_input where
  "demo_split = \<lparr>si_tick = 3, si_spacing = 10, si_min = - 20, si_max = 20, si_bins = 4, si_shape = BidAsk, si_budget0 = 100, si_budget1 = 70\<rparr>"


text \<open>
  A straddling bin that gets only one token is left out, and its share of that budget is not spent: here
  the whole of 100 of token 0 was meant to be, and 50 are.
\<close>

lemma straddling_share_unspent:
  "map (\<lambda>r. (sr_amount0 r, sr_amount1 r))
     (split_ladder \<lparr>si_tick = 3, si_spacing = 10, si_min = 0, si_max = 20, si_bins = 2, si_shape = Spot, si_budget0 = 100, si_budget1 = 0\<rparr>) = [(50, 0)]"
  by code_simp

end
