(* ===== verification/Stealth.thy ===== *)
theory Stealth
  imports HexWords
begin

text \<open>
  Stealth addresses (\<open>packages/core/src/stealth.ts\<close>): the two keys of a recipient from one signature, the
  meta-address, the one-time address a sender pays, the recipient's check of an announcement, the key that
  spends it, and the metadata of an announcement. The curve and the hash are a library's and a parameter
  of the model; \<^const>\<open>None\<close> is an exception.
\<close>

section \<open>The curve and the hash\<close>

record 'p crypto =
  cr_order :: int
  cr_base :: "int \<Rightarrow> 'p"
  cr_plus :: "'p \<Rightarrow> 'p \<Rightarrow> 'p"
  cr_decode :: "string \<Rightarrow> 'p option"
  cr_raw :: "'p \<Rightarrow> nat list"
  cr_public :: "nat list \<Rightarrow> nat list option"
  cr_shared :: "nat list \<Rightarrow> nat list \<Rightarrow> nat list option"
  cr_keccak :: "string \<Rightarrow> string"
  cr_checksum :: "string \<Rightarrow> string"

section \<open>Bytes and scalars\<close>

definition no_prefix :: "string \<Rightarrow> string" where
  "no_prefix h = (if starts_with ''0x'' h then drop 2 h else h)"

definition hex_to_bytes :: "string \<Rightarrow> nat list" where
  "hex_to_bytes h =
     (let s = no_prefix h in
      map (\<lambda>i. case parse_int16 (str_slice (i * 2) (i * 2 + 2) s) of None \<Rightarrow> 0 | Some v \<Rightarrow> nat (v mod 256)) [0..<length s div 2])"

definition bytes_to_hex :: "nat list \<Rightarrow> string" where
  "bytes_to_hex bs = ''0x'' @ concat (map (\<lambda>b. hex_word 2 (int b)) bs)"

definition to_scalar :: "'p crypto \<Rightarrow> string \<Rightarrow> int option" where
  "to_scalar cr h = Option.bind (big_int h) (\<lambda>n. let v = n mod cr_order cr in if v = 0 then None else Some v)"

definition scalar_to_hex :: "int \<Rightarrow> string" where
  "scalar_to_hex v = ''0x'' @ hex_word 64 v"

definition get_address :: "'p crypto \<Rightarrow> string \<Rightarrow> string option" where
  "get_address cr s = (if is_hex 40 s then Some (cr_checksum cr s) else None)"

definition public_key_to_address :: "'p crypto \<Rightarrow> nat list \<Rightarrow> string option" where
  "public_key_to_address cr u =
     (let body = (if length u = 65 then tl u else u); h = cr_keccak cr (bytes_to_hex body) in
      get_address cr (''0x'' @ drop (length h - 40) h))"

section \<open>The recipient's keys\<close>

record stealth_keys =
  sk_spending_private :: string
  sk_viewing_private :: string
  sk_spending_public :: string
  sk_viewing_public :: string
  sk_meta :: string

definition encode_meta_address :: "string \<Rightarrow> string \<Rightarrow> string" where
  "encode_meta_address sp vp = ''st:rho:0x'' @ drop 2 sp @ drop 2 vp"

definition from_private_keys :: "'p crypto \<Rightarrow> string \<Rightarrow> string \<Rightarrow> stealth_keys option" where
  "from_private_keys cr s v =
     Option.bind (cr_public cr (hex_to_bytes s)) (\<lambda>sp.
     Option.bind (cr_public cr (hex_to_bytes v)) (\<lambda>vp.
       Some \<lparr>sk_spending_private = s, sk_viewing_private = v, sk_spending_public = bytes_to_hex sp, sk_viewing_public = bytes_to_hex vp,
             sk_meta = encode_meta_address (bytes_to_hex sp) (bytes_to_hex vp)\<rparr>))"

definition keys_from_signature :: "'p crypto \<Rightarrow> string \<Rightarrow> stealth_keys option" where
  "keys_from_signature cr sig =
     (if \<not> is_hex 130 sig then None
      else let seed = cr_keccak cr sig in
           Option.bind (to_scalar cr (cr_keccak cr (seed @ ''00''))) (\<lambda>s.
           Option.bind (to_scalar cr (cr_keccak cr (seed @ ''01''))) (\<lambda>v.
             from_private_keys cr (scalar_to_hex s) (scalar_to_hex v))))"

text \<open>The pattern \<open>^st:[a-z0-9]+:\<close>, in any case.\<close>

definition alnum :: "char \<Rightarrow> bool" where
  "alnum c = (let n = (of_char (lower_char c) :: nat) in 48 \<le> n \<and> n \<le> 57 \<or> 97 \<le> n \<and> n \<le> 122)"

definition strip_scheme :: "string \<Rightarrow> string" where
  "strip_scheme s =
     (if \<not> starts_with ''st:'' (lower s) then s
      else let name = takeWhile alnum (drop 3 s); rest = drop (3 + length name) s in
           if name \<noteq> [] \<and> starts_with '':'' rest then tl rest else s)"

definition parse_meta_address :: "'p crypto \<Rightarrow> string \<Rightarrow> (string \<times> string) option" where
  "parse_meta_address cr meta =
     (let body = strip_scheme (trim meta) in
      if \<not> is_hex 132 body then None
      else let sp = ''0x'' @ str_slice 2 68 body; vp = ''0x'' @ str_slice 68 134 body in
           if cr_decode cr (drop 2 sp) = None \<or> cr_decode cr (drop 2 vp) = None then None else Some (sp, vp))"

section \<open>Paying and finding\<close>

definition shared_secret_hash :: "'p crypto \<Rightarrow> string \<Rightarrow> string \<Rightarrow> string option" where
  "shared_secret_hash cr priv pub =
     map_option (\<lambda>sh. cr_keccak cr (bytes_to_hex (drop 1 sh))) (cr_shared cr (hex_to_bytes priv) (hex_to_bytes pub))"

definition view_tag_of :: "string \<Rightarrow> int" where
  "view_tag_of hashed = num_val 16 0 (str_slice 2 4 hashed)"

definition stealth_address :: "'p crypto \<Rightarrow> string \<Rightarrow> string \<Rightarrow> string option" where
  "stealth_address cr spending_public hashed =
     Option.bind (cr_decode cr (drop 2 spending_public)) (\<lambda>p.
     Option.bind (to_scalar cr hashed) (\<lambda>h.
       public_key_to_address cr (cr_raw cr (cr_plus cr p (cr_base cr h)))))"

record stealth_payment =
  sp_address :: string
  sp_ephemeral_public :: string
  sp_view_tag :: int
  sp_ephemeral_private :: string

definition generate_stealth_address :: "'p crypto \<Rightarrow> string \<Rightarrow> string \<Rightarrow> stealth_payment option" where
  "generate_stealth_address cr meta ephemeral =
     Option.bind (parse_meta_address cr meta) (\<lambda>(spub, vpub).
     Option.bind (shared_secret_hash cr ephemeral vpub) (\<lambda>hashed.
     Option.bind (stealth_address cr spub hashed) (\<lambda>addr.
     Option.bind (cr_public cr (hex_to_bytes ephemeral)) (\<lambda>epub.
       Some \<lparr>sp_address = addr, sp_ephemeral_public = bytes_to_hex epub, sp_view_tag = view_tag_of hashed, sp_ephemeral_private = ephemeral\<rparr>))))"

definition check_announcement :: "'p crypto \<Rightarrow> string \<Rightarrow> string \<Rightarrow> string \<Rightarrow> string \<Rightarrow> int option \<Rightarrow> string option option" where
  "check_announcement cr viewing_private spending_public announced ephemeral_public tag =
     (case shared_secret_hash cr viewing_private ephemeral_public of
        None \<Rightarrow> Some None
      | Some hashed \<Rightarrow>
          if tag \<noteq> None \<and> tag \<noteq> Some (view_tag_of hashed) then Some None
          else map_option (\<lambda>derived. if lower derived = lower announced then Some derived else None) (stealth_address cr spending_public hashed))"

definition compute_stealth_private_key :: "'p crypto \<Rightarrow> string \<Rightarrow> string \<Rightarrow> string \<Rightarrow> string option" where
  "compute_stealth_private_key cr spending_private viewing_private ephemeral_public =
     Option.bind (shared_secret_hash cr viewing_private ephemeral_public) (\<lambda>hashed.
     Option.bind (big_int spending_private) (\<lambda>s.
     Option.bind (to_scalar cr hashed) (\<lambda>h.
       let key = (s + h) mod cr_order cr in if key = 0 then None else Some (scalar_to_hex key))))"

section \<open>Announcement metadata\<close>

definition native_token :: string where "native_token = ''0xEeeeeEeeeEeEeeEeEeEeeEEEeeeeEeeeeeeeEEeE''"

record announcement =
  an_view_tag :: "int option"
  an_token :: string
  an_amount :: int

definition pad_to :: "nat \<Rightarrow> int \<Rightarrow> string option" where
  "pad_to k n = (if n < 0 \<or> length (nat_str 16 n) > k then None else Some (hex_word k n))"

definition encode_metadata :: "'p crypto \<Rightarrow> int \<Rightarrow> string \<Rightarrow> int \<Rightarrow> string option" where
  "encode_metadata cr tag token amount =
     Option.bind (pad_to 2 tag) (\<lambda>t. Option.bind (get_address cr token) (\<lambda>a. Option.bind (pad_to 64 amount) (\<lambda>w.
       Some (''0x'' @ t @ drop 2 a @ w))))"

definition decode_metadata :: "'p crypto \<Rightarrow> string \<Rightarrow> announcement option option" where
  "decode_metadata cr md =
     (let body = no_prefix md in
      if length body < 2 then Some None
      else let tag = parse_int16 (take 2 body) in
           if length body < 2 + 40 + 64 then Some (Some \<lparr>an_view_tag = tag, an_token = native_token, an_amount = 0\<rparr>)
           else Option.bind (get_address cr (''0x'' @ str_slice 2 42 body)) (\<lambda>a.
                Option.bind (big_int (''0x'' @ str_slice 42 106 body)) (\<lambda>n.
                  Some (Some \<lparr>an_view_tag = tag, an_token = a, an_amount = n\<rparr>))))"

definition is_native :: "string \<Rightarrow> bool" where "is_native token = (lower token = lower native_token)"

definition stealth_split :: "int \<Rightarrow> int \<times> int" where
  "stealth_split amount = (let fee = tdiv (amount * 25) 10000 in (fee, amount - fee))"

section \<open>What the library promises\<close>

text \<open>
  The curve is a group generated by the base point, with the order as its exponent; a public key encodes
  its point, in 33 bytes; the shared secret of two keys is the same from either side; a hash is 32 bytes;
  the checksum only changes the case of an address.
\<close>

definition key_bytes :: "int \<Rightarrow> nat list" where "key_bytes x = hex_to_bytes (scalar_to_hex x)"

definition crypto_ok :: "'p crypto \<Rightarrow> bool" where
  "crypto_ok cr \<longleftrightarrow>
     1 < cr_order cr \<and> cr_order cr \<le> 16 ^ 64 \<and>
     (\<forall>x. is_hex 64 (cr_keccak cr x)) \<and>
     (\<forall>a. is_hex 40 a \<longrightarrow> is_hex 40 (cr_checksum cr a) \<and> lower (cr_checksum cr a) = lower a \<and> cr_checksum cr (cr_checksum cr a) = cr_checksum cr a) \<and>
     (\<forall>x y. cr_plus cr (cr_base cr x) (cr_base cr y) = cr_base cr ((x + y) mod cr_order cr)) \<and>
     (\<forall>x \<in> {0<..<cr_order cr}. \<exists>pk. cr_public cr (key_bytes x) = Some pk \<and> length pk = 33 \<and> (\<forall>b \<in> set pk. b < 256) \<and>
        cr_decode cr (drop 2 (bytes_to_hex pk)) = Some (cr_base cr x)) \<and>
     (\<forall>x \<in> {0<..<cr_order cr}. \<forall>y \<in> {0<..<cr_order cr}. \<forall>px py.
        cr_public cr (key_bytes x) = Some px \<longrightarrow> cr_public cr (key_bytes y) = Some py \<longrightarrow>
        cr_shared cr (key_bytes x) py = cr_shared cr (key_bytes y) px \<and> cr_shared cr (key_bytes x) py \<noteq> None)"

end
