(* ===== verification/StealthProofs.thy ===== *)
theory StealthProofs
  imports Stealth
begin

text \<open>
  What the stealth scheme promises: bytes and meta-addresses are read back as written, the recipient finds
  every payment and can compute the key that spends it, keys derived from a signature are well formed, and
  the metadata of an announcement is read back.
\<close>

section \<open>Bytes and addresses are read back\<close>

lemma not_hex: "\<not> hex_char CHR ''x''" "\<not> hex_char CHR ''-''" "\<not> hex_char CHR ''+''"
  by (simp_all add: hex_char_def digit_ok_def digit_val_code)

lemma hex_no_space: "hex_char c \<Longrightarrow> \<not> is_space c"
  by (auto simp: is_space_def hex_char_def digit_ok_def digit_val_def)

lemma starts_with_ConsD: "starts_with (p # ps) s \<Longrightarrow> \<exists>r. s = p # r \<and> starts_with ps r"
  by (cases s) (auto simp: starts_with_Cons)

lemma hex_not_prefixed:
  assumes "list_all hex_char ds"
  shows "\<not> starts_with ''0x'' (lower ds)" "\<not> starts_with ''-'' ds" "\<not> starts_with ''+'' ds" "\<not> starts_with ''0x'' ds"
proof -
  have n: "CHR ''x'' \<notin> set (lower ds)" "CHR ''x'' \<notin> set ds" "CHR ''-'' \<notin> set ds" "CHR ''+'' \<notin> set ds"
    using assms not_hex hex_digit_lower by (auto simp: list_all_iff lower_def)
  show "\<not> starts_with ''0x'' (lower ds)" "\<not> starts_with ''0x'' ds"
    using n(1,2) by (auto dest: starts_with_set [of _ _ "CHR ''x''"])
  show "\<not> starts_with ''-'' ds" using n(3) by (auto dest: starts_with_set [of _ _ "CHR ''-''"])
  show "\<not> starts_with ''+'' ds" using n(4) by (auto dest: starts_with_set [of _ _ "CHR ''+''"])
qed

lemma parse_int16_hex: "list_all hex_char ds \<Longrightarrow> ds \<noteq> [] \<Longrightarrow> parse_int16 ds = Some (num_val 16 0 ds)"
proof -
  assume h: "list_all hex_char ds" "ds \<noteq> []"
  have "dropWhile is_space ds = ds" by (rule dropWhile_none) (use h(1) hex_no_space in \<open>auto simp: list_all_iff\<close>)
  moreover have "takeWhile hex_char ds = ds" using h(1) by (metis list_all_iff takeWhile_eq_all_conv)
  ultimately show ?thesis using hex_not_prefixed [OF h(1)] h(2) by (simp add: parse_int16_def Let_def del: takeWhile_eq_all_conv)
qed

definition hex_body :: "nat list \<Rightarrow> string" where
  "hex_body bs = concat (map (\<lambda>b. hex_word 2 (int b)) bs)"

lemma hex_body:
  assumes "\<forall>b \<in> set bs. b < 256"
  shows "length (hex_body bs) = 2 * length bs" "list_all hex_char (hex_body bs)"
    "i < length bs \<Longrightarrow> str_slice (i * 2) (i * 2 + 2) (hex_body bs) = hex_word 2 (int (bs ! i))"
proof -
  have w: "length (hex_word 2 (int b)) = 2" "list_all hex_char (hex_word 2 (int b))" if "b \<in> set bs" for b
    using hex_word [of "int b" 2] assms that by auto
  show "length (hex_body bs) = 2 * length bs" using w(1) by (induction bs) (simp_all add: hex_body_def)
  show "list_all hex_char (hex_body bs)" using w(2) by (induction bs) (simp_all add: hex_body_def)
  show "str_slice (i * 2) (i * 2 + 2) (hex_body bs) = hex_word 2 (int (bs ! i))" if "i < length bs"
    using that w(1)
  proof (induction bs arbitrary: i)
    case (Cons b bs)
    show ?case
    proof (cases i)
      case 0
      then show ?thesis using Cons.prems(2) [of b] by (simp add: str_slice_def hex_body_def)
    next
      case (Suc j)
      have "str_slice (j * 2) (j * 2 + 2) (hex_body bs) = hex_word 2 (int (bs ! j))"
        using Cons.prems Suc by (intro Cons.IH) simp_all
      then show ?thesis using Cons.prems(2) [of b] by (simp add: str_slice_def hex_body_def Suc)
    qed
  qed simp
qed

lemma bytes_to_hex: "bytes_to_hex bs = ''0x'' @ hex_body bs"
  by (simp add: bytes_to_hex_def hex_body_def)

lemma bytes_roundtrip:
  assumes "\<forall>b \<in> set bs. b < 256"
  shows "hex_to_bytes (bytes_to_hex bs) = bs"
proof -
  note h = hex_body [OF assms]
  have np: "no_prefix (bytes_to_hex bs) = hex_body bs" by (simp add: no_prefix_def bytes_to_hex starts_with_Cons)
  show ?thesis
  proof (rule nth_equalityI)
    show len: "length (hex_to_bytes (bytes_to_hex bs)) = length bs" by (simp add: hex_to_bytes_def np h(1) Let_def)
    fix i
    assume "i < length (hex_to_bytes (bytes_to_hex bs))"
    then have i: "i < length bs" using len by simp
    then have b: "bs ! i < 256" using assms by simp
    have w: "length (hex_word 2 (int (bs ! i))) = 2" "list_all hex_char (hex_word 2 (int (bs ! i)))" "num_val 16 0 (hex_word 2 (int (bs ! i))) = int (bs ! i)"
      using hex_word [of "int (bs ! i)" 2] b by simp_all
    then have "hex_word 2 (int (bs ! i)) \<noteq> []" by auto
    with w parse_int16_hex have "parse_int16 (hex_word 2 (int (bs ! i))) = Some (int (bs ! i))" by simp
    then show "hex_to_bytes (bytes_to_hex bs) ! i = bs ! i"
      using i b h(1) h(3) [OF i] by (simp add: hex_to_bytes_def np Let_def)
  qed
qed

lemma meta_body:
  assumes "list_all hex_char x" "list_all hex_char y"
  shows "strip_scheme (trim (''st:rho:0x'' @ x @ y)) = ''0x'' @ x @ y"
proof -
  let ?s = "''st:rho:0x'' @ x @ y"
  have low: "lower ''st:rho:0x'' = ''st:rho:0x''" by code_simp
  have sp: "\<forall>c \<in> set ''st:rho:0x''. \<not> is_space c" by (simp add: is_space_code)
  have t: "trim ?s = ?s" by (rule trim_no_space) (use sp hex_no_space assms in \<open>auto simp: list_all_iff\<close>)
  have "starts_with ''st:'' (lower ?s)" unfolding lower_append low by (simp add: starts_with_Cons)
  moreover have al: "alnum CHR ''r''" "alnum CHR ''h''" "alnum CHR ''o''" "\<not> alnum CHR '':''" by code_simp+
  have "takeWhile alnum (drop 3 ?s) = ''rho''" by (simp add: numeral_3_eq_3 al)
  ultimately show ?thesis unfolding t by (simp add: strip_scheme_def starts_with_Cons Let_def numeral_3_eq_3)
qed

lemma meta_roundtrip:
  assumes "list_all hex_char x" "list_all hex_char y" "length x = 66" "length y = 66" "cr_decode cr x \<noteq> None" "cr_decode cr y \<noteq> None"
  shows "parse_meta_address cr (encode_meta_address (''0x'' @ x) (''0x'' @ y)) = Some (''0x'' @ x, ''0x'' @ y)"
proof -
  have e: "encode_meta_address (''0x'' @ x) (''0x'' @ y) = ''st:rho:0x'' @ x @ y" by (simp add: encode_meta_address_def)
  have h: "is_hex 132 (''0x'' @ x @ y)" using assms by (intro is_hex_word) simp_all
  have sl: "str_slice 2 68 (''0x'' @ x @ y) = x" "str_slice 68 134 (''0x'' @ x @ y) = y"
    using assms(3,4) by (simp_all add: str_slice_def)
  show ?thesis using assms(5,6) h sl unfolding parse_meta_address_def e meta_body [OF assms(1,2)] Let_def by simp
qed

lemma address_exists:
  assumes "crypto_ok cr"
  shows "\<exists>a. public_key_to_address cr u = Some a \<and> is_hex 40 a"
proof -
  let ?h = "cr_keccak cr (bytes_to_hex (if length u = 65 then tl u else u))"
  have "is_hex 64 ?h" using assms by (simp add: crypto_ok_def)
  then obtain r where r: "?h = ''0x'' @ r" "length r = 64" "list_all hex_char r" by (rule is_hexE)
  have "list_all hex_char (drop 24 r)" using r(3) by (auto simp: list_all_iff dest: in_set_dropD)
  then have "is_hex 40 (''0x'' @ drop 24 r)" using r(2) by (intro is_hex_word) simp_all
  moreover have "drop (length ?h - 40) ?h = drop 24 r" using r(2) unfolding r(1) by simp
  ultimately show ?thesis using assms by (simp add: public_key_to_address_def get_address_def crypto_ok_def Let_def)
qed

section \<open>A payment is found and can be spent\<close>

lemma public_key_facts:
  assumes "crypto_ok cr" "0 < x" "x < cr_order cr"
  obtains pk where "cr_public cr (key_bytes x) = Some pk" "length pk = 33" "\<forall>b \<in> set pk. b < 256" "cr_decode cr (hex_body pk) = Some (cr_base cr x)"
    "hex_to_bytes (bytes_to_hex pk) = pk"
proof -
  have "x \<in> {0<..<cr_order cr}" using assms by simp
  with assms(1) obtain pk where "cr_public cr (key_bytes x) = Some pk" "length pk = 33" "\<forall>b \<in> set pk. b < 256"
    "cr_decode cr (drop 2 (bytes_to_hex pk)) = Some (cr_base cr x)" unfolding crypto_ok_def by meson
  with that bytes_roundtrip show ?thesis by (simp add: bytes_to_hex)
qed

lemma shared_symmetric:
  assumes "crypto_ok cr" "0 < x" "x < cr_order cr" "0 < y" "y < cr_order cr" "cr_public cr (key_bytes x) = Some px" "cr_public cr (key_bytes y) = Some py"
  shows "cr_shared cr (key_bytes x) py = cr_shared cr (key_bytes y) px \<and> cr_shared cr (key_bytes x) py \<noteq> None"
proof -
  from assms(1) have "\<forall>x \<in> {0<..<cr_order cr}. \<forall>y \<in> {0<..<cr_order cr}. \<forall>px py.
      cr_public cr (key_bytes x) = Some px \<longrightarrow> cr_public cr (key_bytes y) = Some py \<longrightarrow>
      cr_shared cr (key_bytes x) py = cr_shared cr (key_bytes y) px \<and> cr_shared cr (key_bytes x) py \<noteq> None"
    unfolding crypto_ok_def by (elim conjE) assumption
  moreover have "x \<in> {0<..<cr_order cr}" "y \<in> {0<..<cr_order cr}" using assms by simp_all
  ultimately show ?thesis using assms(6,7) by blast
qed

lemma scalar_read_back: "crypto_ok cr \<Longrightarrow> 0 \<le> x \<Longrightarrow> x < cr_order cr \<Longrightarrow> big_int (scalar_to_hex x) = Some x"
  unfolding scalar_to_hex_def by (rule big_int_hex_word) (auto simp: crypto_ok_def)

lemma keys_exist:
  assumes "crypto_ok cr" "0 < s" "s < cr_order cr" "0 < v" "v < cr_order cr"
  obtains ps pv where "from_private_keys cr (scalar_to_hex s) (scalar_to_hex v) =
      Some \<lparr>sk_spending_private = scalar_to_hex s, sk_viewing_private = scalar_to_hex v, sk_spending_public = bytes_to_hex ps, sk_viewing_public = bytes_to_hex pv,
            sk_meta = encode_meta_address (bytes_to_hex ps) (bytes_to_hex pv)\<rparr>"
    "parse_meta_address cr (encode_meta_address (bytes_to_hex ps) (bytes_to_hex pv)) = Some (bytes_to_hex ps, bytes_to_hex pv)"
    "cr_public cr (key_bytes s) = Some ps" "cr_public cr (key_bytes v) = Some pv"
proof -
  obtain ps where ps: "cr_public cr (key_bytes s) = Some ps" "length ps = 33" "\<forall>b \<in> set ps. b < 256" "cr_decode cr (hex_body ps) = Some (cr_base cr s)"
    using public_key_facts [OF assms(1-3)] by metis
  obtain pv where pv: "cr_public cr (key_bytes v) = Some pv" "length pv = 33" "\<forall>b \<in> set pv. b < 256" "cr_decode cr (hex_body pv) = Some (cr_base cr v)"
    using public_key_facts [OF assms(1,4,5)] by metis
  have "parse_meta_address cr (encode_meta_address (bytes_to_hex ps) (bytes_to_hex pv)) = Some (bytes_to_hex ps, bytes_to_hex pv)"
    unfolding bytes_to_hex using hex_body [OF ps(3)] hex_body [OF pv(3)] ps(2,4) pv(2,4) by (intro meta_roundtrip) simp_all
  with that ps(1) pv(1) show ?thesis by (simp add: from_private_keys_def key_bytes_def)
qed

text \<open>
  C12: With keys in range, a payment to a recipient's meta-address is always found and always spendable: the
  meta-address can be derived and read, the sender's one-time address exists unless the hash of the shared
  secret is no scalar, the recipient's check of the announcement, view tag included, answers with exactly
  that address, and the key the recipient computes, when it is not zero, is a scalar whose public key has
  that address.
\<close>

theorem stealth_payment_found:
  assumes "crypto_ok cr" "0 < s" "s < cr_order cr" "0 < v" "v < cr_order cr" "0 < e" "e < cr_order cr"
  shows "\<exists>keys hashed. from_private_keys cr (scalar_to_hex s) (scalar_to_hex v) = Some keys \<and>
     shared_secret_hash cr (scalar_to_hex e) (sk_viewing_public keys) = Some hashed \<and>
     (generate_stealth_address cr (sk_meta keys) (scalar_to_hex e) = None \<longrightarrow> to_scalar cr hashed = None) \<and>
     (\<forall>pay. generate_stealth_address cr (sk_meta keys) (scalar_to_hex e) = Some pay \<longrightarrow>
        check_announcement cr (sk_viewing_private keys) (sk_spending_public keys) (sp_address pay) (sp_ephemeral_public pay) (Some (sp_view_tag pay)) =
          Some (Some (sp_address pay)) \<and>
        (case compute_stealth_private_key cr (sk_spending_private keys) (sk_viewing_private keys) (sp_ephemeral_public pay) of
           None \<Rightarrow> \<exists>h. to_scalar cr hashed = Some h \<and> (s + h) mod cr_order cr = 0
         | Some key \<Rightarrow> \<exists>x. big_int key = Some x \<and> 0 < x \<and> x < cr_order cr \<and> public_key_to_address cr (cr_raw cr (cr_base cr x)) = Some (sp_address pay)))"
proof -
  obtain ps pv where keys: "from_private_keys cr (scalar_to_hex s) (scalar_to_hex v) =
      Some \<lparr>sk_spending_private = scalar_to_hex s, sk_viewing_private = scalar_to_hex v, sk_spending_public = bytes_to_hex ps, sk_viewing_public = bytes_to_hex pv,
            sk_meta = encode_meta_address (bytes_to_hex ps) (bytes_to_hex pv)\<rparr>" (is "_ = Some ?keys")
    and meta: "parse_meta_address cr (encode_meta_address (bytes_to_hex ps) (bytes_to_hex pv)) = Some (bytes_to_hex ps, bytes_to_hex pv)"
    and pub: "cr_public cr (key_bytes s) = Some ps" "cr_public cr (key_bytes v) = Some pv"
    using keys_exist [OF assms(1-5)] by blast
  obtain pe where pe: "cr_public cr (key_bytes e) = Some pe" "hex_to_bytes (bytes_to_hex pe) = pe" using public_key_facts [OF assms(1,6,7)] by metis
  have rb: "hex_to_bytes (bytes_to_hex pv) = pv" "cr_decode cr (hex_body ps) = Some (cr_base cr s)"
    using public_key_facts [OF assms(1,4,5)] public_key_facts [OF assms(1-3)] pub by (metis option.inject)+
  obtain sh where sh: "cr_shared cr (key_bytes e) pv = Some sh" "cr_shared cr (key_bytes v) pe = Some sh"
    using shared_symmetric [OF assms(1,6,7,4,5) pe(1) pub(2)] by (metis option.exhaust)
  define hashed where "hashed = cr_keccak cr (bytes_to_hex (drop 1 sh))"
  have h1: "shared_secret_hash cr (scalar_to_hex e) (bytes_to_hex pv) = Some hashed"
    using sh(1) by (simp add: shared_secret_hash_def rb(1) key_bytes_def hashed_def)
  have h2: "shared_secret_hash cr (scalar_to_hex v) (bytes_to_hex pe) = Some hashed"
    using sh(2) by (simp add: shared_secret_hash_def pe(2) key_bytes_def hashed_def)
  have addr: "stealth_address cr (bytes_to_hex ps) hashed =
      Option.bind (to_scalar cr hashed) (\<lambda>h. public_key_to_address cr (cr_raw cr (cr_base cr ((s + h) mod cr_order cr))))"
    using assms(1) by (simp add: stealth_address_def bytes_to_hex rb(2) crypto_ok_def)
  have gen: "generate_stealth_address cr (sk_meta ?keys) (scalar_to_hex e) =
      map_option (\<lambda>a. \<lparr>sp_address = a, sp_ephemeral_public = bytes_to_hex pe, sp_view_tag = view_tag_of hashed, sp_ephemeral_private = scalar_to_hex e\<rparr>)
        (stealth_address cr (bytes_to_hex ps) hashed)"
    using pe(1) by (cases "stealth_address cr (bytes_to_hex ps) hashed") (simp_all add: generate_stealth_address_def meta h1 key_bytes_def)
  show ?thesis
  proof (intro exI [of _ ?keys] exI [of _ hashed] conjI impI allI, goal_cases)
    case 1
    show ?case by (rule keys)
  next
    case 2
    show ?case using h1 by simp
  next
    case 3
    show ?case
    proof (cases "to_scalar cr hashed")
      case (Some h)
      obtain a where "public_key_to_address cr (cr_raw cr (cr_base cr ((s + h) mod cr_order cr))) = Some a"
        using address_exists [OF assms(1)] by blast
      with 3 Some show ?thesis unfolding gen addr by simp
    qed simp
  next
    case (4 pay)
    then show ?case unfolding gen by (auto simp: check_announcement_def h2)
  next
    case (5 pay)
    then obtain h where h: "to_scalar cr hashed = Some h" and a: "public_key_to_address cr (cr_raw cr (cr_base cr ((s + h) mod cr_order cr))) = Some (sp_address pay)"
      and p: "sp_ephemeral_public pay = bytes_to_hex pe"
      unfolding gen addr by (auto simp: bind_eq_Some_conv)
    let ?k = "(s + h) mod cr_order cr"
    have k: "0 \<le> ?k" "?k < cr_order cr" using assms(2,3) by simp_all
    have s: "big_int (scalar_to_hex s) = Some s" using scalar_read_back [OF assms(1)] assms(2,3) by simp
    have c: "compute_stealth_private_key cr (scalar_to_hex s) (scalar_to_hex v) (bytes_to_hex pe) = (if ?k = 0 then None else Some (scalar_to_hex ?k))"
      by (simp add: compute_stealth_private_key_def h2 s h Let_def)
    show ?case
      using h a k scalar_read_back [OF assms(1) k] by (simp add: p c order_less_le)
  qed
qed

text \<open>
  A curve to show the assumptions can be met: the group of order 7, with an encoding of 33 bytes that holds
  the number, and a hash that is constant.
\<close>

definition demo_encode :: "int \<Rightarrow> nat list" where "demo_encode x = 2 # nat x # replicate 31 0"

definition demo_crypto :: "int crypto" where
  "demo_crypto =
     \<lparr>cr_order = 7, cr_base = (\<lambda>x. x mod 7), cr_plus = (\<lambda>p q. (p + q) mod 7),
      cr_decode = (\<lambda>s. if length s = 66 then Some (num_val 16 0 (take 4 s) - 512) else None),
      cr_raw = (\<lambda>p. 4 # nat p # replicate 63 0),
      cr_public = (\<lambda>k. Some (demo_encode (int (last k) mod 7))),
      cr_shared = (\<lambda>k p. Some (demo_encode (int (last k) * int (p ! 1) mod 7))),
      cr_keccak = (\<lambda>_. ''0x'' @ replicate 63 CHR ''0'' @ ''1''),
      cr_checksum = lower\<rparr>"

lemma demo_keys: "x \<in> {0<..<7} \<Longrightarrow> key_bytes x = replicate 31 0 @ [nat x]"
proof -
  assume "x \<in> {0<..<7}"
  then have "x \<in> set [1, 2, 3, 4, 5, 6]" by auto
  moreover have "\<forall>x \<in> set [1, 2, 3, 4, 5, 6]. scalar_to_hex x = bytes_to_hex (replicate 31 0 @ [nat x])" by code_simp
  ultimately have "scalar_to_hex x = bytes_to_hex (replicate 31 0 @ [nat x])" by blast
  moreover have "hex_to_bytes (bytes_to_hex (replicate 31 0 @ [nat x])) = replicate 31 0 @ [nat x]"
    using \<open>x \<in> {0<..<7}\<close> by (intro bytes_roundtrip) auto
  ultimately show ?thesis by (simp add: key_bytes_def)
qed

lemma demo_decode: "x \<in> {0<..<7} \<Longrightarrow> cr_decode demo_crypto (drop 2 (bytes_to_hex (demo_encode x))) = Some x"
proof -
  assume "x \<in> {0<..<7}"
  then have "x \<in> set [1, 2, 3, 4, 5, 6]" by auto
  moreover have "\<forall>x \<in> set [1, 2, 3, 4, 5, 6]. cr_decode demo_crypto (drop 2 (bytes_to_hex (demo_encode x))) = Some x" by code_simp
  ultimately show ?thesis by blast
qed

lemma lower_is_hex: "is_hex k a \<Longrightarrow> is_hex k (lower a)"
proof -
  assume "is_hex k a"
  then obtain r where r: "a = ''0x'' @ r" "length r = k" "list_all hex_char r" by (rule is_hexE)
  have low: "lower ''0x'' = ''0x''" by code_simp
  have "list_all hex_char (lower r)" using r(3) hex_digit_lower by (auto simp: lower_def list_all_iff)
  then show ?thesis unfolding r(1) lower_append low using r(2) by (intro is_hex_word) simp_all
qed

lemma demo_crypto_ok: "crypto_ok demo_crypto"
proof -
  have k: "is_hex 64 (''0x'' @ replicate 63 CHR ''0'' @ ''1'')" by code_simp
  have p: "cr_public demo_crypto (key_bytes x) = Some (demo_encode x)" if "x \<in> {0<..<7}" for x
    using that by (simp add: demo_crypto_def demo_keys del: replicate_Suc)
  have sh: "cr_shared demo_crypto (key_bytes x) (demo_encode y) = Some (demo_encode (x * y mod 7))" if "x \<in> {0<..<7}" "y \<in> {0<..<7}" for x y
    using that by (simp add: demo_crypto_def demo_keys demo_encode_def del: replicate_Suc)
  have 1: "\<forall>x \<in> {0<..<cr_order demo_crypto}. \<exists>pk. cr_public demo_crypto (key_bytes x) = Some pk \<and> length pk = 33 \<and> (\<forall>b \<in> set pk. b < 256) \<and>
        cr_decode demo_crypto (drop 2 (bytes_to_hex pk)) = Some (cr_base demo_crypto x)"
  proof
    fix x :: int
    assume "x \<in> {0<..<cr_order demo_crypto}"
    then have x: "x \<in> {0<..<7}" by (simp add: demo_crypto_def)
    then have "cr_base demo_crypto x = x" by (simp add: demo_crypto_def)
    moreover have "length (demo_encode x) = 33" "\<forall>b \<in> set (demo_encode x). b < 256" using x by (auto simp: demo_encode_def)
    ultimately show "\<exists>pk. cr_public demo_crypto (key_bytes x) = Some pk \<and> length pk = 33 \<and> (\<forall>b \<in> set pk. b < 256) \<and>
        cr_decode demo_crypto (drop 2 (bytes_to_hex pk)) = Some (cr_base demo_crypto x)"
      using p [OF x] demo_decode [OF x] by auto
  qed
  have 2: "\<forall>x \<in> {0<..<cr_order demo_crypto}. \<forall>y \<in> {0<..<cr_order demo_crypto}. \<forall>px py.
        cr_public demo_crypto (key_bytes x) = Some px \<longrightarrow> cr_public demo_crypto (key_bytes y) = Some py \<longrightarrow>
        cr_shared demo_crypto (key_bytes x) py = cr_shared demo_crypto (key_bytes y) px \<and> cr_shared demo_crypto (key_bytes x) py \<noteq> None"
  proof (intro ballI allI impI)
    fix x y :: int and px py
    assume "x \<in> {0<..<cr_order demo_crypto}" "y \<in> {0<..<cr_order demo_crypto}"
    then have xy: "x \<in> {0<..<7}" "y \<in> {0<..<7}" by (simp_all add: demo_crypto_def)
    assume "cr_public demo_crypto (key_bytes x) = Some px" "cr_public demo_crypto (key_bytes y) = Some py"
    then have "px = demo_encode x" "py = demo_encode y" using p [OF xy(1)] p [OF xy(2)] by simp_all
    then show "cr_shared demo_crypto (key_bytes x) py = cr_shared demo_crypto (key_bytes y) px \<and> cr_shared demo_crypto (key_bytes x) py \<noteq> None"
      using sh [OF xy] sh [OF xy(2,1)] by (simp add: mult.commute)
  qed
  show ?thesis unfolding crypto_ok_def using 1 2 k lower_is_hex
    by (intro conjI) (simp_all add: demo_crypto_def mod_add_eq del: replicate_Suc)
qed

theorem stealth_payment_found_witness:
  "\<exists>keys hashed. from_private_keys demo_crypto (scalar_to_hex 2) (scalar_to_hex 3) = Some keys \<and>
     shared_secret_hash demo_crypto (scalar_to_hex 5) (sk_viewing_public keys) = Some hashed"
  using stealth_payment_found [OF demo_crypto_ok, of 2 3 5] by (auto simp: demo_crypto_def)

section \<open>Keys are well formed\<close>

definition scalar_text :: "'p crypto \<Rightarrow> string \<Rightarrow> bool" where
  "scalar_text cr k \<longleftrightarrow> is_hex 64 k \<and> (\<exists>x. big_int k = Some x \<and> 0 < x \<and> x < cr_order cr)"

definition keys_ok :: "'p crypto \<Rightarrow> stealth_keys \<Rightarrow> bool" where
  "keys_ok cr k \<longleftrightarrow>
     scalar_text cr (sk_spending_private k) \<and> scalar_text cr (sk_viewing_private k) \<and>
     is_hex 66 (sk_spending_public k) \<and> is_hex 66 (sk_viewing_public k) \<and>
     parse_meta_address cr (sk_meta k) = Some (sk_spending_public k, sk_viewing_public k)"

lemma to_scalar_range: "crypto_ok cr \<Longrightarrow> to_scalar cr h = Some x \<Longrightarrow> 0 < x \<and> x < cr_order cr"
proof -
  assume "crypto_ok cr" "to_scalar cr h = Some x"
  then obtain n where "x = n mod cr_order cr" "x \<noteq> 0" "1 < cr_order cr"
    by (auto simp: to_scalar_def bind_eq_Some_conv Let_def crypto_ok_def split: if_splits)
  then show ?thesis using pos_mod_sign [of "cr_order cr" n] pos_mod_bound [of "cr_order cr" n] by linarith
qed

lemma scalar_text_scalar: "crypto_ok cr \<Longrightarrow> 0 < x \<Longrightarrow> x < cr_order cr \<Longrightarrow> scalar_text cr (scalar_to_hex x)"
proof -
  assume h: "crypto_ok cr" "0 < x" "x < cr_order cr"
  then have "x < 16 ^ 64" by (auto simp: crypto_ok_def)
  with h(2) have "length (hex_word 64 x) = 64" "list_all hex_char (hex_word 64 x)" using hex_word [of x 64] by simp_all
  then have "is_hex 64 (scalar_to_hex x)" unfolding scalar_to_hex_def by (intro is_hex_word)
  moreover have "big_int (scalar_to_hex x) = Some x" by (rule scalar_read_back) (use h in simp_all)
  ultimately show ?thesis using h by (auto simp: scalar_text_def)
qed

text \<open>
  C28: Keys derived from a wallet's signature are well formed: both private keys are 32-byte scalars of the
  curve, neither zero nor past its order, both public keys are 33 bytes, and the meta-address made of them
  is read back as exactly these two. Only a string of 65 bytes is taken for a signature, and then the
  derivation fails only where a hash is no scalar.
\<close>

theorem derived_keys_wellformed:
  assumes "crypto_ok cr"
  shows "(\<forall>k. keys_from_signature cr sig = Some k \<longrightarrow> is_hex 130 sig \<and> keys_ok cr k) \<and>
    (keys_from_signature cr sig = None \<longrightarrow>
       \<not> is_hex 130 sig \<or> to_scalar cr (cr_keccak cr (cr_keccak cr sig @ ''00'')) = None \<or> to_scalar cr (cr_keccak cr (cr_keccak cr sig @ ''01'')) = None)"
proof -
  let ?s = "to_scalar cr (cr_keccak cr (cr_keccak cr sig @ ''00''))" and ?v = "to_scalar cr (cr_keccak cr (cr_keccak cr sig @ ''01''))"
  have ok: "\<exists>k. from_private_keys cr (scalar_to_hex s) (scalar_to_hex v) = Some k \<and> keys_ok cr k" if "?s = Some s" "?v = Some v" for s v
  proof -
    note r = to_scalar_range [OF assms that(1)] to_scalar_range [OF assms that(2)]
    obtain ps pv where k: "from_private_keys cr (scalar_to_hex s) (scalar_to_hex v) =
        Some \<lparr>sk_spending_private = scalar_to_hex s, sk_viewing_private = scalar_to_hex v, sk_spending_public = bytes_to_hex ps, sk_viewing_public = bytes_to_hex pv,
              sk_meta = encode_meta_address (bytes_to_hex ps) (bytes_to_hex pv)\<rparr>"
      "parse_meta_address cr (encode_meta_address (bytes_to_hex ps) (bytes_to_hex pv)) = Some (bytes_to_hex ps, bytes_to_hex pv)"
      "cr_public cr (key_bytes s) = Some ps" "cr_public cr (key_bytes v) = Some pv"
      using keys_exist [OF assms] r by metis
    have pub: "is_hex 66 (bytes_to_hex p)" if "cr_public cr (key_bytes x) = Some p" "0 < x" "x < cr_order cr" for p x
    proof -
      have "length p = 33" "\<forall>b \<in> set p. b < 256" using public_key_facts [OF assms that(2,3)] that(1) by (metis option.inject)+
      then show ?thesis unfolding bytes_to_hex using hex_body [of p] by (intro is_hex_word) simp_all
    qed
    show ?thesis using k pub [OF k(3)] pub [OF k(4)] r scalar_text_scalar [OF assms] by (simp add: keys_ok_def)
  qed
  show ?thesis
  proof (cases "is_hex 130 sig \<and> ?s \<noteq> None \<and> ?v \<noteq> None")
    case True
    then obtain s v where "?s = Some s" "?v = Some v" by auto
    with True ok show ?thesis by (fastforce simp: keys_from_signature_def Let_def)
  next
    case False
    then have "keys_from_signature cr sig = None" by (auto simp: keys_from_signature_def Let_def bind_eq_None_conv)
    with False show ?thesis by auto
  qed
qed

theorem derived_keys_wellformed_witness:
  "\<exists>k. keys_from_signature demo_crypto (''0x'' @ replicate 130 CHR ''a'') = Some k \<and> keys_ok demo_crypto k"
proof -
  have sig: "is_hex 130 (''0x'' @ replicate 130 CHR ''a'')" by code_simp
  have "to_scalar demo_crypto (''0x'' @ replicate 63 CHR ''0'' @ ''1'') = Some 1" by code_simp
  then have "to_scalar demo_crypto (cr_keccak demo_crypto x) = Some 1" for x by (simp add: demo_crypto_def del: replicate_Suc)
  then have "keys_from_signature demo_crypto (''0x'' @ replicate 130 CHR ''a'') \<noteq> None"
    using derived_keys_wellformed [OF demo_crypto_ok, of "''0x'' @ replicate 130 CHR ''a''"] sig by auto
  then show ?thesis using derived_keys_wellformed [OF demo_crypto_ok, of "''0x'' @ replicate 130 CHR ''a''"] by blast
qed

section \<open>Metadata is read back\<close>

lemma pad_to_word: "0 \<le> n \<Longrightarrow> n < 16 ^ k \<Longrightarrow> 0 < k \<Longrightarrow> pad_to k n = Some (hex_word k n)"
proof -
  assume h: "0 \<le> n" "n < 16 ^ k" "0 < k"
  obtain j where "k = Suc j" using h(3) by (cases k) auto
  then have "length (nat_str 16 n) \<le> k" using nat_str_length [of n 16 j] h by simp
  with h(1) show ?thesis by (simp add: pad_to_def)
qed

text \<open>
  C36: What an announcement says of a transfer is read back: the view tag, the token in its checksummed
  spelling and the amount of encoded metadata are those it was encoded from, for every tag of a byte, every
  address and every amount of 256 bits.
\<close>

theorem metadata_roundtrip:
  assumes "crypto_ok cr" "0 \<le> tag" "tag < 256" "is_hex 40 token" "0 \<le> amount" "amount < 2 ^ 256"
  shows "\<exists>md. encode_metadata cr tag token amount = Some md \<and>
    decode_metadata cr md = Some (Some \<lparr>an_view_tag = Some tag, an_token = cr_checksum cr token, an_amount = amount\<rparr>)"
proof -
  have "is_hex 40 (cr_checksum cr token)" and again: "cr_checksum cr (cr_checksum cr token) = cr_checksum cr token"
    using assms(1,4) by (simp_all add: crypto_ok_def)
  then obtain r where r: "cr_checksum cr token = ''0x'' @ r" "length r = 40" "list_all hex_char r" by (metis is_hexE)
  have t: "length (hex_word 2 tag) = 2" "list_all hex_char (hex_word 2 tag)" "num_val 16 0 (hex_word 2 tag) = tag"
    using hex_word [of tag 2] assms by simp_all
  have w: "length (hex_word 64 amount) = 64" "list_all hex_char (hex_word 64 amount)"
    using hex_word [of amount 64] assms by simp_all
  let ?body = "hex_word 2 tag @ r @ hex_word 64 amount"
  have enc: "encode_metadata cr tag token amount = Some (''0x'' @ ?body)"
    using assms pad_to_word [of tag 2] pad_to_word [of amount 64] by (simp add: encode_metadata_def get_address_def r(1))
  have "hex_word 2 tag \<noteq> []" using t(1) by auto
  with t have tag: "parse_int16 (hex_word 2 tag) = Some tag" using parse_int16_hex by simp
  have parts: "no_prefix (''0x'' @ ?body) = ?body" "length ?body = 106" "take 2 ?body = hex_word 2 tag" "str_slice 2 42 ?body = r" "str_slice 42 106 ?body = hex_word 64 amount"
    using t(1) w(1) r(2) by (simp_all add: no_prefix_def starts_with_Cons str_slice_def)
  have addr: "get_address cr (''0x'' @ r) = Some (cr_checksum cr token)"
    using \<open>is_hex 40 (cr_checksum cr token)\<close> again unfolding get_address_def r(1) [symmetric] by simp
  have amt: "big_int (''0x'' @ hex_word 64 amount) = Some amount" by (rule big_int_hex_word) (use assms in simp_all)
  have "decode_metadata cr (''0x'' @ ?body) = Some (Some \<lparr>an_view_tag = Some tag, an_token = cr_checksum cr token, an_amount = amount\<rparr>)"
    unfolding decode_metadata_def Let_def parts addr amt tag by simp
  with enc show ?thesis by blast
qed

theorem metadata_roundtrip_witness:
  "\<exists>md. encode_metadata demo_crypto 255 zero_address 1000 = Some md \<and>
    decode_metadata demo_crypto md = Some (Some \<lparr>an_view_tag = Some 255, an_token = cr_checksum demo_crypto zero_address, an_amount = 1000\<rparr>)"
proof -
  have "is_hex 40 zero_address" by code_simp
  from metadata_roundtrip [OF demo_crypto_ok _ _ this, of 255 1000] show ?thesis by simp
qed

text \<open>The fee is taken from the amount, and nothing is lost to rounding.\<close>

lemma stealth_split_exact: "0 \<le> amount \<Longrightarrow> (case stealth_split amount of (fee, net) \<Rightarrow> fee + net = amount \<and> 0 \<le> fee \<and> 400 * fee \<le> amount)"
proof -
  assume "0 \<le> amount"
  then have "tdiv (amount * 25) 10000 * 10000 \<le> amount * 25" "0 \<le> tdiv (amount * 25) 10000" by (simp_all add: tdiv_le tdiv_nonneg_ge0)
  then show ?thesis by (simp add: stealth_split_def Let_def)
qed

end
