(* ===== verification/Venues.thy ===== *)
theory Venues
  imports Chain Hints Json "HOL-Library.List_Lexorder" "HOL-Library.Char_ord"
begin

text \<open>
  Routes and round trips of the searcher: V3 paths and cross-tier cycles (\<open>packages/core/src/arb.ts\<close>), the
  router's calls (\<open>router.ts\<close>), legs over two venues (\<open>ordoswap.ts\<close>), and the cycles between a V4 pool and
  the V3 tiers of its pair (\<open>apps/searcher-bot/src/venues.ts\<close>). A call of the chain, its encoding and the
  decoding of its answer are one function of the model; \<^const>\<open>None\<close> is a throw.
\<close>

section \<open>V3 paths and pools\<close>

datatype packed = PAddress string | PUint24 int

record cycle =
  cy_label :: string
  cy_tokens :: "string list"
  cy_fees :: "int list"

definition encode_path :: "string list \<Rightarrow> int list \<Rightarrow> packed list" where
  "encode_path tokens fees =
     concat (map (\<lambda>(i, t). PAddress t # (if i < length fees then [PUint24 (fees ! i)] else [])) (enumerate 0 tokens))"

definition fee_tiers :: "int list" where "fee_tiers = [100, 500, 3000, 10000]"

record chain_reads =
  rd_pool :: "string \<Rightarrow> string \<Rightarrow> int \<Rightarrow> string option"
  rd_token0 :: "string \<Rightarrow> string option"
  rd_token1 :: "string \<Rightarrow> string option"
  rd_fee :: "string \<Rightarrow> int option"

definition has_pool :: "chain_reads \<Rightarrow> string \<Rightarrow> string \<Rightarrow> int \<Rightarrow> bool" where
  "has_pool rd a b fee = (case rd_pool rd a b fee of None \<Rightarrow> False | Some pool \<Rightarrow> lower pool \<noteq> zero_address)"

definition pool_tiers :: "chain_reads \<Rightarrow> string \<Rightarrow> string \<Rightarrow> int list" where
  "pool_tiers rd a b = filter (has_pool rd a b) fee_tiers"

definition pool_pair :: "chain_reads \<Rightarrow> string \<Rightarrow> (string \<times> string \<times> int) option" where
  "pool_pair rd pool =
     (case (rd_token0 rd pool, rd_token1 rd pool, rd_fee rd pool) of
        (Some a, Some b, Some fee) \<Rightarrow> Some (lower a, lower b, fee)
      | _ \<Rightarrow> None)"

definition quote_cycle :: "(packed list \<Rightarrow> int \<Rightarrow> int option) \<Rightarrow> cycle \<Rightarrow> int \<Rightarrow> int option" where
  "quote_cycle quoter c amount = quoter (encode_path (cy_tokens c) (cy_fees c)) amount"

definition cross_tier_cycles :: "string \<Rightarrow> string \<Rightarrow> int list \<Rightarrow> string \<Rightarrow> cycle list" where
  "cross_tier_cycles token base tiers label =
     concat (map (\<lambda>fa. concat (map (\<lambda>fb.
       if fa \<noteq> fb then [\<lparr>cy_label = label @ '' '' @ to_str fa @ ''/'' @ to_str fb, cy_tokens = [base, token, base], cy_fees = [fa, fb]\<rparr>] else [])
       tiers)) tiers)"

section \<open>The router\<close>

definition msg_sender :: string where "msg_sender = ''0x0000000000000000000000000000000000000001''"

definition address_this :: string where "address_this = ''0x0000000000000000000000000000000000000002''"

datatype router_call = ExactInput "packed list" string int int | UnwrapWETH9 int

datatype router_data = MultiCall int "router_call list"

definition encode_exact_input_swap :: "packed list \<Rightarrow> int \<Rightarrow> int \<Rightarrow> bool \<Rightarrow> int \<Rightarrow> router_data" where
  "encode_exact_input_swap path amount_in min_out native_out deadline =
     MultiCall deadline
       (ExactInput path (if native_out then address_this else msg_sender) amount_in min_out #
        (if native_out then [UnwrapWETH9 min_out] else []))"

definition build_cycle_swap :: "int \<Rightarrow> cycle \<Rightarrow> int \<Rightarrow> int \<Rightarrow> int \<Rightarrow> router_data" where
  "build_cycle_swap now c amount_in min_return deadline_seconds =
     encode_exact_input_swap (encode_path (cy_tokens c) (cy_fees c)) amount_in min_return True (now div 1000 + deadline_seconds)"

section \<open>Legs over two venues\<close>

record route_leg =
  lg_venue :: int
  lg_path :: "packed list"
  lg_key :: pool_key
  lg_zero_for_one :: bool

definition empty_key :: pool_key where
  "empty_key = \<lparr>currency0 = zero_address, currency1 = zero_address, pk_fee = 0, tick_spacing = 0, hooks = zero_address\<rparr>"

definition v3_leg :: "string \<Rightarrow> string \<Rightarrow> int \<Rightarrow> route_leg" where
  "v3_leg token_in token_out fee =
     \<lparr>lg_venue = 0, lg_path = [PAddress (lower token_in), PUint24 fee, PAddress (lower token_out)], lg_key = empty_key, lg_zero_for_one = False\<rparr>"

definition holds_ether :: "pool_key \<Rightarrow> bool" where
  "holds_ether key = (lower (currency0 key) = zero_address \<or> lower (currency1 key) = zero_address)"

definition v4_leg :: "pool_key \<Rightarrow> string \<Rightarrow> string \<Rightarrow> route_leg" where
  "v4_leg key token_in weth' =
     (let cin = (if holds_ether key \<and> lower token_in = lower weth' then zero_address else lower token_in) in
      \<lparr>lg_venue = 1, lg_path = [], lg_key = key, lg_zero_for_one = (lower (currency0 key) = cin)\<rparr>)"

definition other_side :: "pool_key \<Rightarrow> string \<Rightarrow> string \<Rightarrow> string" where
  "other_side key token weth' =
     (let a = (if lower (currency0 key) = zero_address then lower weth' else lower (currency0 key));
          b = (if lower (currency1 key) = zero_address then lower weth' else lower (currency1 key)) in
      if a = lower token then b else a)"

section \<open>Quotes that come as a revert\<close>

record call_error =
  er_data :: "json option"
  er_message :: "string option"

datatype call_outcome = Returned string | Threw call_error

text \<open>The first \<open>0x\<close> that eight digits follow, with all its digits.\<close>

fun find_hex :: "string \<Rightarrow> string option" where
  "find_hex [] = None"
| "find_hex (c # s) =
     (let ds = takeWhile hex_char (drop 2 (c # s)) in
      if starts_with ''0x'' (c # s) \<and> 8 \<le> length ds then Some (''0x'' @ ds) else find_hex s)"

definition hex_payload :: "json option \<Rightarrow> string option" where
  "hex_payload j = (case j of Some (Str s) \<Rightarrow> if starts_with ''0x'' s \<and> 10 \<le> length s then Some s else None | _ \<Rightarrow> None)"

definition revert_bytes :: "call_error \<Rightarrow> string option" where
  "revert_bytes e =
     (case hex_payload (er_data e) of
        Some b \<Rightarrow> Some b
      | None \<Rightarrow>
          (case hex_payload (Option.bind (er_data e) (member ''data'')) of
             Some b \<Rightarrow> Some b
           | None \<Rightarrow> find_hex (case er_message e of None \<Rightarrow> '''' | Some m \<Rightarrow> m)))"

definition quote_route :: "(route_leg list \<Rightarrow> int \<Rightarrow> call_outcome) \<Rightarrow> (string \<Rightarrow> (int \<times> int) option) \<Rightarrow> route_leg list \<Rightarrow> int \<Rightarrow> int option" where
  "quote_route call decode legs amount =
     (case call legs amount of
        Returned _ \<Rightarrow> None
      | Threw e \<Rightarrow> (case revert_bytes e of None \<Rightarrow> None | Some b \<Rightarrow> map_option fst (decode b)))"

section \<open>Cycles over two venues\<close>

record cross_cycle =
  cc_legs :: "route_leg list"
  cc_label :: string
  cc_token :: string

definition v3_tiers_for :: "chain_reads \<Rightarrow> string \<Rightarrow> int list" where
  "v3_tiers_for rd token =
     (case (if lower token < weth then (lower token, weth) else (weth, lower token)) of
        (a, b) \<Rightarrow> filter (has_pool rd a b) fee_tiers)"

definition cycles_for_v4 :: "pool_key \<Rightarrow> int list \<Rightarrow> cross_cycle list" where
  "cycles_for_v4 key tiers =
     (let a = (if holds_ether key then weth else lower (currency0 key));
          token = other_side key a weth in
      if \<not> holds_ether key \<and> lower (currency0 key) \<noteq> weth \<and> lower (currency1 key) \<noteq> weth then []
      else if lower token = weth then []
      else concat (map (\<lambda>fee.
        [\<lparr>cc_legs = [v4_leg key weth weth, v3_leg token weth fee],
          cc_label = ''WETH >v4> '' @ take 8 token @ '' >v3:'' @ to_str fee @ ''> WETH'', cc_token = token\<rparr>,
         \<lparr>cc_legs = [v3_leg weth token fee, v4_leg key token weth],
          cc_label = ''WETH >v3:'' @ to_str fee @ ''> '' @ take 8 token @ '' >v4> WETH'', cc_token = token\<rparr>]) tiers))"

record priced =
  pr_cycle :: cross_cycle
  pr_in :: int
  pr_out :: int
  pr_gross :: int

text \<open>
  The nested loop over sizes and cycles with its return at the deadline: \<open>k\<close> counts the turns, the clock
  is read once in each, and the quote of a turn may differ from that of another.
\<close>

fun price_loop :: "(nat \<Rightarrow> int) \<Rightarrow> (nat \<Rightarrow> route_leg list \<Rightarrow> int \<Rightarrow> int option) \<Rightarrow> int \<Rightarrow> nat \<Rightarrow> (int \<times> cross_cycle) list \<Rightarrow> priced option \<Rightarrow> priced option" where
  "price_loop clock quot stop k [] best = best"
| "price_loop clock quot stop k ((amount, c) # rest) best =
     (if stop \<le> clock k then best
      else price_loop clock quot stop (Suc k) rest
        (case quot k (cc_legs c) amount of
           None \<Rightarrow> best
         | Some got \<Rightarrow>
             if got \<le> amount then best
             else if (case best of None \<Rightarrow> True | Some b \<Rightarrow> pr_gross b < got - amount)
             then Some \<lparr>pr_cycle = c, pr_in = amount, pr_out = got, pr_gross = got - amount\<rparr>
             else best))"

definition price_cycles :: "(nat \<Rightarrow> int) \<Rightarrow> (nat \<Rightarrow> route_leg list \<Rightarrow> int \<Rightarrow> int option) \<Rightarrow> cross_cycle list \<Rightarrow> int list \<Rightarrow> int \<Rightarrow> priced option" where
  "price_cycles clock quot cycles sizes deadline_ms =
     price_loop (\<lambda>k. clock (Suc k)) quot (clock 0 + deadline_ms) 0 (concat (map (\<lambda>a. map (Pair a) cycles) sizes)) None"

section \<open>The cycles are round trips\<close>

text \<open>What a leg takes and what it gives, ether and wrapped ether being one asset.\<close>

definition as_erc20 :: "string \<Rightarrow> string" where
  "as_erc20 c = (if lower c = zero_address then weth else lower c)"

definition leg_takes :: "route_leg \<Rightarrow> string" where
  "leg_takes l =
     (if lg_venue l = 1 then as_erc20 (if lg_zero_for_one l then currency0 (lg_key l) else currency1 (lg_key l))
      else (case lg_path l of PAddress a # _ \<Rightarrow> a | _ \<Rightarrow> []))"

definition leg_gives :: "route_leg \<Rightarrow> string" where
  "leg_gives l =
     (if lg_venue l = 1 then as_erc20 (if lg_zero_for_one l then currency1 (lg_key l) else currency0 (lg_key l))
      else (case rev (lg_path l) of PAddress a # _ \<Rightarrow> a | _ \<Rightarrow> []))"

definition round_trip :: "cross_cycle \<Rightarrow> bool" where
  "round_trip c \<longleftrightarrow>
     (\<exists>l1 l2. cc_legs c = [l1, l2] \<and> {lg_venue l1, lg_venue l2} = {0, 1} \<and>
        leg_takes l1 = weth \<and> leg_gives l1 = cc_token c \<and> leg_takes l2 = cc_token c \<and> leg_gives l2 = weth \<and> cc_token c \<noteq> weth)"

lemma other_side_other:
  assumes "holds_ether key \<or> lower (currency0 key) = weth" "\<not> (as_erc20 (currency0 key) = weth \<and> as_erc20 (currency1 key) = weth)"
  shows "other_side key (if holds_ether key then weth else lower (currency0 key)) weth =
    (if as_erc20 (currency0 key) = weth then as_erc20 (currency1 key) else as_erc20 (currency0 key))"
  using assms by (auto simp: other_side_def as_erc20_def holds_ether_def Let_def)

lemma v4_round_trips:
  assumes "c \<in> set (cycles_for_v4 key tiers)"
  shows "round_trip c"
proof -
  define a where "a = (if holds_ether key then weth else lower (currency0 key))"
  define token where "token = other_side key a weth"
  have low: "lower token = token" by (auto simp: token_def other_side_def Let_def)
  have cond: "holds_ether key \<or> lower (currency0 key) = weth \<or> lower (currency1 key) = weth" "token \<noteq> weth"
    using assms low by (auto simp: cycles_for_v4_def Let_def a_def [symmetric] token_def [symmetric] split: if_splits)
  obtain fee where c: "c = \<lparr>cc_legs = [v4_leg key weth weth, v3_leg token weth fee],
          cc_label = ''WETH >v4> '' @ take 8 token @ '' >v3:'' @ to_str fee @ ''> WETH'', cc_token = token\<rparr> \<or>
     c = \<lparr>cc_legs = [v3_leg weth token fee, v4_leg key token weth],
          cc_label = ''WETH >v3:'' @ to_str fee @ ''> '' @ take 8 token @ '' >v4> WETH'', cc_token = token\<rparr>"
    using assms by (auto simp: cycles_for_v4_def Let_def a_def [symmetric] token_def [symmetric] split: if_splits)
  have v4: "leg_takes (v4_leg key weth weth) = weth \<and> leg_gives (v4_leg key weth weth) = token \<and>
    leg_takes (v4_leg key token weth) = token \<and> leg_gives (v4_leg key token weth) = weth"
    using cond low by (auto simp: leg_takes_def leg_gives_def v4_leg_def as_erc20_def token_def a_def other_side_def holds_ether_def Let_def split: if_splits)
  have v3: "leg_takes (v3_leg x y fee) = lower x" "leg_gives (v3_leg x y fee) = lower y" for x y
    by (simp_all add: leg_takes_def leg_gives_def v3_leg_def)
  have "lg_venue (v4_leg key x weth) = 1" "lg_venue (v3_leg x y fee) = 0" for x y by (simp_all add: v4_leg_def v3_leg_def Let_def)
  with c v4 v3 low cond(2) show ?thesis by (auto simp: round_trip_def insert_commute)
qed

text \<open>
  A pool that names wrapped ether second has no cycle, although it touches it: the other side is taken from
  the first currency, which is the token, and the other side of that is wrapped ether.
\<close>

lemma weth_second_skipped:
  assumes "lower (currency1 key) = weth" "lower (currency0 key) \<noteq> zero_address"
  shows "cycles_for_v4 key tiers = []"
  using assms by (auto simp: cycles_for_v4_def other_side_def holds_ether_def Let_def)

lemma v4_cycles_complete:
  assumes "holds_ether key \<or> lower (currency0 key) = weth" "\<not> (as_erc20 (currency0 key) = weth \<and> as_erc20 (currency1 key) = weth)"
  shows "length (cycles_for_v4 key tiers) = 2 * length tiers"
proof -
  have "lower (other_side key (if holds_ether key then weth else lower (currency0 key)) weth) \<noteq> weth"
    unfolding other_side_other [OF assms] using assms(2) by (auto simp: as_erc20_def)
  with assms(1) show ?thesis by (auto simp: cycles_for_v4_def Let_def length_concat comp_def sum_list_triv)
qed

section \<open>The best quote\<close>

lemma price_loop_best:
  assumes "price_loop clock quot stop k todo best = Some p"
    and "\<forall>b. best = Some b \<longrightarrow> P b"
    and "\<And>k a c got. (a, c) \<in> set todo \<Longrightarrow> quot k (cc_legs c) a = Some got \<Longrightarrow> a < got \<Longrightarrow>
      P \<lparr>pr_cycle = c, pr_in = a, pr_out = got, pr_gross = got - a\<rparr>"
  shows "P p"
  using assms
proof (induction todo arbitrary: k best)
  case (Cons ac rest)
  obtain amount c where ac: "ac = (amount, c)" by force
  let ?best = "case quot k (cc_legs c) amount of
           None \<Rightarrow> best
         | Some got \<Rightarrow>
             if got \<le> amount then best
             else if (case best of None \<Rightarrow> True | Some b \<Rightarrow> pr_gross b < got - amount)
             then Some \<lparr>pr_cycle = c, pr_in = amount, pr_out = got, pr_gross = got - amount\<rparr>
             else best"
  show ?case
  proof (cases "stop \<le> clock k")
    case True
    with Cons.prems(1,2) ac show ?thesis by simp
  next
    case False
    have "price_loop clock quot stop (Suc k) rest ?best = Some p" using Cons.prems(1) False by (simp add: ac)
    moreover have "\<forall>b. ?best = Some b \<longrightarrow> P b"
      using Cons.prems(2) Cons.prems(3) [of amount c k] ac by (auto split: option.splits if_splits)
    moreover have "P \<lparr>pr_cycle = c', pr_in = a, pr_out = got, pr_gross = got - a\<rparr>"
      if "(a, c') \<in> set rest" "quot j (cc_legs c') a = Some got" "a < got" for j a c' got
      using Cons.prems(3) [of a c' j got] that by simp
    ultimately show ?thesis by (rule Cons.IH)
  qed
qed simp

lemma price_cycles_quote:
  assumes "price_cycles clock quot cycles sizes ms = Some p"
  shows "pr_cycle p \<in> set cycles \<and> pr_in p \<in> set sizes \<and> pr_gross p = pr_out p - pr_in p \<and> 0 < pr_gross p \<and>
    (\<exists>k. quot k (cc_legs (pr_cycle p)) (pr_in p) = Some (pr_out p))"
  by (rule price_loop_best [OF assms [unfolded price_cycles_def]]) auto

end
