(* ===== verification/Searcher.thy ===== *)
theory Searcher
  imports Venues
begin

text \<open>
  The house searcher: what a backrun is worth (\<open>apps/searcher-bot/src/strategy.ts\<close>) and the bot that bids
  (\<open>main.ts\<close>): the chain state it refreshes, the bond it keeps, the breaker on gas, and the handler of an
  opportunity. Quotes and pool reads are functions of the model, a clock gives the time of each reading.
\<close>

section \<open>Sizing and bidding\<close>

record sized =
  sz_cycle :: cycle
  sz_in :: int
  sz_out :: int
  sz_gross :: int

record decision =
  de_best :: "sized option"
  de_bid :: int
  de_reason :: string

record strategy_cfg =
  sg_base :: string
  sg_max_bid :: int
  sg_budget :: int
  sg_gas_cost :: int
  sg_min_profit :: int
  sg_bid_share :: int

definition is_biddable_hint :: "string list \<Rightarrow> swap_hint list \<Rightarrow> bool" where
  "is_biddable_hint touched swaps =
     ((\<exists>s \<in> set swaps. hint_kind s = Univ4 \<and> hint_key s \<noteq> None) \<or> 0 < length touched)"

definition size_ladder :: "int \<Rightarrow> int list" where
  "size_ladder budget = js_set (filter (\<lambda>s. 0 < s) [tdiv budget 3, budget])"

definition bid_for :: "int \<Rightarrow> strategy_cfg \<Rightarrow> int" where
  "bid_for gross cfg =
     (let net = gross - sg_gas_cost cfg in
      if net < sg_min_profit cfg then 0
      else let offered = tdiv (net * sg_bid_share cfg) 100 in
           if offered > sg_max_bid cfg then sg_max_bid cfg else offered)"

definition better_quote :: "sized option \<Rightarrow> sized \<Rightarrow> sized option" where
  "better_quote best q = (case best of None \<Rightarrow> Some q | Some b \<Rightarrow> if sz_gross b < sz_gross q then Some q else best)"

definition pick_best :: "sized list \<Rightarrow> sized option" where
  "pick_best quotes =
     (case foldl better_quote None quotes of None \<Rightarrow> None | Some b \<Rightarrow> if 0 < sz_gross b then Some b else None)"

section \<open>The cycles of a pool, remembered\<close>

type_synonym cycle_cache = "(string \<times> cycle list) list"

definition fresh_cycles :: "chain_reads \<Rightarrow> string \<Rightarrow> string \<Rightarrow> cycle list" where
  "fresh_cycles rd base key =
     (case pool_pair rd key of
        None \<Rightarrow> []
      | Some (t0, t1, fee) \<Rightarrow>
          (case (if t0 = lower base then Some t1 else if t1 = lower base then Some t0 else None) of
             None \<Rightarrow> []
           | Some token \<Rightarrow>
               (let tiers = pool_tiers rd base token in
                if length tiers < 2 then [] else cross_tier_cycles token base tiers (take 8 token))))"

definition cycles_for :: "chain_reads \<Rightarrow> string \<Rightarrow> string \<Rightarrow> cycle_cache \<Rightarrow> cycle list \<times> cycle_cache" where
  "cycles_for rd base pool cache =
     (let key = lower pool in
      case jget cache key of
        Some hit \<Rightarrow> (hit, cache)
      | None \<Rightarrow> (let cycles = fresh_cycles rd base key in (cycles, jset key cycles cache)))"

fun cycles_of_pools :: "chain_reads \<Rightarrow> string \<Rightarrow> string list \<Rightarrow> cycle_cache \<Rightarrow> cycle list \<times> cycle_cache" where
  "cycles_of_pools rd base [] cache = ([], cache)"
| "cycles_of_pools rd base (p # ps) cache =
     (case cycles_for rd base p cache of (cs, cache1) \<Rightarrow>
        case cycles_of_pools rd base ps cache1 of (cs', cache2) \<Rightarrow> (cs @ cs', cache2))"

section \<open>Deciding\<close>

text \<open>
  \<open>k\<close> counts the cycles. The clock is read before each; a deadline of \<^const>\<open>None\<close> is \<open>Infinity\<close>.
\<close>

definition quotes_of :: "(nat \<Rightarrow> packed list \<Rightarrow> int \<Rightarrow> int option) \<Rightarrow> int list \<Rightarrow> nat \<Rightarrow> cycle \<Rightarrow> sized list" where
  "quotes_of quoter sizes k c =
     concat (map (\<lambda>a. case quote_cycle (quoter k) c a of None \<Rightarrow> [] | Some got \<Rightarrow> [\<lparr>sz_cycle = c, sz_in = a, sz_out = got, sz_gross = got - a\<rparr>]) sizes)"

fun quote_loop :: "(nat \<Rightarrow> int) \<Rightarrow> (nat \<Rightarrow> packed list \<Rightarrow> int \<Rightarrow> int option) \<Rightarrow> int option \<Rightarrow> int list \<Rightarrow> nat \<Rightarrow> cycle list \<Rightarrow> sized list" where
  "quote_loop clock quoter deadline sizes k [] = []"
| "quote_loop clock quoter deadline sizes k (c # cs) =
     (if (case deadline of None \<Rightarrow> False | Some d \<Rightarrow> d < clock (Suc k) - clock 0) then []
      else quotes_of quoter sizes k c @ quote_loop clock quoter deadline sizes (Suc k) cs)"

definition evaluate :: "(nat \<Rightarrow> int) \<Rightarrow> (nat \<Rightarrow> packed list \<Rightarrow> int \<Rightarrow> int option) \<Rightarrow> cycle list \<Rightarrow> strategy_cfg \<Rightarrow> int option \<Rightarrow> decision" where
  "evaluate clock quoter cycles cfg deadline =
     (if cycles = [] then \<lparr>de_best = None, de_bid = 0, de_reason = ''no cross-tier cycle for this pool''\<rparr>
      else if sg_budget cfg \<le> 0 then \<lparr>de_best = None, de_bid = 0, de_reason = ''no capital''\<rparr>
      else case pick_best (quote_loop clock quoter deadline (size_ladder (sg_budget cfg)) 0 cycles) of
        None \<Rightarrow> \<lparr>de_best = None, de_bid = 0, de_reason = ''no round trip returned more than it cost''\<rparr>
      | Some best \<Rightarrow>
          (let bid = bid_for (sz_gross best) cfg in
           if bid = 0 then \<lparr>de_best = None, de_bid = 0, de_reason = ''best edge '' @ to_str (sz_gross best) @ '' wei does not clear gas and margin''\<rparr>
           else \<lparr>de_best = Some best, de_bid = bid,
                  de_reason = cy_label (sz_cycle best) @ '' in '' @ to_str (sz_in best) @ '' out '' @ to_str (sz_out best)\<rparr>))"

section \<open>The bot's state\<close>

record bot_cfg =
  bc_max_bid :: int
  bc_bond_target :: int
  bc_trade_budget :: int
  bc_gas_reserve :: int
  bc_min_profit :: int
  bc_bid_share :: int
  bc_eval_ms :: int
  bc_ordo_swap :: "string option"
  bc_gas_cap :: int
  bc_address :: string

record bot =
  bt_nonce :: int
  bt_max_fee :: int
  bt_gas_limit :: int
  bt_budget :: int
  bt_cycles :: cycle_cache
  bt_tiers :: "(string \<times> int list) list"
  bt_ledger :: "(int \<times> int) list"
  bt_breaker_logged :: bool
  bt_warned :: bool

definition swap_gas_limit :: int where "swap_gas_limit = 400000"

definition cross_gas_limit :: int where "cross_gas_limit = 650000"

record chain_news =
  nw_nonce :: int
  nw_gas_price :: int
  nw_gas :: int
  nw_balance :: int

definition refresh_chain_state :: "bot_cfg \<Rightarrow> chain_news \<Rightarrow> bot \<Rightarrow> bot" where
  "refresh_chain_state cfg n bt =
     (let reserved = bc_gas_reserve cfg + bc_bond_target cfg;
          free = (if nw_balance n > reserved then nw_balance n - reserved else 0) in
      bt\<lparr>bt_nonce := nw_nonce n, bt_max_fee := nw_gas_price n * 2, bt_gas_limit := tdiv (nw_gas n * 3) 2,
         bt_budget := (if free > bc_trade_budget cfg then bc_trade_budget cfg else free)\<rparr>)"

definition gas_cost_wei :: "bot \<Rightarrow> int" where "gas_cost_wei bt = swap_gas_limit * bt_max_fee bt"

datatype calldata = RouterData router_data | CycleData "route_leg list" int int string | PlainTransfer

record bot_tx =
  tx_to :: string
  tx_value :: int
  tx_data :: calldata
  tx_gas :: int
  tx_max_fee :: int
  tx_nonce :: int

definition sign_tx :: "string \<Rightarrow> int \<Rightarrow> calldata \<Rightarrow> int \<Rightarrow> bot \<Rightarrow> bot_tx \<times> bot" where
  "sign_tx addr value data gas bt =
     (\<lparr>tx_to = addr, tx_value = value, tx_data = data, tx_gas = gas, tx_max_fee = bt_max_fee bt, tx_nonce = bt_nonce bt\<rparr>,
      bt\<lparr>bt_nonce := bt_nonce bt + 1\<rparr>)"

definition router :: string where "router = ''0xcaf681a66d020601342297493863e78c959e5cb2''"

definition min_return :: "int \<Rightarrow> int \<Rightarrow> int \<Rightarrow> int" where
  "min_return amount_in gross bid = amount_in + tdiv (gross - bid) 2"

definition signed_backrun :: "int \<Rightarrow> sized \<Rightarrow> int \<Rightarrow> bot \<Rightarrow> bot_tx \<times> bot" where
  "signed_backrun now best bid bt =
     sign_tx router (sz_in best)
       (RouterData (build_cycle_swap now (sz_cycle best) (sz_in best) (min_return (sz_in best) (sz_gross best) bid) 60)) swap_gas_limit bt"

definition signed_cross_backrun :: "string \<Rightarrow> string \<Rightarrow> priced \<Rightarrow> int \<Rightarrow> bot \<Rightarrow> bot_tx \<times> bot" where
  "signed_cross_backrun ordo_swap me best bid bt =
     sign_tx ordo_swap (pr_in best)
       (CycleData (cc_legs (pr_cycle best)) (pr_in best) (min_return (pr_in best) (pr_gross best) bid) me) cross_gas_limit bt"

section \<open>The bond\<close>

datatype bond_step = BondEnough | BondBroke | BondShort | BondTopUp bot_tx

text \<open>\<open>balance\<close> and \<open>estimate\<close> are read in the course of it; the transaction is then sent and waited for.\<close>

definition ensure_bond :: "bot_cfg \<Rightarrow> string \<Rightarrow> int \<Rightarrow> int \<Rightarrow> int \<Rightarrow> bot \<Rightarrow> bond_step \<times> bot" where
  "ensure_bond cfg settlement bond balance estimate bt =
     (if settlement = [] \<or> bc_bond_target cfg \<le> bond then (BondEnough, bt)
      else let top_up = bc_bond_target cfg - bond in
           if balance \<le> top_up then (BondBroke, bt\<lparr>bt_warned := True\<rparr>)
           else let bt = bt\<lparr>bt_warned := False\<rparr>; gas = tdiv (estimate * 3) 2 in
                if balance < top_up + gas * bt_max_fee bt then (BondShort, bt)
                else case sign_tx settlement top_up PlainTransfer gas bt of (tx, bt) \<Rightarrow> (BondTopUp tx, bt))"

section \<open>The breaker\<close>

definition gas_burned_today :: "int \<Rightarrow> (int \<times> int) list \<Rightarrow> int \<times> (int \<times> int) list" where
  "gas_burned_today now ledger =
     (let kept = dropWhile (\<lambda>e. fst e < now - 86400000) ledger in (\<Sum>e\<leftarrow>kept. snd e, kept))"

definition charge_gas :: "int \<Rightarrow> int \<Rightarrow> bot \<Rightarrow> bot" where
  "charge_gas now wei bt = bt\<lparr>bt_ledger := bt_ledger bt @ [(now, wei)]\<rparr>"

definition breaker_tripped :: "bot_cfg \<Rightarrow> int \<Rightarrow> bot \<Rightarrow> bool \<times> bot" where
  "breaker_tripped cfg now bt =
     (case gas_burned_today now (bt_ledger bt) of (burned, kept) \<Rightarrow>
        if burned < bc_gas_cap cfg then (False, bt\<lparr>bt_ledger := kept, bt_breaker_logged := False\<rparr>)
        else (True, bt\<lparr>bt_ledger := kept, bt_breaker_logged := True\<rparr>))"

section \<open>An opportunity\<close>

text \<open>What the handler of one opportunity reads: the pools at its time, the clocks and the quotes.\<close>

record opp_env =
  oe_reads :: chain_reads
  oe_checked :: int
  oe_started :: int
  oe_cross_clock :: "nat \<Rightarrow> int"
  oe_cross_quote :: "nat \<Rightarrow> route_leg list \<Rightarrow> int \<Rightarrow> int option"
  oe_cross_done :: int
  oe_clock :: "nat \<Rightarrow> int"
  oe_quoter :: "nat \<Rightarrow> packed list \<Rightarrow> int \<Rightarrow> int option"
  oe_signed_at :: int

definition tiers_for :: "chain_reads \<Rightarrow> string \<Rightarrow> bot \<Rightarrow> int list \<times> bot" where
  "tiers_for rd token bt =
     (case jget (bt_tiers bt) (lower token) of
        Some hit \<Rightarrow> (hit, bt)
      | None \<Rightarrow> (let ts = v3_tiers_for rd token in (ts, bt\<lparr>bt_tiers := jset (lower token) ts (bt_tiers bt)\<rparr>)))"

fun v4_cycles :: "chain_reads \<Rightarrow> pool_key list \<Rightarrow> bot \<Rightarrow> cross_cycle list \<times> bot" where
  "v4_cycles rd [] bt = ([], bt)"
| "v4_cycles rd (key # keys) bt =
     (let ether = currency0 key = zero_address \<or> currency1 key = zero_address;
          token = other_side key (if ether then weth else currency0 key) weth in
      if lower token = lower weth then v4_cycles rd keys bt
      else case tiers_for rd token bt of (ts, bt1) \<Rightarrow>
             case v4_cycles rd keys bt1 of (cs, bt2) \<Rightarrow> (cycles_for_v4 key ts @ cs, bt2))"

definition v4_keys :: "swap_hint list \<Rightarrow> pool_key list" where
  "v4_keys swaps = concat (map (\<lambda>s. case (hint_kind s, hint_key s) of (Univ4, Some k) \<Rightarrow> [k] | _ \<Rightarrow> []) swaps)"

definition price_v4 :: "bot_cfg \<Rightarrow> opp_env \<Rightarrow> swap_hint list \<Rightarrow> bot \<Rightarrow> priced option \<times> bot" where
  "price_v4 cfg env swaps bt =
     (if v4_keys swaps = [] then (None, bt)
      else case v4_cycles (oe_reads env) (v4_keys swaps) bt of (cycles, bt1) \<Rightarrow>
        if cycles = [] \<or> bc_ordo_swap cfg = None then (None, bt1)
        else (price_cycles (oe_cross_clock env) (oe_cross_quote env) cycles
                (if 0 < bt_budget bt1 then filter (\<lambda>s. 0 < s) [tdiv (bt_budget bt1) 3, bt_budget bt1] else []) (bc_eval_ms cfg), bt1))"

definition strategy_now :: "bot_cfg \<Rightarrow> bot \<Rightarrow> strategy_cfg" where
  "strategy_now cfg bt =
     \<lparr>sg_base = weth, sg_max_bid = bc_max_bid cfg, sg_budget = bt_budget bt, sg_gas_cost = gas_cost_wei bt,
      sg_min_profit = bc_min_profit cfg, sg_bid_share = bc_bid_share cfg\<rparr>"

record bot_bid =
  bb_bid :: int
  bb_tx :: bot_tx

definition place_bid :: "bot_cfg \<Rightarrow> opp_env \<Rightarrow> priced option \<Rightarrow> decision \<Rightarrow> strategy_cfg \<Rightarrow> bot \<Rightarrow> bot_bid option \<times> bot" where
  "place_bid cfg env cross d sg bt =
     (let cross_bid = (case cross of None \<Rightarrow> 0 | Some p \<Rightarrow> bid_for (pr_gross p) sg) in
      case (cross, bc_ordo_swap cfg, 0 < cross_bid \<and> de_bid d \<le> cross_bid) of
        (Some p, Some venue, True) \<Rightarrow>
          (case signed_cross_backrun venue (bc_address cfg) p cross_bid bt of (tx, bt) \<Rightarrow>
             (Some \<lparr>bb_bid = cross_bid, bb_tx = tx\<rparr>, charge_gas (oe_signed_at env) (cross_gas_limit * bt_max_fee bt) bt))
      | _ \<Rightarrow>
          (case de_best d of
             None \<Rightarrow> (None, bt)
           | Some best \<Rightarrow>
               if de_bid d = 0 then (None, bt)
               else (case signed_backrun (oe_signed_at env) best (de_bid d) bt of (tx, bt) \<Rightarrow>
                 (Some \<lparr>bb_bid = de_bid d, bb_tx = tx\<rparr>, charge_gas (oe_signed_at env) (gas_cost_wei bt) bt))))"

definition on_opportunity :: "bot_cfg \<Rightarrow> opp_env \<Rightarrow> string list \<Rightarrow> swap_hint list \<Rightarrow> bot \<Rightarrow> bot_bid option \<times> bot" where
  "on_opportunity cfg env touched swaps bt0 =
     (case breaker_tripped cfg (oe_checked env) bt0 of (tripped, bt1) \<Rightarrow>
        if tripped \<or> \<not> is_biddable_hint touched swaps then (None, bt1)
        else case price_v4 cfg env swaps bt1 of (cross, bt2) \<Rightarrow>
             (let left = bc_eval_ms cfg - (oe_cross_done env - oe_started env); sg = strategy_now cfg bt2 in
              case cycles_of_pools (oe_reads env) weth touched (bt_cycles bt2) of (cycles, cache) \<Rightarrow>
              (let bt3 = bt2\<lparr>bt_cycles := cache\<rparr>;
                   d = evaluate (oe_clock env) (oe_quoter env) cycles sg (Some (max left 20)) in
               place_bid cfg env cross d sg bt3)))"

section \<open>What happens to the bot\<close>

datatype bot_event = Refreshed chain_news | BondChecked string int int int | Opportunity opp_env "string list" "swap_hint list"

definition new_bot :: bot where
  "new_bot = \<lparr>bt_nonce = 0, bt_max_fee = 2000000000, bt_gas_limit = 60000, bt_budget = 0, bt_cycles = [], bt_tiers = [],
     bt_ledger = [], bt_breaker_logged = False, bt_warned = False\<rparr>"

fun bot_step :: "bot_cfg \<Rightarrow> bot_event \<Rightarrow> bot \<Rightarrow> bot_bid option \<times> bot" where
  "bot_step cfg (Refreshed n) bt = (None, refresh_chain_state cfg n bt)"
| "bot_step cfg (BondChecked settlement bond balance estimate) bt = (None, snd (ensure_bond cfg settlement bond balance estimate bt))"
| "bot_step cfg (Opportunity env touched swaps) bt = on_opportunity cfg env touched swaps bt"

fun bot_run :: "bot_cfg \<Rightarrow> bot_event list \<Rightarrow> bot \<Rightarrow> bot" where
  "bot_run cfg [] bt = bt"
| "bot_run cfg (ev # evs) bt = bot_run cfg evs (snd (bot_step cfg ev bt))"

text \<open>
  Handlers overlap: an opportunity is let through when it arrives and its gas is charged when its bid goes
  out, and others arrive in between. The state is the bot, how many handlers are under way, and what was
  charged when.
\<close>

datatype handler_event = HandlerBegins int | HandlerCommits int int | HandlerSkips

fun handler_step :: "bot_cfg \<Rightarrow> bot \<times> nat \<times> (int \<times> int) list \<Rightarrow> handler_event \<Rightarrow> bot \<times> nat \<times> (int \<times> int) list" where
  "handler_step cfg (bt, n, charged) (HandlerBegins now) =
     (case breaker_tripped cfg now bt of (tripped, bt') \<Rightarrow> (bt', if tripped then n else Suc n, charged))"
| "handler_step cfg (bt, n, charged) (HandlerCommits now wei) =
     (case n of 0 \<Rightarrow> (bt, n, charged) | Suc m \<Rightarrow> (charge_gas now wei bt, m, charged @ [(now, wei)]))"
| "handler_step cfg (bt, n, charged) HandlerSkips = (bt, n - 1, charged)"

definition handler_run :: "bot_cfg \<Rightarrow> handler_event list \<Rightarrow> bot \<times> nat \<times> (int \<times> int) list" where
  "handler_run cfg evs = foldl (handler_step cfg) (new_bot, 0, []) evs"

end
