(* ===== verification/SearcherProofs.thy ===== *)
theory SearcherProofs
  imports Searcher
begin

text \<open>
  What the searcher may rely on: a bid is covered by a quote of the very route it sends, and the breaker
  bounds the gas that a day commits, whatever handlers overlap.
\<close>

section \<open>Quotes and bids\<close>

lemma fold_better:
  "foldl better_quote best qs = Some b \<Longrightarrow> best = Some b \<or> b \<in> set qs"
  by (induction qs arbitrary: best) (fastforce simp: better_quote_def split: option.splits if_splits)+

lemma fold_better_max:
  "foldl better_quote best qs = Some b \<Longrightarrow> (\<forall>q. best = Some q \<longrightarrow> sz_gross q \<le> sz_gross b) \<and> (\<forall>q \<in> set qs. sz_gross q \<le> sz_gross b)"
proof (induction qs arbitrary: best)
  case (Cons q qs)
  from Cons.IH [of "better_quote best q"] Cons.prems show ?case
    by (auto simp: better_quote_def split: option.splits if_splits)
qed auto

lemma pick_best_Some:
  assumes "pick_best qs = Some b"
  shows "b \<in> set qs \<and> 0 < sz_gross b \<and> (\<forall>q \<in> set qs. sz_gross q \<le> sz_gross b)"
proof -
  have "foldl better_quote None qs = Some b" "0 < sz_gross b" using assms by (auto simp: pick_best_def split: option.splits if_splits)
  with fold_better [of None qs b] fold_better_max [of None qs b] show ?thesis by simp
qed

definition quoted :: "(nat \<Rightarrow> packed list \<Rightarrow> int \<Rightarrow> int option) \<Rightarrow> sized \<Rightarrow> bool" where
  "quoted quoter q \<longleftrightarrow>
     (\<exists>k. quote_cycle (quoter k) (sz_cycle q) (sz_in q) = Some (sz_out q)) \<and> sz_gross q = sz_out q - sz_in q"

lemma quote_loop_quoted:
  "q \<in> set (quote_loop clock quoter deadline sizes k cs) \<Longrightarrow> sz_cycle q \<in> set cs \<and> sz_in q \<in> set sizes \<and> quoted quoter q"
  by (induction cs arbitrary: k) (fastforce simp: quotes_of_def quoted_def split: if_splits option.splits)+

lemma size_ladder_bounds: "s \<in> set (size_ladder budget) \<Longrightarrow> 0 < s \<and> s \<le> budget"
proof -
  assume "s \<in> set (size_ladder budget)"
  then have s: "0 < s" "s = tdiv budget 3 \<or> s = budget" by (auto simp: size_ladder_def split: if_splits)
  have "tdiv budget 3 \<le> budget" if "0 < tdiv budget 3"
  proof -
    have "0 \<le> budget" using that by (cases "0 \<le> budget") (simp_all add: tdiv_def sgn_if)
    with tdiv_le [of budget 3] that show ?thesis by simp
  qed
  with s show ?thesis by auto
qed

lemma bid_for_bounds:
  assumes "0 \<le> sg_max_bid sg" "0 \<le> sg_min_profit sg" "0 \<le> sg_bid_share sg" "sg_bid_share sg \<le> 100"
  shows "0 \<le> bid_for gross sg \<and> bid_for gross sg \<le> sg_max_bid sg \<and>
    (bid_for gross sg \<noteq> 0 \<longrightarrow> sg_min_profit sg \<le> gross - sg_gas_cost sg \<and> bid_for gross sg \<le> gross - sg_gas_cost sg)"
proof (cases "gross - sg_gas_cost sg < sg_min_profit sg")
  case False
  define net where "net = gross - sg_gas_cost sg"
  have net: "0 \<le> net" using False assms(2) by (simp add: net_def)
  let ?o = "tdiv (net * sg_bid_share sg) 100"
  have "?o * 100 \<le> net * sg_bid_share sg" "0 \<le> ?o" using net assms(3) by (simp_all add: tdiv_le tdiv_nonneg_ge0)
  moreover have "net * sg_bid_share sg \<le> net * 100" using net assms(4) by (simp add: mult_left_mono)
  ultimately have "0 \<le> ?o" "?o \<le> net" by linarith+
  moreover have "bid_for gross sg = min (sg_max_bid sg) ?o" using False by (simp add: bid_for_def net_def Let_def min_def)
  ultimately show ?thesis using False assms(1) by (simp add: net_def min_def)
qed (use assms(1) in \<open>simp add: bid_for_def\<close>)

lemma evaluate_decision:
  assumes "evaluate clock quoter cycles sg deadline = d" "de_best d = Some b"
  shows "sz_cycle b \<in> set cycles \<and> 0 < sz_in b \<and> sz_in b \<le> sg_budget sg \<and> quoted quoter b \<and> 0 < sz_gross b \<and> de_bid d = bid_for (sz_gross b) sg \<and> de_bid d \<noteq> 0"
proof -
  have "pick_best (quote_loop clock quoter deadline (size_ladder (sg_budget sg)) 0 cycles) = Some b" "de_bid d = bid_for (sz_gross b) sg" "de_bid d \<noteq> 0"
    using assms by (auto simp: evaluate_def Let_def split: if_splits option.splits)
  with pick_best_Some quote_loop_quoted size_ladder_bounds show ?thesis by metis
qed

section \<open>The cycles of the pools\<close>

definition closed_cycle :: "cycle \<Rightarrow> bool" where
  "closed_cycle c \<longleftrightarrow> (\<exists>token fa fb. cy_tokens c = [weth, token, weth] \<and> cy_fees c = [fa, fb] \<and> fa \<noteq> fb \<and> {fa, fb} \<subseteq> set fee_tiers)"

definition cache_ok :: "cycle_cache \<Rightarrow> bool" where
  "cache_ok cache \<longleftrightarrow> (\<forall>(k, cs) \<in> set cache. \<forall>c \<in> set cs. closed_cycle c)"

lemma fresh_closed: "c \<in> set (fresh_cycles rd weth key) \<Longrightarrow> closed_cycle c"
  by (fastforce simp: fresh_cycles_def cross_tier_cycles_def closed_cycle_def pool_tiers_def Let_def split: option.splits if_splits)

lemma cycles_for_ok:
  assumes "cycles_for rd weth p cache = (cs, cache')" "cache_ok cache"
  shows "(\<forall>c \<in> set cs. closed_cycle c) \<and> cache_ok cache'"
proof (cases "jget cache (lower p)")
  case (Some hit)
  then have "(lower p, hit) \<in> set cache" by (rule map_of_SomeD)
  with assms Some show ?thesis by (auto simp: cycles_for_def cache_ok_def Let_def)
next
  case None
  with assms have cs: "cs = fresh_cycles rd weth (lower p)" "cache' = cache @ [(lower p, cs)]"
    by (auto simp: cycles_for_def Let_def jset_append)
  with assms(2) fresh_closed show ?thesis by (auto simp: cache_ok_def)
qed

lemma cycles_of_pools_ok:
  "cycles_of_pools rd weth ps cache = (cs, cache') \<Longrightarrow> cache_ok cache \<Longrightarrow> (\<forall>c \<in> set cs. closed_cycle c) \<and> cache_ok cache'"
proof (induction ps arbitrary: cs cache)
  case (Cons p ps)
  obtain cs1 cache1 where 1: "cycles_for rd weth p cache = (cs1, cache1)" by force
  obtain cs2 where 2: "cycles_of_pools rd weth ps cache1 = (cs2, cache')" "cs = cs1 @ cs2"
    using Cons.prems(1) 1 by (auto split: prod.splits)
  from cycles_for_ok [OF 1 Cons.prems(2)] Cons.IH [OF 2(1)] 2(2) show ?case by auto
qed simp

lemma v4_cycles_round:
  "v4_cycles rd keys bt = (cs, bt') \<Longrightarrow> (\<forall>c \<in> set cs. round_trip c) \<and> (\<exists>ts. bt' = bt\<lparr>bt_tiers := ts\<rparr>)"
proof (induction keys arbitrary: bt cs)
  case Nil
  then show ?case by (auto intro: exI [of _ "bt_tiers bt'"])
next
  case (Cons key keys)
  let ?token = "other_side key (if currency0 key = zero_address \<or> currency1 key = zero_address then weth else currency0 key) weth"
  show ?case
  proof (cases "lower ?token = lower weth")
    case True
    with Cons show ?thesis by (simp add: Let_def)
  next
    case False
    obtain ts bt1 where 1: "tiers_for rd ?token bt = (ts, bt1)" by force
    then obtain tt where tt: "bt1 = bt\<lparr>bt_tiers := tt\<rparr>" 
      by (cases "jget (bt_tiers bt) (lower ?token)") (auto simp: tiers_for_def Let_def intro: that [of "bt_tiers bt"])
    obtain cs2 where 2: "v4_cycles rd keys bt1 = (cs2, bt')" "cs = cycles_for_v4 key ts @ cs2"
      using Cons.prems False 1 by (auto simp: Let_def split: prod.splits)
    from Cons.IH [OF 2(1)] 2(2) v4_round_trips tt show ?thesis by auto
  qed
qed

lemma price_v4_facts:
  assumes "price_v4 cfg env swaps bt = (cross, bt')"
  shows "(\<exists>ts. bt' = bt\<lparr>bt_tiers := ts\<rparr>) \<and>
    (\<forall>p. cross = Some p \<longrightarrow> round_trip (pr_cycle p) \<and> 0 < pr_in p \<and> pr_in p \<le> bt_budget bt \<and> pr_gross p = pr_out p - pr_in p \<and>
       (\<exists>k. oe_cross_quote env k (cc_legs (pr_cycle p)) (pr_in p) = Some (pr_out p)) \<and> bc_ordo_swap cfg \<noteq> None)"
proof (cases "v4_keys swaps = []")
  case True
  with assms show ?thesis by (auto simp: price_v4_def intro: exI [of _ "bt_tiers bt"])
next
  case False
  obtain cs bt1 where 1: "v4_cycles (oe_reads env) (v4_keys swaps) bt = (cs, bt1)" by force
  note r = v4_cycles_round [OF 1]
  have bt': "bt' = bt1" using assms False 1 by (auto simp: price_v4_def split: if_splits)
  have "round_trip (pr_cycle p) \<and> 0 < pr_in p \<and> pr_in p \<le> bt_budget bt \<and> pr_gross p = pr_out p - pr_in p \<and>
       (\<exists>k. oe_cross_quote env k (cc_legs (pr_cycle p)) (pr_in p) = Some (pr_out p)) \<and> bc_ordo_swap cfg \<noteq> None"
    if p: "cross = Some p" for p
  proof -
    define sizes where "sizes = (if 0 < bt_budget bt1 then filter (\<lambda>s. 0 < s) [tdiv (bt_budget bt1) 3, bt_budget bt1] else [])"
    have q: "price_cycles (oe_cross_clock env) (oe_cross_quote env) cs sizes (bc_eval_ms cfg) = Some p" "bc_ordo_swap cfg \<noteq> None"
      using assms False 1 p by (auto simp: price_v4_def sizes_def split: if_splits)
    have "pr_in p \<in> set (size_ladder (bt_budget bt1))" using price_cycles_quote [OF q(1)] by (auto simp: sizes_def size_ladder_def split: if_splits)
    moreover have "bt_budget bt1 = bt_budget bt" using r by auto
    ultimately show ?thesis using price_cycles_quote [OF q(1)] q(2) r size_ladder_bounds by metis
  qed
  with r bt' show ?thesis by blast
qed

section \<open>A bid is covered\<close>

text \<open>The transaction spends an amount on a route that was quoted for it, and asks for a return in between.\<close>

definition sends_quoted :: "bot_cfg \<Rightarrow> opp_env \<Rightarrow> bot_tx \<Rightarrow> int \<Rightarrow> int \<Rightarrow> int \<Rightarrow> bool" where
  "sends_quoted cfg env tx amount got back_min \<longleftrightarrow>
     tx_value tx = amount \<and>
     ((\<exists>c k dl. closed_cycle c \<and> quote_cycle (oe_quoter env k) c amount = Some got \<and> tx_to tx = router \<and> tx_gas tx = swap_gas_limit \<and>
         tx_data tx = RouterData (MultiCall dl [ExactInput (encode_path (cy_tokens c) (cy_fees c)) address_this amount back_min, UnwrapWETH9 back_min])) \<or>
      (\<exists>c k. round_trip c \<and> oe_cross_quote env k (cc_legs c) amount = Some got \<and> Some (tx_to tx) = bc_ordo_swap cfg \<and> tx_gas tx = cross_gas_limit \<and>
         tx_data tx = CycleData (cc_legs c) amount back_min (bc_address cfg)))"

definition bid_ok :: "bot_cfg \<Rightarrow> opp_env \<Rightarrow> bot \<Rightarrow> bot_bid \<Rightarrow> bool" where
  "bid_ok cfg env bt b \<longleftrightarrow>
     0 < bb_bid b \<and> bb_bid b \<le> bc_max_bid cfg \<and>
     (\<exists>amount got back_min. sends_quoted cfg env (bb_tx b) amount got back_min \<and>
        0 < amount \<and> amount \<le> bt_budget bt \<and>
        bb_bid b + gas_cost_wei bt \<le> got - amount \<and> bc_min_profit cfg + gas_cost_wei bt \<le> got - amount \<and>
        amount \<le> back_min \<and> back_min \<le> got)"

definition committed :: "opp_env \<Rightarrow> bot \<Rightarrow> bot_bid \<Rightarrow> bot \<Rightarrow> bool" where
  "committed env bt b bt' \<longleftrightarrow>
     tx_nonce (bb_tx b) = bt_nonce bt \<and> bt_nonce bt' = bt_nonce bt + 1 \<and> tx_max_fee (bb_tx b) = bt_max_fee bt \<and>
     bt_ledger bt' = bt_ledger bt @ [(oe_signed_at env, tx_gas (bb_tx b) * tx_max_fee (bb_tx b))]"

lemma min_return_between:
  assumes "0 \<le> bid" "bid \<le> gross"
  shows "amount \<le> min_return amount gross bid \<and> min_return amount gross bid \<le> amount + gross"
proof -
  have "0 \<le> tdiv (gross - bid) 2" "tdiv (gross - bid) 2 * 2 \<le> gross - bid" using assms by (simp_all add: tdiv_le tdiv_nonneg_ge0)
  with assms show ?thesis by (simp add: min_return_def)
qed

lemma place_bid_ok:
  assumes "place_bid cfg env cross d sg bt = (Some b, bt')" "sg = strategy_now cfg bt"
    and lim: "0 \<le> bc_max_bid cfg" "0 \<le> bc_min_profit cfg" "0 \<le> bc_bid_share cfg" "bc_bid_share cfg \<le> 100" "0 \<le> bt_max_fee bt"
    and cross: "\<And>p. cross = Some p \<Longrightarrow> round_trip (pr_cycle p) \<and> 0 < pr_in p \<and> pr_in p \<le> bt_budget bt \<and> pr_gross p = pr_out p - pr_in p \<and>
       (\<exists>k. oe_cross_quote env k (cc_legs (pr_cycle p)) (pr_in p) = Some (pr_out p))"
    and best: "\<And>q. de_best d = Some q \<Longrightarrow> closed_cycle (sz_cycle q) \<and> 0 < sz_in q \<and> sz_in q \<le> bt_budget bt \<and> quoted (oe_quoter env) q \<and> de_bid d = bid_for (sz_gross q) sg"
  shows "bid_ok cfg env bt b \<and> committed env bt b bt'"
proof -
  have gas: "0 \<le> gas_cost_wei bt" using lim(5) by (simp add: gas_cost_wei_def swap_gas_limit_def)
  have sg: "sg_gas_cost sg = gas_cost_wei bt" "sg_min_profit sg = bc_min_profit cfg" "sg_max_bid sg = bc_max_bid cfg"
    using assms(2) by (simp_all add: strategy_now_def)
  have bid: "0 \<le> bid_for g sg \<and> bid_for g sg \<le> bc_max_bid cfg \<and>
     (bid_for g sg \<noteq> 0 \<longrightarrow> bc_min_profit cfg + gas_cost_wei bt \<le> g \<and> bid_for g sg + gas_cost_wei bt \<le> g)" for g
    using bid_for_bounds [of sg g] lim assms(2) by (auto simp: strategy_now_def)
  show ?thesis
  proof (cases "\<exists>p venue. cross = Some p \<and> bc_ordo_swap cfg = Some venue \<and> 0 < bid_for (pr_gross p) sg \<and> de_bid d \<le> bid_for (pr_gross p) sg")
    case True
    then obtain p venue where p: "cross = Some p" "bc_ordo_swap cfg = Some venue" "0 < bid_for (pr_gross p) sg" "de_bid d \<le> bid_for (pr_gross p) sg" by blast
    have b: "bb_bid b = bid_for (pr_gross p) sg"
      "bb_tx b = fst (signed_cross_backrun venue (bc_address cfg) p (bb_bid b) bt)" "committed env bt b bt'"
      using assms(1) p by (auto simp: place_bid_def signed_cross_backrun_def sign_tx_def charge_gas_def committed_def Let_def)
    note c = cross [OF p(1)] bid [of "pr_gross p"]
    obtain k where k: "oe_cross_quote env k (cc_legs (pr_cycle p)) (pr_in p) = Some (pr_out p)" using c by blast
    let ?m = "min_return (pr_in p) (pr_gross p) (bb_bid b)"
    have "sends_quoted cfg env (bb_tx b) (pr_in p) (pr_out p) ?m"
      unfolding sends_quoted_def b(2) using p(2) c(1) k by (auto simp: signed_cross_backrun_def sign_tx_def)
    moreover have "pr_in p \<le> ?m" "?m \<le> pr_out p"
      using min_return_between [of "bb_bid b" "pr_gross p" "pr_in p"] c p(3) gas by (auto simp: b(1))
    ultimately have "bid_ok cfg env bt b" unfolding bid_ok_def
      using c p(3) b(1) by (intro conjI exI [of _ "pr_in p"] exI [of _ "pr_out p"] exI [of _ ?m]) auto
    with b(3) show ?thesis by blast
  next
    case False
    obtain q where q: "de_best d = Some q" "de_bid d \<noteq> 0" "bb_bid b = de_bid d" "bb_tx b = fst (signed_backrun (oe_signed_at env) q (bb_bid b) bt)"
      "committed env bt b bt'"
      using assms(1) False
      by (auto simp: place_bid_def signed_backrun_def sign_tx_def charge_gas_def committed_def gas_cost_wei_def Let_def split: option.splits if_splits)
    note c = best [OF q(1)] bid [of "sz_gross q"]
    obtain k where k: "quote_cycle (oe_quoter env k) (sz_cycle q) (sz_in q) = Some (sz_out q)" "sz_gross q = sz_out q - sz_in q"
      using c(1) by (auto simp: quoted_def)
    let ?m = "min_return (sz_in q) (sz_gross q) (bb_bid b)"
    have "sends_quoted cfg env (bb_tx b) (sz_in q) (sz_out q) ?m"
      unfolding sends_quoted_def q(4) using c(1) k(1) by (auto simp: signed_backrun_def sign_tx_def build_cycle_swap_def encode_exact_input_swap_def)
    moreover have "sz_in q \<le> ?m" "?m \<le> sz_out q"
      using min_return_between [of "bb_bid b" "sz_gross q" "sz_in q"] c q(2) gas k(2) by (auto simp: q(3))
    ultimately have "bid_ok cfg env bt b" unfolding bid_ok_def
      using c q(2,3) k(2) by (intro conjI exI [of _ "sz_in q"] exI [of _ "sz_out q"] exI [of _ ?m]) auto
    with q(5) show ?thesis by blast
  qed
qed

definition bot_inv :: "bot_cfg \<Rightarrow> bot \<Rightarrow> bool" where
  "bot_inv cfg bt \<longleftrightarrow> cache_ok (bt_cycles bt) \<and> 0 \<le> bt_max_fee bt \<and> 0 \<le> bt_budget bt \<and> bt_budget bt \<le> bc_trade_budget cfg"

lemma on_opportunity_parts:
  assumes "on_opportunity cfg env touched swaps bt = (res, bt')"
  obtains (no) ledger logged where "res = None" "bt' = bt\<lparr>bt_ledger := ledger, bt_breaker_logged := logged\<rparr>"
  | (asked) ledger cross ts cycles cache left where
      "gas_burned_today (oe_checked env) (bt_ledger bt) = (\<Sum>e\<leftarrow>ledger. snd e, ledger)" "(\<Sum>e\<leftarrow>ledger. snd e) < bc_gas_cap cfg"
      "price_v4 cfg env swaps (bt\<lparr>bt_ledger := ledger, bt_breaker_logged := False\<rparr>) = (cross, bt\<lparr>bt_ledger := ledger, bt_breaker_logged := False, bt_tiers := ts\<rparr>)"
      "cycles_of_pools (oe_reads env) weth touched (bt_cycles bt) = (cycles, cache)"
      "place_bid cfg env cross
         (evaluate (oe_clock env) (oe_quoter env) cycles (strategy_now cfg bt) (Some (max left 20)))
         (strategy_now cfg bt) (bt\<lparr>bt_ledger := ledger, bt_breaker_logged := False, bt_tiers := ts, bt_cycles := cache\<rparr>) = (res, bt')"
proof -
  obtain burned kept where g: "gas_burned_today (oe_checked env) (bt_ledger bt) = (burned, kept)" by force
  then have burned: "burned = (\<Sum>e\<leftarrow>kept. snd e)" by (auto simp: gas_burned_today_def Let_def)
  show ?thesis
  proof (cases "burned < bc_gas_cap cfg \<and> is_biddable_hint touched swaps")
    case False
    with assms g show ?thesis
      by (intro no [of "\<not> burned < bc_gas_cap cfg" kept]) (auto simp: on_opportunity_def breaker_tripped_def split: if_splits)
  next
    case True
    define bt1 where "bt1 = bt\<lparr>bt_ledger := kept, bt_breaker_logged := False\<rparr>"
    have 1: "breaker_tripped cfg (oe_checked env) bt = (False, bt1)" using g True by (simp add: breaker_tripped_def bt1_def)
    obtain cross bt2 where 2: "price_v4 cfg env swaps bt1 = (cross, bt2)" by force
    then obtain ts where ts: "bt2 = bt1\<lparr>bt_tiers := ts\<rparr>" using price_v4_facts by blast
    obtain cycles cache where 3: "cycles_of_pools (oe_reads env) weth touched (bt_cycles bt2) = (cycles, cache)" by force
    have s: "strategy_now cfg bt2 = strategy_now cfg bt" "bt_cycles bt2 = bt_cycles bt"
      by (simp_all add: ts bt1_def strategy_now_def gas_cost_wei_def)
    show ?thesis
      using assms True 1 2 3 g burned
      by (intro asked [of kept cross ts cycles cache "bc_eval_ms cfg - (oe_cross_done env - oe_started env)"])
        (simp_all add: on_opportunity_def s Let_def, simp_all add: ts bt1_def)
  qed
qed

lemma place_bid_keeps:
  "place_bid cfg env cross d sg bt = (res, bt') \<Longrightarrow> bt_cycles bt' = bt_cycles bt \<and> bt_max_fee bt' = bt_max_fee bt \<and> bt_budget bt' = bt_budget bt"
  by (auto simp: place_bid_def signed_backrun_def signed_cross_backrun_def sign_tx_def charge_gas_def Let_def split: option.splits if_splits bool.splits prod.splits)

lemma on_opportunity_ok:
  assumes "on_opportunity cfg env touched swaps bt = (res, bt')" "bot_inv cfg bt"
    and lim: "0 \<le> bc_max_bid cfg" "0 \<le> bc_min_profit cfg" "0 \<le> bc_bid_share cfg" "bc_bid_share cfg \<le> 100"
  shows "bot_inv cfg bt' \<and>
    (\<forall>b. res = Some b \<longrightarrow> bid_ok cfg env bt b \<and> (\<exists>kept. gas_burned_today (oe_checked env) (bt_ledger bt) = (\<Sum>e\<leftarrow>kept. snd e, kept) \<and>
       (\<Sum>e\<leftarrow>kept. snd e) < bc_gas_cap cfg \<and> committed env (bt\<lparr>bt_ledger := kept\<rparr>) b bt'))"
  using assms(1)
proof (cases rule: on_opportunity_parts)
  case no
  with assms(2) show ?thesis by (simp add: bot_inv_def)
next
  case (asked ledger cross ts cycles cache left)
  let ?bt = "bt\<lparr>bt_ledger := ledger, bt_breaker_logged := False, bt_tiers := ts, bt_cycles := cache\<rparr>"
  let ?d = "evaluate (oe_clock env) (oe_quoter env) cycles (strategy_now cfg bt) (Some (max left 20))"
  have cs: "\<forall>c \<in> set cycles. closed_cycle c" "cache_ok cache" using cycles_of_pools_ok [OF asked(4)] assms(2) by (simp_all add: bot_inv_def)
  have sg: "strategy_now cfg bt = strategy_now cfg ?bt" by (simp add: strategy_now_def gas_cost_wei_def)
  have inv: "bot_inv cfg bt'" using place_bid_keeps [OF asked(5)] assms(2) cs(2) by (simp add: bot_inv_def)
  have "bid_ok cfg env ?bt b \<and> committed env ?bt b bt'" if b: "res = Some b" for b
  proof (rule place_bid_ok [OF asked(5) [unfolded b] sg lim])
    show "0 \<le> bt_max_fee ?bt" using assms(2) by (simp add: bot_inv_def)
    show "round_trip (pr_cycle p) \<and> 0 < pr_in p \<and> pr_in p \<le> bt_budget ?bt \<and> pr_gross p = pr_out p - pr_in p \<and>
       (\<exists>k. oe_cross_quote env k (cc_legs (pr_cycle p)) (pr_in p) = Some (pr_out p))" if "cross = Some p" for p
      using price_v4_facts [OF asked(3)] that by simp
    show "closed_cycle (sz_cycle q) \<and> 0 < sz_in q \<and> sz_in q \<le> bt_budget ?bt \<and> quoted (oe_quoter env) q \<and> de_bid ?d = bid_for (sz_gross q) (strategy_now cfg bt)"
      if "de_best ?d = Some q" for q
      using evaluate_decision [OF refl that] cs(1) by (auto simp: strategy_now_def)
  qed
  then have "bid_ok cfg env bt b \<and> committed env (bt\<lparr>bt_ledger := ledger\<rparr>) b bt'" if "res = Some b" for b
    using that by (auto simp: bid_ok_def committed_def gas_cost_wei_def)
  with inv asked(1,2) show ?thesis by blast
qed

lemma bot_step_inv:
  assumes "bot_inv cfg bt" "\<forall>n. ev = Refreshed n \<longrightarrow> 0 \<le> nw_gas_price n" "0 \<le> bc_trade_budget cfg"
    and "0 \<le> bc_max_bid cfg" "0 \<le> bc_min_profit cfg" "0 \<le> bc_bid_share cfg" "bc_bid_share cfg \<le> 100"
  shows "bot_inv cfg (snd (bot_step cfg ev bt))"
proof (cases ev)
  case (Refreshed n)
  with assms(1,2,3) show ?thesis by (simp add: bot_inv_def refresh_chain_state_def Let_def)
next
  case (BondChecked s b bal est)
  with assms(1) show ?thesis by (simp add: bot_inv_def ensure_bond_def sign_tx_def Let_def)
next
  case (Opportunity env touched swaps)
  with on_opportunity_ok [OF _ assms(1,4-7), of env touched swaps "fst (on_opportunity cfg env touched swaps bt)" "snd (on_opportunity cfg env touched swaps bt)"]
  show ?thesis by simp
qed

lemma bot_run_inv:
  assumes "bot_inv cfg bt" "\<forall>n. Refreshed n \<in> set evs \<longrightarrow> 0 \<le> nw_gas_price n" "0 \<le> bc_trade_budget cfg"
    and "0 \<le> bc_max_bid cfg" "0 \<le> bc_min_profit cfg" "0 \<le> bc_bid_share cfg" "bc_bid_share cfg \<le> 100"
  shows "bot_inv cfg (bot_run cfg evs bt)"
  using assms(1,2)
proof (induction evs arbitrary: bt)
  case (Cons ev evs)
  then have "bot_inv cfg (snd (bot_step cfg ev bt))" by (intro bot_step_inv [OF _ _ assms(3-7)]) auto
  with Cons show ?case by simp
qed simp

text \<open>
  C6: At whatever point of whatever run of refreshes, bond checks and opportunities, a bid the searcher
  places is positive, within its cap, and covered: the transaction it signs spends an amount within the
  trading budget on a closed round trip out of wrapped ether and back, a quote of exactly that route and
  amount returned enough to pay the bid with the gas the bot reckons with, and to clear its least profit, the
  least return it accepts is no less than what it puts in and no more than was quoted, and the day's gas was
  below the cap when the opportunity came. Each bid uses up one nonce and charges exactly the gas of its
  transaction.
\<close>

theorem bids_are_covered:
  assumes "bt = bot_run cfg evs new_bot" "on_opportunity cfg env touched swaps bt = (Some b, bt')"
    and "\<forall>n. Refreshed n \<in> set evs \<longrightarrow> 0 \<le> nw_gas_price n" "0 \<le> bc_trade_budget cfg"
    and "0 \<le> bc_max_bid cfg" "0 \<le> bc_min_profit cfg" "0 \<le> bc_bid_share cfg" "bc_bid_share cfg \<le> 100"
  shows "bid_ok cfg env bt b \<and> bt_budget bt \<le> bc_trade_budget cfg \<and>
    (\<exists>kept. gas_burned_today (oe_checked env) (bt_ledger bt) = (\<Sum>e\<leftarrow>kept. snd e, kept) \<and>
       (\<Sum>e\<leftarrow>kept. snd e) < bc_gas_cap cfg \<and> committed env (bt\<lparr>bt_ledger := kept\<rparr>) b bt')"
proof -
  have "bot_inv cfg new_bot" using assms(4) by (simp add: bot_inv_def new_bot_def cache_ok_def)
  from bot_run_inv [OF this assms(3-8)] have inv: "bot_inv cfg bt" by (simp add: assms(1))
  with on_opportunity_ok [OF assms(2) inv assms(5-8)] show ?thesis by (simp add: bot_inv_def)
qed

section \<open>What the searcher risks\<close>

text \<open>
  The least return is half of what is left of the edge, not the bid and the margin: with an edge of 100, a
  bid of 70 and no gas to pay, a swap that returns 15 goes through and the bid costs 55 more than it made.
\<close>

lemma fill_below_bid:
  "bid_for 100 \<lparr>sg_base = weth, sg_max_bid = 1000, sg_budget = 1000, sg_gas_cost = 0, sg_min_profit = 0, sg_bid_share = 70\<rparr> = 70 \<and>
   min_return 1000 100 70 = 1000 + 15"
  by code_simp

text \<open>A route over two venues is priced with the gas of two V3 hops, and is sent with more.\<close>

lemma cross_gas_underestimated: "0 < bt_max_fee bt \<Longrightarrow> gas_cost_wei bt < cross_gas_limit * bt_max_fee bt"
  by (simp add: gas_cost_wei_def swap_gas_limit_def cross_gas_limit_def)

section \<open>The breaker under overlapping handlers\<close>

definition spent_since :: "int \<Rightarrow> (int \<times> int) list \<Rightarrow> int" where
  "spent_since t es = (\<Sum>e\<leftarrow>filter (\<lambda>e. t \<le> fst e) es. snd e)"

lemma spent_since_append [simp]: "spent_since t (xs @ ys) = spent_since t xs + spent_since t ys"
  by (simp add: spent_since_def)

lemma spent_since_mono:
  assumes "\<forall>e \<in> set es. 0 \<le> snd e" "t \<le> t'"
  shows "spent_since t' es \<le> spent_since t es"
  using assms by (induction es) (auto simp: spent_since_def)

lemma spent_since_old: "\<forall>e \<in> set es. fst e < t \<Longrightarrow> spent_since t es = 0"
  by (simp add: spent_since_def filter_False not_le)

lemma drop_old_sorted:
  assumes "sorted (map fst es)"
  shows "dropWhile (\<lambda>e. fst e < t) es = filter (\<lambda>e. t \<le> fst e) es"
  using assms
proof (induction es)
  case (Cons e es)
  show ?case
  proof (cases "fst e < t")
    case False
    with Cons.prems have "\<forall>x \<in> set es. t \<le> fst x" by force
    with False show ?thesis by (simp add: filter_id_conv)
  qed (use Cons in simp)
qed simp

lemma burned_spent: "sorted (map fst es) \<Longrightarrow> fst (gas_burned_today now es) = spent_since (now - 86400000) es"
  by (simp add: gas_burned_today_def spent_since_def drop_old_sorted Let_def)

fun event_time :: "handler_event \<Rightarrow> int option" where
  "event_time (HandlerBegins t) = Some t"
| "event_time (HandlerCommits t wei) = Some t"
| "event_time HandlerSkips = None"

text \<open>The ledger is what was charged, less what has rolled off; what is under way has its gas still to come.\<close>

definition breaker_inv :: "bot_cfg \<Rightarrow> int \<Rightarrow> nat \<Rightarrow> int \<Rightarrow> bot \<times> nat \<times> (int \<times> int) list \<Rightarrow> bool" where
  "breaker_inv cfg c peak now st \<longleftrightarrow>
     (case st of (bt, n, charged) \<Rightarrow>
        (\<exists>gone. charged = gone @ bt_ledger bt \<and> (\<forall>e \<in> set gone. fst e < now - 86400000)) \<and>
        sorted (map fst charged) \<and> (\<forall>e \<in> set charged. fst e \<le> now \<and> 0 \<le> snd e) \<and>
        spent_since (now - 86400000) charged + c * int n < bc_gas_cap cfg + c * int peak)"

fun peak_flight :: "bot_cfg \<Rightarrow> bot \<times> nat \<times> (int \<times> int) list \<Rightarrow> handler_event list \<Rightarrow> nat" where
  "peak_flight cfg st [] = fst (snd st)"
| "peak_flight cfg st (ev # evs) = max (fst (snd st)) (peak_flight cfg (handler_step cfg st ev) evs)"

lemma peak_now: "fst (snd st) \<le> peak_flight cfg st evs"
  by (cases evs) simp_all

lemma breaker_inv_later:
  assumes "breaker_inv cfg c peak now st" "now \<le> now'"
  shows "breaker_inv cfg c peak now' st"
proof -
  obtain bt n charged where st: "st = (bt, n, charged)" by (metis prod_cases3)
  from assms(1) obtain gone where g: "charged = gone @ bt_ledger bt" "\<forall>e \<in> set gone. fst e < now - 86400000"
    "sorted (map fst charged)" "\<forall>e \<in> set charged. fst e \<le> now \<and> 0 \<le> snd e"
    "spent_since (now - 86400000) charged + c * int n < bc_gas_cap cfg + c * int peak" by (auto simp: breaker_inv_def st)
  have "spent_since (now' - 86400000) charged \<le> spent_since (now - 86400000) charged"
    using g(4) assms(2) by (intro spent_since_mono) auto
  moreover have "\<forall>e \<in> set gone. fst e < now' - 86400000" "\<forall>e \<in> set charged. fst e \<le> now' \<and> 0 \<le> snd e" using g(2,4) assms(2) by force+
  ultimately show ?thesis using g(1,3,5) unfolding breaker_inv_def st by fastforce
qed

lemma handler_step_inv:
  assumes "breaker_inv cfg c peak now st" "event_time ev = None \<or> event_time ev = Some now" "0 \<le> c"
    and "\<forall>t wei. ev = HandlerCommits t wei \<longrightarrow> 0 \<le> wei \<and> wei \<le> c" "fst (snd (handler_step cfg st ev)) \<le> peak"
  shows "breaker_inv cfg c peak now (handler_step cfg st ev)"
proof -
  obtain bt n charged where st: "st = (bt, n, charged)" by (metis prod_cases3)
  from assms(1) obtain gone where g: "charged = gone @ bt_ledger bt" "\<forall>e \<in> set gone. fst e < now - 86400000"
    "sorted (map fst charged)" "\<forall>e \<in> set charged. fst e \<le> now \<and> 0 \<le> snd e"
    "spent_since (now - 86400000) charged + c * int n < bc_gas_cap cfg + c * int peak" by (auto simp: breaker_inv_def st)
  have sl: "sorted (map fst (bt_ledger bt))" using g(1,3) by (simp add: sorted_append)
  have spent: "spent_since (now - 86400000) charged = spent_since (now - 86400000) (bt_ledger bt)"
    using g(1,2) by (simp add: spent_since_old)
  show ?thesis
  proof (cases ev)
    case (HandlerBegins t)
    then have t: "t = now" using assms(2) by simp
    define old where "old = takeWhile (\<lambda>e. fst e < now - 86400000) (bt_ledger bt)"
    define kept where "kept = dropWhile (\<lambda>e. fst e < now - 86400000) (bt_ledger bt)"
    have ledger: "bt_ledger bt = old @ kept" by (simp add: old_def kept_def)
    have old: "\<forall>e \<in> set old. fst e < now - 86400000" by (auto simp: old_def dest: set_takeWhileD)
    have gb: "gas_burned_today now (bt_ledger bt) = (spent_since (now - 86400000) charged, kept)"
      using burned_spent [OF sl, of now] spent by (simp add: gas_burned_today_def kept_def Let_def)
    have ch: "charged = (gone @ old) @ kept" using g(1) ledger by simp
    show ?thesis
    proof (cases "spent_since (now - 86400000) charged < bc_gas_cap cfg")
      case True
      then have step: "handler_step cfg st ev = (bt\<lparr>bt_ledger := kept, bt_breaker_logged := False\<rparr>, Suc n, charged)"
        using gb by (simp add: HandlerBegins st t breaker_tripped_def)
      have "c * int (Suc n) \<le> c * int peak" using assms(3,5) step by (intro mult_left_mono) simp_all
      with True show ?thesis unfolding step breaker_inv_def using g(2-4) old ch by (auto intro!: exI [of _ "gone @ old"])
    next
      case False
      then have step: "handler_step cfg st ev = (bt\<lparr>bt_ledger := kept, bt_breaker_logged := True\<rparr>, n, charged)"
        using gb by (simp add: HandlerBegins st t breaker_tripped_def)
      show ?thesis unfolding step breaker_inv_def using g(2-5) old ch by (auto intro!: exI [of _ "gone @ old"])
    qed
  next
    case (HandlerCommits t wei)
    show ?thesis
    proof (cases n)
      case 0
      with HandlerCommits st assms(1) show ?thesis by simp
    next
      case (Suc m)
      have t: "t = now" "0 \<le> wei" "wei \<le> c" using HandlerCommits assms(2,4) by simp_all
      have step: "handler_step cfg st ev = (charge_gas now wei bt, m, charged @ [(now, wei)])" by (simp add: HandlerCommits st Suc t)
      have "spent_since (now - 86400000) [(now, wei)] = wei" by (simp add: spent_since_def)
      moreover have "c * int n = c * int m + c" by (simp add: Suc distrib_left)
      ultimately have "spent_since (now - 86400000) (charged @ [(now, wei)]) + c * int m < bc_gas_cap cfg + c * int peak"
        using g(5) t by simp
      then show ?thesis unfolding step breaker_inv_def using g t by (auto simp: charge_gas_def sorted_append)
    qed
  next
    case HandlerSkips
    have "c * int (n - 1) \<le> c * int n" using assms(3) by (intro mult_left_mono) simp_all
    with g show ?thesis unfolding HandlerSkips st breaker_inv_def by auto
  qed
qed

definition in_order :: "int \<Rightarrow> handler_event list \<Rightarrow> bool" where
  "in_order t evs = sorted (t # concat (map (\<lambda>ev. case event_time ev of None \<Rightarrow> [] | Some u \<Rightarrow> [u]) evs))"

lemma handler_run_inv:
  assumes "breaker_inv cfg c p t st" "in_order t evs" "0 \<le> c" "peak_flight cfg st evs \<le> p"
    and "\<forall>t wei. HandlerCommits t wei \<in> set evs \<longrightarrow> 0 \<le> wei \<and> wei \<le> c"
    and "\<forall>ev \<in> set evs. \<forall>u. event_time ev = Some u \<longrightarrow> u \<le> now" "t \<le> now"
  shows "breaker_inv cfg c p now (foldl (handler_step cfg) st evs)"
  using assms
proof (induction evs arbitrary: st t)
  case Nil
  then show ?case using breaker_inv_later by simp
next
  case (Cons ev evs)
  define u where "u = (case event_time ev of None \<Rightarrow> t | Some v \<Rightarrow> v)"
  have u: "t \<le> u" "u \<le> now" "event_time ev = None \<or> event_time ev = Some u" "in_order u evs"
    using Cons.prems(2,6,7) by (auto simp: u_def in_order_def split: option.splits)
  have le: "fst (snd (handler_step cfg st ev)) \<le> p" using peak_now [of "handler_step cfg st ev" cfg evs] Cons.prems(4) by simp
  have "breaker_inv cfg c p u (handler_step cfg st ev)"
    using breaker_inv_later [OF Cons.prems(1) u(1)] u(3) Cons.prems(3,5) le by (intro handler_step_inv) auto
  with Cons u(2,4) show ?case by simp
qed

text \<open>
  C33: Whatever handlers overlap, the gas charged in any day stays below the cap plus the most one bid can
  cost for each handler that was under way at once: a handler is let through only below the cap, and what
  it charges later was counted against the ones let through with it.
\<close>

theorem breaker_bounds_gas:
  assumes "0 < bc_gas_cap cfg" "0 \<le> c" "in_order start evs" "start \<le> now"
    and "\<forall>t wei. HandlerCommits t wei \<in> set evs \<longrightarrow> 0 \<le> wei \<and> wei \<le> c"
    and "\<forall>ev \<in> set evs. \<forall>u. event_time ev = Some u \<longrightarrow> u \<le> now"
    and "handler_run cfg evs = (bt, n, charged)"
  shows "spent_since (now - 86400000) charged + c * int n < bc_gas_cap cfg + c * int (peak_flight cfg (new_bot, 0, []) evs) \<and>
    fst (gas_burned_today now (bt_ledger bt)) = spent_since (now - 86400000) charged"
proof -
  let ?p = "peak_flight cfg (new_bot, 0, []) evs"
  have "0 \<le> c * int ?p" using assms(2) by simp
  then have "breaker_inv cfg c ?p start (new_bot, 0, [])" using assms(1) by (simp add: breaker_inv_def new_bot_def spent_since_def)
  from handler_run_inv [OF this assms(3,2) order_refl assms(5,6,4)] assms(7)
  have inv: "breaker_inv cfg c ?p now (bt, n, charged)" by (simp add: handler_run_def)
  then obtain gone where g: "charged = gone @ bt_ledger bt" "\<forall>e \<in> set gone. fst e < now - 86400000" "sorted (map fst charged)"
    by (auto simp: breaker_inv_def)
  then have "sorted (map fst (bt_ledger bt))" by (simp add: sorted_append)
  with g burned_spent [of "bt_ledger bt" now] spent_since_old [OF g(2)] inv show ?thesis by (simp add: breaker_inv_def)
qed

section \<open>Both at work\<close>

definition demo_bot_cfg :: bot_cfg where
  "demo_bot_cfg = \<lparr>bc_max_bid = 1000, bc_bond_target = 10, bc_trade_budget = 9000, bc_gas_reserve = 10, bc_min_profit = 1, bc_bid_share = 70,
     bc_eval_ms = 120, bc_ordo_swap = None, bc_gas_cap = 1000000, bc_address = ''0xme''\<rparr>"

definition demo_reads :: chain_reads where
  "demo_reads = \<lparr>rd_pool = (\<lambda>a b fee. if fee \<le> 500 then Some ''0x01'' else None), rd_token0 = (\<lambda>p. Some ''0xaa''), rd_token1 = (\<lambda>p. Some weth), rd_fee = (\<lambda>p. Some 500)\<rparr>"

definition demo_quoter :: "nat \<Rightarrow> packed list \<Rightarrow> int \<Rightarrow> int option" where
  "demo_quoter k path amount = (if k = 1 then Some (amount + 500000) else None)"

definition demo_opportunity :: opp_env where
  "demo_opportunity = \<lparr>oe_reads = demo_reads, oe_checked = 5, oe_started = 5, oe_cross_clock = (\<lambda>k. 5), oe_cross_quote = (\<lambda>k legs a. None), oe_cross_done = 6,
     oe_clock = (\<lambda>k. 6), oe_quoter = demo_quoter, oe_signed_at = 7\<rparr>"

definition demo_refresh :: bot_event where
  "demo_refresh = Refreshed \<lparr>nw_nonce = 3, nw_gas_price = 0, nw_gas = 21000, nw_balance = 5000\<rparr>"

lemma demo_bid:
  "map_option bb_bid (fst (on_opportunity demo_bot_cfg demo_opportunity [''0xBB''] [] (bot_run demo_bot_cfg [demo_refresh] new_bot))) = Some 1000"
  by code_simp

theorem bids_are_covered_witness:
  "\<exists>b bt'. on_opportunity demo_bot_cfg demo_opportunity [''0xBB''] [] (bot_run demo_bot_cfg [demo_refresh] new_bot) = (Some b, bt') \<and>
     bid_ok demo_bot_cfg demo_opportunity (bot_run demo_bot_cfg [demo_refresh] new_bot) b"
proof -
  define bt where "bt = bot_run demo_bot_cfg [demo_refresh] new_bot"
  obtain r bt' where r: "on_opportunity demo_bot_cfg demo_opportunity [''0xBB''] [] bt = (r, bt')" by force
  with demo_bid have "map_option bb_bid r = Some 1000" unfolding bt_def [symmetric] by simp
  then obtain b where b: "on_opportunity demo_bot_cfg demo_opportunity [''0xBB''] [] bt = (Some b, bt')" using r by auto
  from bids_are_covered [OF bt_def b] have "bid_ok demo_bot_cfg demo_opportunity bt b" by (simp add: demo_refresh_def demo_bot_cfg_def)
  with b show ?thesis unfolding bt_def by blast
qed

theorem breaker_bounds_gas_witness:
  "\<exists>bt n charged. handler_run demo_bot_cfg [HandlerBegins 1, HandlerBegins 2, HandlerCommits 3 900000, HandlerCommits 4 900000, HandlerBegins 5] = (bt, n, charged) \<and>
     spent_since (6 - 86400000) charged < 1000000 + 900000 * 2 \<and> length charged = 2 \<and> n = 0"
proof -
  define evs where "evs = [HandlerBegins 1, HandlerBegins 2, HandlerCommits 3 900000, HandlerCommits 4 900000, HandlerBegins 5]"
  obtain bt n charged where run: "handler_run demo_bot_cfg evs = (bt, n, charged)" by (cases "handler_run demo_bot_cfg evs")
  have shape: "case handler_run demo_bot_cfg evs of (bt, n, charged) \<Rightarrow> length charged = 2 \<and> n = 0"
    and peak: "peak_flight demo_bot_cfg (new_bot, 0, []) evs = 2"
    unfolding evs_def by code_simp+
  have evs: "in_order 0 evs" "\<forall>t wei. HandlerCommits t wei \<in> set evs \<longrightarrow> 0 \<le> wei \<and> wei \<le> 900000"
    "\<forall>ev \<in> set evs. \<forall>u. event_time ev = Some u \<longrightarrow> u \<le> 6" by (simp_all add: evs_def in_order_def)
  have cap: "bc_gas_cap demo_bot_cfg = 1000000" by (simp add: demo_bot_cfg_def)
  from shape run have "length charged = 2" "n = 0" by simp_all
  with breaker_bounds_gas [OF _ _ evs(1) _ evs(2,3) run] have "spent_since (6 - 86400000) charged < 1000000 + 900000 * 2"
    by (simp add: cap peak)
  with run \<open>length charged = 2\<close> \<open>n = 0\<close> show ?thesis unfolding evs_def by blast
qed

end
