(* ===== verification/Tables.thy ===== *)
theory Tables
  imports Prelude
begin

text \<open>
  A table that is written with \<open>INSERT OR IGNORE\<close>: the contract the store's tables keep, and what every
  writer may rely on when it writes a row again or in another order.
\<close>

locale insert_or_ignore =
  fixes insert_row :: "'t \<Rightarrow> 'r \<Rightarrow> 't"
    and look :: "'t \<Rightarrow> 'k \<Rightarrow> 'v option"
    and key :: "'r \<Rightarrow> 'k"
    and stored :: "'r \<Rightarrow> 'v"
  assumes look_insert: "look (insert_row t r) k = (case look t k of Some v \<Rightarrow> Some v | None \<Rightarrow> if k = key r then Some (stored r) else None)"
begin

lemma look_fold:
  "look (foldl insert_row t rs) k = (case look t k of Some v \<Rightarrow> Some v | None \<Rightarrow> map_option stored (find (\<lambda>r. key r = k) rs))"
  by (induction rs arbitrary: t) (auto simp: look_insert split: option.splits)

lemma row_kept: "look t k = Some v \<Longrightarrow> look (foldl insert_row t rs) k = Some v"
  by (simp add: look_fold)

lemma row_written: "r \<in> set rs \<Longrightarrow> look (foldl insert_row t rs) (key r) \<noteq> None"
proof -
  assume "r \<in> set rs"
  then have "find (\<lambda>r'. key r' = key r) rs \<noteq> None" by (auto simp: find_None_iff)
  then show ?thesis by (auto simp: look_fold split: option.split)
qed

lemma row_from: "look (foldl insert_row t rs) k = Some v \<Longrightarrow> look t k = Some v \<or> (\<exists>r \<in> set rs. k = key r \<and> v = stored r)"
  by (auto simp: look_fold find_Some_iff split: option.splits)

text \<open>Rows that were all written before change nothing.\<close>

lemma replay_ignored:
  assumes "set rs' \<subseteq> set rs"
  shows "look (foldl insert_row (foldl insert_row t rs) rs') k = look (foldl insert_row t rs) k"
proof (cases "look (foldl insert_row t rs) k")
  case None
  have "find (\<lambda>r. key r = k) rs' = None"
  proof (rule ccontr)
    assume "find (\<lambda>r. key r = k) rs' \<noteq> None"
    then obtain r where "r \<in> set rs'" "key r = k" by (auto simp: find_None_iff)
    with assms row_written [of r rs t] None show False by auto
  qed
  with None show ?thesis by (simp add: look_fold [of "foldl insert_row t rs"])
qed (simp add: row_kept)

text \<open>Where rows of one key agree, the order they come in does not matter.\<close>

lemma any_order:
  assumes "set rs = set rs'" "\<And>r r'. r \<in> set rs \<Longrightarrow> r' \<in> set rs \<Longrightarrow> key r = key r' \<Longrightarrow> stored r = stored r'"
  shows "look (foldl insert_row t rs) k = look (foldl insert_row t rs') k"
proof (cases "look t k")
  case None
  have "map_option stored (find (\<lambda>r. key r = k) rs) = map_option stored (find (\<lambda>r. key r = k) rs')"
  proof (cases "find (\<lambda>r. key r = k) rs")
    case None
    then have "find (\<lambda>r. key r = k) rs' = None" unfolding find_None_iff using assms(1) by simp
    with None show ?thesis by simp
  next
    case (Some r)
    then have r: "r \<in> set rs" "key r = k" by (auto simp: find_Some_iff)
    then obtain r' where r': "find (\<lambda>r. key r = k) rs' = Some r'" using assms(1) by (cases "find (\<lambda>r. key r = k) rs'") (auto simp: find_None_iff)
    then have k': "r' \<in> set rs" "key r' = k" using assms(1) by (auto simp: find_Some_iff)
    have "stored r = stored r'" by (rule assms(2)) (use r k' in simp_all)
    with Some r' show ?thesis by simp
  qed
  then show ?thesis by (simp add: look_fold None)
qed (simp add: row_kept)

end

text \<open>The table itself, a map from the primary key to the row.\<close>

definition insert_ignore :: "('r \<Rightarrow> 'k) \<Rightarrow> ('r \<Rightarrow> 'v) \<Rightarrow> ('k \<times> 'v) list \<Rightarrow> 'r \<Rightarrow> ('k \<times> 'v) list" where
  "insert_ignore key stored t r = (case jget t (key r) of None \<Rightarrow> jset (key r) (stored r) t | Some _ \<Rightarrow> t)"

lemma insert_ignore_row:
  "jget (insert_ignore key stored t r) k = (case jget t k of Some v \<Rightarrow> Some v | None \<Rightarrow> if k = key r then Some (stored r) else None)"
  by (simp add: insert_ignore_def split: option.split del: map_of_eq_Some_iff)

end
