(* ===== verification/Candles.thy ===== *)
theory Candles
  imports Complex_Main Tables Chain Hints "HOL-Library.Product_Lexorder"
begin

text \<open>
  The trades tape (\<open>apps/watcher/src/candles.ts\<close>) and the tables it is kept in (\<open>upsertCandles\<close>,
  \<open>candlesFor\<close>, \<open>insertTrades\<close> and their neighbours, \<open>packages/store/src/index.ts\<close>). Prices and volumes,
  doubles in the code, are exact rationals; a table is a map from its primary key to the row.
\<close>

section \<open>Reading a Swap log\<close>

record swap_log =
  sl_address :: string
  sl_topics :: "string list"
  sl_data :: "string option"
  sl_log_index :: "string option"
  sl_tx :: "string option"

record pool_swap =
  ps_pool :: string
  ps_amount0 :: int
  ps_amount1 :: int
  ps_sqrt :: int

text \<open>\<^const>\<open>None\<close> where \<open>BigInt\<close> throws.\<close>

definition int256 :: "string \<Rightarrow> int option" where
  "int256 w = map_option (\<lambda>v. if 2 ^ 255 \<le> v then v - 2 ^ 256 else v) (big_int (''0x'' @ w))"

definition swap_words :: "string \<Rightarrow> (int \<times> int \<times> int) option" where
  "swap_words d =
     Option.bind (int256 (str_slice 0 64 d)) (\<lambda>a.
     Option.bind (int256 (str_slice 64 128 d)) (\<lambda>b.
     map_option (\<lambda>s. (a, b, s)) (big_int (''0x'' @ str_slice 128 192 d))))"

definition topic_at :: "nat \<Rightarrow> swap_log \<Rightarrow> string option" where
  "topic_at i lg = (if i < length (sl_topics lg) then Some (sl_topics lg ! i) else None)"

definition swap_log_kind :: "swap_log \<Rightarrow> swap_kind option" where
  "swap_log_kind lg = swap_topics (case topic_at 0 lg of None \<Rightarrow> [] | Some t \<Rightarrow> lower t)"

definition log_body :: "swap_log \<Rightarrow> string" where
  "log_body lg = (case sl_data lg of None \<Rightarrow> [] | Some d \<Rightarrow> drop 2 d)"

definition priced_swap :: "swap_log \<Rightarrow> pool_swap option option" where
  "priced_swap lg =
     (let d = log_body lg in
      case swap_log_kind lg of
        Some Univ3 \<Rightarrow>
          if length d < 5 * 64 then Some None
          else map_option (\<lambda>(a, b, s). Some \<lparr>ps_pool = lower (sl_address lg), ps_amount0 = a, ps_amount1 = b, ps_sqrt = s\<rparr>) (swap_words d)
      | Some Univ4 \<Rightarrow>
          if lower (sl_address lg) \<noteq> pool_manager then Some None
          else (case topic_at 1 lg of
            None \<Rightarrow> Some None
          | Some i \<Rightarrow>
              if length i \<noteq> 66 \<or> length d < 6 * 64 then Some None
              else map_option (\<lambda>(a, b, s). Some \<lparr>ps_pool = lower i, ps_amount0 = - a, ps_amount1 = - b, ps_sqrt = s\<rparr>) (swap_words d))
      | _ \<Rightarrow> Some None)"

record receipt =
  rc_tx :: "string option"
  rc_logs :: "swap_log list"

text \<open>The two loops over the receipts and their logs; the first log that throws ends them.\<close>

fun for_swaps :: "(string option \<times> swap_log) list \<Rightarrow> (string option \<times> swap_log \<times> pool_swap) list option" where
  "for_swaps [] = Some []"
| "for_swaps ((tx, lg) # rest) =
     (case priced_swap lg of
        None \<Rightarrow> None
      | Some s \<Rightarrow> map_option (\<lambda>out. (case s of None \<Rightarrow> out | Some v \<Rightarrow> (tx, lg, v) # out)) (for_swaps rest))"

definition receipt_swaps :: "receipt list \<Rightarrow> (string option \<times> swap_log \<times> pool_swap) list option" where
  "receipt_swaps rs = for_swaps (concat (map (\<lambda>r. map (Pair (rc_tx r)) (rc_logs r)) rs))"

record trade_row =
  tr_pool :: string
  tr_block :: int
  tr_log_index :: int
  tr_tx :: string
  tr_amount0 :: string
  tr_amount1 :: string
  tr_sqrt :: string
  tr_ts :: int

fun all_rows :: "'a option list \<Rightarrow> 'a list option" where
  "all_rows [] = Some []"
| "all_rows (x # xs) = Option.bind x (\<lambda>v. map_option (Cons v) (all_rows xs))"

definition extract_trades :: "int \<Rightarrow> int \<Rightarrow> receipt list \<Rightarrow> trade_row list option" where
  "extract_trades block ts rs =
     Option.bind (receipt_swaps rs) (\<lambda>found. all_rows (map (\<lambda>(tx, lg, s).
       map_option (\<lambda>i.
         \<lparr>tr_pool = ps_pool s, tr_block = block, tr_log_index = i,
          tr_tx = (case sl_tx lg of Some h \<Rightarrow> h | None \<Rightarrow> (case tx of Some h \<Rightarrow> h | None \<Rightarrow> [])),
          tr_amount0 = to_str (ps_amount0 s), tr_amount1 = to_str (ps_amount1 s), tr_sqrt = to_str (ps_sqrt s), tr_ts = ts\<rparr>)
         (big_int (case sl_log_index lg of None \<Rightarrow> ''0x0'' | Some i \<Rightarrow> i))) found))"

record price_point =
  pp_pool :: string
  pp_bucket :: int
  pp_price :: rat
  pp_vol0 :: rat
  pp_vol1 :: rat
  pp_block :: int

definition price_of :: "int \<Rightarrow> rat" where
  "price_of s = (of_int s / 2 ^ 96) ^ 2"

definition extract_price_points :: "int \<Rightarrow> int \<Rightarrow> receipt list \<Rightarrow> int \<Rightarrow> price_point list option" where
  "extract_price_points block ts rs bucket_sec =
     map_option (\<lambda>found.
       map (\<lambda>(tx, lg, s).
         \<lparr>pp_pool = ps_pool s, pp_bucket = ts div bucket_sec * bucket_sec, pp_price = price_of (ps_sqrt s),
          pp_vol0 = of_int \<bar>ps_amount0 s\<bar>, pp_vol1 = of_int \<bar>ps_amount1 s\<bar>, pp_block = block\<rparr>)
         (filter (\<lambda>(tx, lg, s). 0 < price_of (ps_sqrt s)) found)) (receipt_swaps rs)"

section \<open>The candle table\<close>

record candle =
  cd_open :: rat
  cd_high :: rat
  cd_low :: rat
  cd_close :: rat
  cd_vol0 :: rat
  cd_vol1 :: rat
  cd_swaps :: int
  cd_first :: int
  cd_last :: int

type_synonym candle_table = "((string \<times> int) \<times> candle) list"

definition one_point :: "price_point \<Rightarrow> candle" where
  "one_point p =
     \<lparr>cd_open = pp_price p, cd_high = pp_price p, cd_low = pp_price p, cd_close = pp_price p, cd_vol0 = pp_vol0 p, cd_vol1 = pp_vol1 p,
      cd_swaps = 1, cd_first = pp_block p, cd_last = pp_block p\<rparr>"

definition add_point :: "candle \<Rightarrow> price_point \<Rightarrow> candle" where
  "add_point g p =
     (let g = g\<lparr>cd_high := max (cd_high g) (pp_price p), cd_low := min (cd_low g) (pp_price p), cd_vol0 := cd_vol0 g + pp_vol0 p,
                cd_vol1 := cd_vol1 g + pp_vol1 p, cd_swaps := cd_swaps g + 1\<rparr>;
          g = (if pp_block p \<le> cd_first g then g\<lparr>cd_first := pp_block p, cd_open := pp_price p\<rparr> else g) in
      if cd_last g \<le> pp_block p then g\<lparr>cd_last := pp_block p, cd_close := pp_price p\<rparr> else g)"

definition group_point :: "candle_table \<Rightarrow> price_point \<Rightarrow> candle_table" where
  "group_point gs p =
     (let key = (pp_pool p, pp_bucket p) in
      case jget gs key of
        None \<Rightarrow> jset key (one_point p) gs
      | Some g \<Rightarrow> jset key (add_point g p) gs)"

definition group_points :: "price_point list \<Rightarrow> candle_table" where
  "group_points ps = foldl group_point [] ps"

text \<open>\<open>ON CONFLICT(pool, bucket) DO UPDATE\<close>: \<open>c\<close> is the row of the table, \<open>e\<close> the excluded one.\<close>

definition merge_candle :: "candle \<Rightarrow> candle \<Rightarrow> candle" where
  "merge_candle c e =
     \<lparr>cd_open = (if cd_first e < cd_first c then cd_open e else cd_open c),
      cd_high = max (cd_high c) (cd_high e), cd_low = min (cd_low c) (cd_low e),
      cd_close = (if cd_last c < cd_last e then cd_close e else cd_close c),
      cd_vol0 = cd_vol0 c + cd_vol0 e, cd_vol1 = cd_vol1 c + cd_vol1 e, cd_swaps = cd_swaps c + cd_swaps e,
      cd_first = min (cd_first c) (cd_first e), cd_last = max (cd_last c) (cd_last e)\<rparr>"

definition upsert_candle :: "candle_table \<Rightarrow> (string \<times> int) \<times> candle \<Rightarrow> candle_table" where
  "upsert_candle tab row =
     (case row of ((pool, bucket), e) \<Rightarrow>
        let key = (lower pool, bucket) in
        case jget tab key of None \<Rightarrow> jset key e tab | Some c \<Rightarrow> jset key (merge_candle c e) tab)"

definition upsert_candles :: "price_point list \<Rightarrow> candle_table \<Rightarrow> candle_table" where
  "upsert_candles ps tab = (if ps = [] then tab else foldl upsert_candle tab (group_points ps))"

definition max_wick :: rat where "max_wick = 2"

definition clip_wick :: "candle \<Rightarrow> candle" where
  "clip_wick c =
     c\<lparr>cd_high := min (cd_high c) (max (cd_open c) (cd_close c) * max_wick),
       cd_low := max (cd_low c) (min (cd_open c) (cd_close c) / max_wick)\<rparr>"

definition candles_for :: "string \<Rightarrow> int \<Rightarrow> candle_table \<Rightarrow> (int \<times> candle) list" where
  "candles_for pool from_bucket tab =
     sort_key fst (map (\<lambda>((p, b), c). (b, clip_wick c)) (filter (\<lambda>((p, b), c). p = lower pool \<and> from_bucket \<le> b) tab))"

definition prune_candles :: "int \<Rightarrow> candle_table \<Rightarrow> candle_table" where
  "prune_candles older tab = filter (\<lambda>((p, b), c). \<not> b < older) tab"

section \<open>The trades table\<close>

type_synonym trade_table = "((string \<times> int \<times> int) \<times> trade_row) list"

definition trade_key :: "trade_row \<Rightarrow> string \<times> int \<times> int" where
  "trade_key r = (lower (tr_pool r), tr_block r, tr_log_index r)"

definition trade_stored :: "trade_row \<Rightarrow> trade_row" where
  "trade_stored r = r\<lparr>tr_pool := lower (tr_pool r)\<rparr>"

definition insert_trades :: "trade_row list \<Rightarrow> trade_table \<Rightarrow> trade_table" where
  "insert_trades rows tab = foldl (insert_ignore trade_key trade_stored) tab rows"

definition recent_trades :: "string \<Rightarrow> nat \<Rightarrow> trade_table \<Rightarrow> trade_row list" where
  "recent_trades pool n tab =
     take n (rev (map snd (sort_key (\<lambda>(k, r). snd k) (filter (\<lambda>(k, r). fst k = lower pool) tab))))"

definition prune_trades :: "int \<Rightarrow> trade_table \<Rightarrow> trade_table" where
  "prune_trades older tab = filter (\<lambda>(k, r). \<not> tr_ts r < older) tab"

end
