(* ===== verification/Tape.thy ===== *)
theory Tape
  imports Candles
begin

text \<open>
  What the tape holds: the candle of a pool and a minute is that of all the swaps recorded for it, in
  whatever order the blocks were processed, and the trades table is not changed by a replay.
\<close>

section \<open>The candle of a list of swaps\<close>

definition in_block :: "int \<Rightarrow> price_point list \<Rightarrow> price_point list" where
  "in_block n ps = filter (\<lambda>p. pp_block p = n) ps"

definition candle_of :: "price_point list \<Rightarrow> candle" where
  "candle_of ps =
     (let lo = Min (pp_block ` set ps); hi = Max (pp_block ` set ps) in
      \<lparr>cd_open = pp_price (last (in_block lo ps)), cd_high = Max (pp_price ` set ps), cd_low = Min (pp_price ` set ps),
       cd_close = pp_price (last (in_block hi ps)), cd_vol0 = (\<Sum>p\<leftarrow>ps. pp_vol0 p), cd_vol1 = (\<Sum>p\<leftarrow>ps. pp_vol1 p),
       cd_swaps = int (length ps), cd_first = lo, cd_last = hi\<rparr>)"

lemma in_block_append [simp]: "in_block n (xs @ ys) = in_block n xs @ in_block n ys"
  by (simp add: in_block_def)

lemma in_block_Nil: "in_block n ps = [] \<longleftrightarrow> n \<notin> pp_block ` set ps"
  by (auto simp: in_block_def filter_empty_conv)

lemma candle_of_single [simp]: "candle_of [p] = one_point p"
  by (simp add: candle_of_def one_point_def in_block_def Let_def)

lemma candle_of_snoc:
  assumes "ps \<noteq> []"
  shows "candle_of (ps @ [p]) = add_point (candle_of ps) p"
proof -
  define lo where "lo = Min (pp_block ` set ps)"
  define hi where "hi = Max (pp_block ` set ps)"
  have ne: "pp_block ` set ps \<noteq> {}" "pp_price ` set ps \<noteq> {}" using assms by auto
  have lo': "Min (pp_block ` set (ps @ [p])) = min lo (pp_block p)" and hi': "Max (pp_block ` set (ps @ [p])) = max hi (pp_block p)"
    using ne by (simp_all add: lo_def hi_def min.commute max.commute)
  have pr: "Min (pp_price ` set (ps @ [p])) = min (Min (pp_price ` set ps)) (pp_price p)"
    "Max (pp_price ` set (ps @ [p])) = max (Max (pp_price ` set ps)) (pp_price p)"
    using ne by (simp_all add: min.commute max.commute)
  have "in_block lo ps \<noteq> []" "in_block hi ps \<noteq> []" using ne by (auto simp: in_block_Nil lo_def hi_def)
  then show ?thesis
    unfolding candle_of_def Let_def lo' hi' pr lo_def [symmetric] hi_def [symmetric]
    by (auto simp: add_point_def Let_def min_def max_def in_block_def)
qed

lemma candle_of_append:
  assumes "xs \<noteq> []" "ys \<noteq> []" "pp_block ` set xs \<inter> pp_block ` set ys = {}"
  shows "candle_of (xs @ ys) = merge_candle (candle_of xs) (candle_of ys)"
proof -
  define lx where "lx = Min (pp_block ` set xs)" define hx where "hx = Max (pp_block ` set xs)"
  define ly where "ly = Min (pp_block ` set ys)" define hy where "hy = Max (pp_block ` set ys)"
  have ne: "pp_block ` set xs \<noteq> {}" "pp_block ` set ys \<noteq> {}" using assms by auto
  then have mem: "lx \<in> pp_block ` set xs" "hx \<in> pp_block ` set xs" "ly \<in> pp_block ` set ys" "hy \<in> pp_block ` set ys"
    by (simp_all add: lx_def hx_def ly_def hy_def)
  have lo: "Min (pp_block ` set (xs @ ys)) = min lx ly" and hi: "Max (pp_block ` set (xs @ ys)) = max hx hy"
    using ne by (simp_all add: image_Un Min_Un Max_Un lx_def hx_def ly_def hy_def)
  have pr: "Min (pp_price ` set (xs @ ys)) = min (Min (pp_price ` set xs)) (Min (pp_price ` set ys))"
    "Max (pp_price ` set (xs @ ys)) = max (Max (pp_price ` set xs)) (Max (pp_price ` set ys))"
    using assms by (simp_all add: image_Un Min_Un Max_Un)
  have only: "in_block lx ys = []" "in_block hx ys = []" "in_block ly xs = []" "in_block hy xs = []"
    using mem assms(3) by (auto simp: in_block_Nil)
  have "in_block ly ys \<noteq> []" "in_block hy ys \<noteq> []" "lx \<noteq> ly" "hx \<noteq> hy" using mem assms(3) by (auto simp: in_block_Nil)
  with only show ?thesis
    unfolding candle_of_def Let_def lo hi pr lx_def [symmetric] hx_def [symmetric] ly_def [symmetric] hy_def [symmetric]
    by (simp add: merge_candle_def min_def max_def)
qed

section \<open>Groups and rows\<close>

definition of_key :: "string \<times> int \<Rightarrow> price_point list \<Rightarrow> price_point list" where
  "of_key k ps = filter (\<lambda>p. (pp_pool p, pp_bucket p) = k) ps"

definition summary :: "(string \<times> int) \<Rightarrow> price_point list \<Rightarrow> candle option" where
  "summary k ps = (if of_key k ps = [] then None else Some (candle_of (of_key k ps)))"

lemma of_key_append [simp]: "of_key k (xs @ ys) = of_key k xs @ of_key k ys"
  by (simp add: of_key_def)

lemma group_points_summary: "jget (group_points ps) k = summary k ps \<and> jwf (group_points ps)"
proof (induction ps rule: rev_induct)
  case (snoc p ps)
  have step: "group_points (ps @ [p]) = group_point (group_points ps) p" by (simp add: group_points_def)
  show ?case
  proof (cases "k = (pp_pool p, pp_bucket p)")
    case True
    with snoc candle_of_snoc [of "of_key k ps" p] show ?thesis
      unfolding step by (auto simp: group_point_def summary_def of_key_def Let_def simp del: map_of_eq_Some_iff split: option.splits)
  next
    case False
    with snoc show ?thesis
      unfolding step by (auto simp: group_point_def summary_def of_key_def Let_def simp del: map_of_eq_Some_iff split: option.splits)
  qed
qed (simp add: group_points_def summary_def of_key_def)

definition lower_pools :: "price_point list \<Rightarrow> bool" where
  "lower_pools ps \<longleftrightarrow> (\<forall>p \<in> set ps. lower (pp_pool p) = pp_pool p)"

lemma group_keys: "k \<in> fst ` set (group_points ps) \<Longrightarrow> \<exists>p \<in> set ps. k = (pp_pool p, pp_bucket p)"
proof -
  assume "k \<in> fst ` set (group_points ps)"
  then have "jget (group_points ps) k \<noteq> None" by (simp add: map_of_eq_None_iff)
  then have "of_key k ps \<noteq> []" using group_points_summary by (auto simp: summary_def)
  then show ?thesis by (auto simp: of_key_def filter_empty_conv)
qed

lemma upsert_candle_row:
  "lower pool = pool \<Longrightarrow> jget (upsert_candle tab ((pool, bucket), e)) k =
    (if k = (pool, bucket) then (case jget tab k of None \<Rightarrow> Some e | Some c \<Rightarrow> Some (merge_candle c e)) else jget tab k)"
  by (simp add: upsert_candle_def Let_def split: option.split del: map_of_eq_Some_iff)

lemma fold_upsert:
  assumes "jwf gs" "\<forall>(k, g) \<in> set gs. lower (fst k) = fst k"
  shows "jget (foldl upsert_candle tab gs) k =
    (case jget gs k of None \<Rightarrow> jget tab k | Some e \<Rightarrow> (case jget tab k of None \<Rightarrow> Some e | Some c \<Rightarrow> Some (merge_candle c e)))"
  using assms
proof (induction gs arbitrary: tab)
  case (Cons kg gs)
  obtain pool bucket e where kg: "kg = ((pool, bucket), e)" by (metis prod_cases3 prod.collapse)
  have low: "lower pool = pool" using Cons.prems(2) kg by simp
  have new: "jget gs (pool, bucket) = None" using Cons.prems(1) kg by (simp add: map_of_eq_None_iff)
  have "jget (foldl upsert_candle (upsert_candle tab kg) gs) k =
    (case jget gs k of None \<Rightarrow> jget (upsert_candle tab kg) k
     | Some e \<Rightarrow> (case jget (upsert_candle tab kg) k of None \<Rightarrow> Some e | Some c \<Rightarrow> Some (merge_candle c e)))"
    using Cons by simp
  with new show ?case by (simp add: kg upsert_candle_row [OF low] split: option.split del: map_of_eq_Some_iff)
qed simp

lemma upsert_candles_row:
  assumes "lower_pools ps"
  shows "jget (upsert_candles ps tab) k =
    (case summary k ps of None \<Rightarrow> jget tab k | Some e \<Rightarrow> (case jget tab k of None \<Rightarrow> Some e | Some c \<Rightarrow> Some (merge_candle c e)))"
proof (cases "ps = []")
  case True
  then show ?thesis by (simp add: upsert_candles_def summary_def of_key_def)
next
  case False
  have "\<forall>(k, g) \<in> set (group_points ps). lower (fst k) = fst k"
    using group_keys [of _ ps] assms by (fastforce simp: lower_pools_def)
  with fold_upsert [OF conjunct2 [OF group_points_summary]] group_points_summary False show ?thesis
    by (simp add: upsert_candles_def)
qed

section \<open>Blocks in any order\<close>

text \<open>A block as it is processed: its number, its time and its receipts.\<close>

type_synonym block_data = "int \<times> int \<times> receipt list"

definition block_points :: "block_data \<Rightarrow> price_point list option" where
  "block_points b = (case b of (n, ts, rs) \<Rightarrow> extract_price_points n ts rs 60)"

definition points_of :: "block_data \<Rightarrow> price_point list" where
  "points_of b = (case block_points b of None \<Rightarrow> [] | Some ps \<Rightarrow> ps)"

text \<open>\<open>processBlock\<close> leaves the candles alone when a log of the block cannot be read.\<close>

definition record_block :: "candle_table \<Rightarrow> block_data \<Rightarrow> candle_table" where
  "record_block tab b = (case block_points b of None \<Rightarrow> tab | Some ps \<Rightarrow> upsert_candles ps tab)"

definition record_blocks :: "block_data list \<Rightarrow> candle_table" where
  "record_blocks bs = foldl record_block [] bs"

lemma for_swaps_pools: "for_swaps xs = Some found \<Longrightarrow> (tx, lg, s) \<in> set found \<Longrightarrow> lower (ps_pool s) = ps_pool s"
proof (induction xs arbitrary: found)
  case (Cons x xs)
  obtain tx' lg' where x: "x = (tx', lg')" by force
  from Cons.prems(1) obtain v rest where v: "priced_swap lg' = Some v" "for_swaps xs = Some rest"
    "found = (case v of None \<Rightarrow> rest | Some w \<Rightarrow> (tx', lg', w) # rest)" by (auto simp: x split: option.splits)
  have "lower (ps_pool w) = ps_pool w" if "v = Some w" for w
    using v(1) that by (auto simp: priced_swap_def Let_def split: option.splits swap_kind.splits if_splits)
  with v Cons.IH [OF v(2)] Cons.prems(2) show ?case by (auto split: option.splits)
qed simp

lemma points_of_facts:
  assumes "p \<in> set (points_of b)"
  shows "pp_block p = fst b \<and> lower (pp_pool p) = pp_pool p"
proof -
  obtain n ts rs where b: "b = (n, ts, rs)" by (metis prod_cases3)
  obtain found where f: "receipt_swaps rs = Some found"
    using assms by (cases "receipt_swaps rs") (simp_all add: points_of_def block_points_def b extract_price_points_def)
  then obtain tx lg s where s: "(tx, lg, s) \<in> set found" "pp_block p = n" "pp_pool p = ps_pool s"
    using assms by (auto simp: points_of_def block_points_def b extract_price_points_def)
  with for_swaps_pools [OF f [unfolded receipt_swaps_def] s(1)] b show ?thesis by simp
qed

lemma record_block_points: "record_block tab b = upsert_candles (points_of b) tab"
  by (auto simp: record_block_def points_of_def upsert_candles_def split: option.splits)

lemma recorded_blocks: "pp_block ` set (of_key k (concat (map points_of bs))) \<subseteq> fst ` set bs"
proof
  fix n assume "n \<in> pp_block ` set (of_key k (concat (map points_of bs)))"
  then obtain p b where "p \<in> set (points_of b)" "b \<in> set bs" "n = pp_block p" by (auto simp: of_key_def)
  with points_of_facts show "n \<in> fst ` set bs" by simp
qed

lemma disjoint_single: "A \<subseteq> B \<Longrightarrow> C \<subseteq> {x} \<Longrightarrow> x \<notin> B \<Longrightarrow> A \<inter> C = {}"
  by blast

lemma record_blocks_summary:
  assumes "distinct (map fst bs)"
  shows "jget (record_blocks bs) k = summary k (concat (map points_of bs))"
  using assms
proof (induction bs rule: rev_induct)
  case (snoc b bs)
  let ?old = "of_key k (concat (map points_of bs))" and ?new = "of_key k (points_of b)"
  have low: "lower_pools (points_of b)" using points_of_facts by (auto simp: lower_pools_def)
  have "pp_block ` set ?old \<subseteq> fst ` set bs" "pp_block ` set ?new \<subseteq> {fst b}"
    using recorded_blocks [of k bs] recorded_blocks [of k "[b]"] by simp_all
  moreover have "fst b \<notin> fst ` set bs" using snoc.prems by simp
  ultimately have dis: "pp_block ` set ?old \<inter> pp_block ` set ?new = {}" by (rule disjoint_single)
  have "jget (record_blocks (bs @ [b])) k = jget (upsert_candles (points_of b) (record_blocks bs)) k"
    by (simp add: record_blocks_def record_block_points)
  also have "\<dots> = (case summary k (points_of b) of None \<Rightarrow> summary k (concat (map points_of bs))
      | Some e \<Rightarrow> (case summary k (concat (map points_of bs)) of None \<Rightarrow> Some e | Some c \<Rightarrow> Some (merge_candle c e)))"
    using snoc.IH snoc.prems unfolding upsert_candles_row [OF low] by (simp only: map_append distinct_append simp_thms)
  also have "\<dots> = summary k (concat (map points_of (bs @ [b])))"
    using candle_of_append [OF _ _ dis] by (cases "?old = []"; cases "?new = []") (simp_all add: summary_def)
  finally show ?case .
qed (simp add: record_blocks_def summary_def of_key_def)

lemma in_block_concat:
  assumes "distinct (map fst bs)"
  shows "in_block n (of_key k (concat (map points_of bs))) = (if \<exists>b \<in> set bs. fst b = n then of_key k (points_of (THE b. b \<in> set bs \<and> fst b = n)) else [])"
proof (cases "\<exists>b \<in> set bs. fst b = n")
  case False
  then have "n \<notin> pp_block ` set (of_key k (concat (map points_of bs)))" using recorded_blocks [of k bs] by (metis image_iff subsetD)
  with False show ?thesis by (simp add: in_block_Nil)
next
  case True
  then obtain xs b ys where bs: "bs = xs @ b # ys" "fst b = n" by (metis split_list)
  have the: "(THE b. b \<in> set bs \<and> fst b = n) = b"
  proof (rule the_equality)
    show "b \<in> set bs \<and> fst b = n" using bs by simp
    show "x = b" if "x \<in> set bs \<and> fst x = n" for x using assms that bs unfolding distinct_map by (metis inj_onD in_set_conv_decomp)
  qed
  have none: "in_block n (of_key k (concat (map points_of zs))) = []" if "set zs \<subseteq> set xs \<union> set ys" for zs
  proof -
    have "n \<notin> fst ` set zs" using assms bs that by auto
    with recorded_blocks [of k zs] show ?thesis by (auto simp: in_block_Nil)
  qed
  have "\<forall>p \<in> set (of_key k (points_of b)). pp_block p = n" using recorded_blocks [of k "[b]"] bs(2) by auto
  then have "in_block n (of_key k (points_of b)) = of_key k (points_of b)" by (simp add: in_block_def)
  with none [of xs] none [of ys] True the show ?thesis by (simp add: bs(1))
qed

lemma candle_of_any_order:
  assumes "distinct (map fst bs)" "mset bs = mset bs'"
  shows "summary k (concat (map points_of bs)) = summary k (concat (map points_of bs'))"
proof -
  let ?ps = "of_key k (concat (map points_of bs))" and ?ps' = "of_key k (concat (map points_of bs'))"
  have "mset (concat (map points_of cs)) = sum_mset (image_mset (mset \<circ> points_of) (mset cs))" for cs
    by (induction cs) simp_all
  then have "mset (concat (map points_of bs)) = mset (concat (map points_of bs'))" using assms(2) by simp
  then have m: "mset ?ps = mset ?ps'" by (simp add: of_key_def)
  then have s: "set ?ps = set ?ps'" "length ?ps = length ?ps'" by (metis set_mset_mset, metis size_mset)
  have sums: "(\<Sum>p\<leftarrow>?ps. f p) = (\<Sum>p\<leftarrow>?ps'. f p)" for f :: "price_point \<Rightarrow> rat"
    using m by (metis mset_map sum_mset_sum_list)
  have "distinct (map fst bs')" using assms by (metis mset_map mset_eq_imp_distinct_iff)
  moreover have "set bs = set bs'" using assms(2) by (metis set_mset_mset)
  ultimately have blk: "in_block n ?ps = in_block n ?ps'" for n
    using in_block_concat [of bs] in_block_concat [of bs'] assms(1) by simp
  have "candle_of ?ps = candle_of ?ps'" unfolding candle_of_def Let_def s sums blk ..
  moreover have "?ps = [] \<longleftrightarrow> ?ps' = []" using s(2) by auto
  ultimately show ?thesis by (simp add: summary_def)
qed


section \<open>Replays\<close>

interpretation trade_rows: insert_or_ignore "insert_ignore trade_key trade_stored" jget trade_key trade_stored
  by unfold_locales (rule insert_ignore_row)

text \<open>The trades of a block that is processed again are ignored; its volume is added again.\<close>

lemma trades_replayed: "set rows \<subseteq> set before \<Longrightarrow> jget (insert_trades rows (insert_trades before t)) k = jget (insert_trades before t) k"
  unfolding insert_trades_def by (rule trade_rows.replay_ignored)

definition demo_point :: "int \<Rightarrow> rat \<Rightarrow> price_point" where
  "demo_point n price = \<lparr>pp_pool = ''0xaa'', pp_bucket = 60, pp_price = price, pp_vol0 = 5, pp_vol1 = 7, pp_block = n\<rparr>"

lemma replay_doubles_volume:
  "map_option cd_vol0 (jget (upsert_candles [demo_point 1 2] (upsert_candles [demo_point 1 2] [])) (''0xaa'', 60)) = Some 10"
  by code_simp

text \<open>The open of a minute is the last swap of its first block, not the first one.\<close>

lemma open_is_not_first:
  "map_option cd_open (jget (upsert_candles [demo_point 1 2, demo_point 1 3, demo_point 2 4] []) (''0xaa'', 60)) = Some 3"
  by code_simp

definition demo_word :: "string \<Rightarrow> string" where "demo_word s = replicate (64 - length s) CHR ''0'' @ s"

definition demo_swap_log :: "string \<Rightarrow> swap_log" where
  "demo_swap_log s =
     \<lparr>sl_address = ''0xAA'', sl_topics = [''0xc42079f94a6350d7e6235f29174924f928cc2ac818eb64fed8004e115fbcca67''],
      sl_data = Some (''0x'' @ demo_word ''05'' @ demo_word ''07'' @ demo_word s @ demo_word [] @ demo_word []), sl_log_index = None, sl_tx = None\<rparr>"

definition demo_block :: "int \<Rightarrow> string list \<Rightarrow> block_data" where
  "demo_block n ss = (n, 61, [\<lparr>rc_tx = None, rc_logs = map demo_swap_log ss\<rparr>])"


end
