(* ===== verification/V4Index.thy ===== *)
theory V4Index
  imports Tables Chain Candles
begin

text \<open>
  Uniswap V4 pool discovery (\<open>apps/watcher/src/v4.ts\<close>) and the table of pool keys
  (\<open>packages/store/src/index.ts\<close>): an Initialize log is decoded once, and the historical walk asks for
  windows that shrink when they are refused and grow back when they are served.
\<close>

section \<open>Initialize logs\<close>

record init_log =
  il_address :: string
  il_topics :: "string list"
  il_data :: "string option"
  il_block :: "string option"
  il_tx :: "string option"

record v4_pool =
  vp_id :: string
  vp_currency0 :: string
  vp_currency1 :: string
  vp_fee :: int
  vp_spacing :: int
  vp_hooks :: string
  vp_sqrt :: string
  vp_tick :: int
  vp_block :: int
  vp_tx :: "string option"
  vp_ts :: "int option"

definition initialize_topic :: string where
  "initialize_topic = ''0xdd466e674ea557f56295e2d0218a125ea4b4f0f6f3307b95f85e6110838d6438''"

definition init_word :: "string \<Rightarrow> nat \<Rightarrow> int option" where
  "init_word d i = big_int (''0x'' @ str_slice (i * 64) ((i + 1) * 64) d)"

definition init_signed :: "string \<Rightarrow> nat \<Rightarrow> int option" where
  "init_signed d i = map_option (\<lambda>v. if 2 ^ 255 \<le> v then v - 2 ^ 256 else v) (init_word d i)"

definition topic_address :: "string \<Rightarrow> string" where
  "topic_address t = lower (''0x'' @ drop 26 t)"

text \<open>\<open>Some None\<close> is no Initialize log, \<^const>\<open>None\<close> a word that \<open>BigInt\<close> cannot read.\<close>

definition decode_initialize :: "init_log \<Rightarrow> int \<Rightarrow> int option \<Rightarrow> v4_pool option option" where
  "decode_initialize lg block ts =
     (let t = il_topics lg; d = (case il_data lg of None \<Rightarrow> [] | Some s \<Rightarrow> drop 2 s) in
      if lower (il_address lg) \<noteq> pool_manager \<or> t = [] \<or> lower (hd t) \<noteq> initialize_topic \<or> length t < 4 \<or> length d < 5 * 64 then Some None
      else Option.bind (init_word d 0) (\<lambda>fee.
           Option.bind (init_signed d 1) (\<lambda>spacing.
           Option.bind (init_word d 3) (\<lambda>sqrt.
           Option.bind (init_signed d 4) (\<lambda>tick.
             Some (Some \<lparr>vp_id = lower (t ! 1), vp_currency0 = topic_address (t ! 2), vp_currency1 = topic_address (t ! 3), vp_fee = fee,
               vp_spacing = spacing, vp_hooks = lower (''0x'' @ str_slice (2 * 64 + 24) (3 * 64) d), vp_sqrt = to_str sqrt, vp_tick = tick,
               vp_block = block, vp_tx = il_tx lg, vp_ts = ts\<rparr>))))))"

text \<open>The loop that decodes logs and keeps what it found; the first throw ends it.\<close>

fun decode_all :: "(init_log \<times> int \<times> int option) list \<Rightarrow> v4_pool list option" where
  "decode_all [] = Some []"
| "decode_all ((lg, block, ts) # rest) =
     (case decode_initialize lg block ts of
        None \<Rightarrow> None
      | Some r \<Rightarrow> map_option (\<lambda>rows. (case r of None \<Rightarrow> rows | Some v \<Rightarrow> v # rows)) (decode_all rest))"

definition extract_v4_initializes :: "int \<Rightarrow> int \<Rightarrow> (string option \<times> init_log list) list \<Rightarrow> v4_pool list option" where
  "extract_v4_initializes block ts receipts =
     decode_all (concat (map (\<lambda>(tx, logs). map (\<lambda>lg.
       (lg\<lparr>il_tx := (case il_tx lg of Some h \<Rightarrow> Some h | None \<Rightarrow> tx)\<rparr>, block, Some ts)) logs) receipts))"

section \<open>The table of pool keys\<close>

type_synonym v4_table = "(string \<times> v4_pool) list"

definition v4_key :: "v4_pool \<Rightarrow> string" where "v4_key r = lower (vp_id r)"

definition v4_stored :: "v4_pool \<Rightarrow> v4_pool" where
  "v4_stored r = r\<lparr>vp_id := lower (vp_id r), vp_currency0 := lower (vp_currency0 r), vp_currency1 := lower (vp_currency1 r), vp_hooks := lower (vp_hooks r)\<rparr>"

definition upsert_v4_pools :: "v4_pool list \<Rightarrow> v4_table \<Rightarrow> v4_table" where
  "upsert_v4_pools rows t = foldl (insert_ignore v4_key v4_stored) t rows"

interpretation v4_rows: insert_or_ignore "insert_ignore v4_key v4_stored" jget v4_key v4_stored
  by unfold_locales (rule insert_ignore_row)

text \<open>A row read once is kept for the life of the process.\<close>

definition v4_pool_of :: "v4_table \<Rightarrow> v4_table \<Rightarrow> string \<Rightarrow> v4_pool option \<times> v4_table" where
  "v4_pool_of t cache pool_id =
     (let k = lower pool_id in
      case jget cache k of
        Some hit \<Rightarrow> (Some hit, cache)
      | None \<Rightarrow> (case jget t k of None \<Rightarrow> (None, cache) | Some row \<Rightarrow> (Some row, jset k row cache)))"

definition v4_pools_by_ids :: "v4_table \<Rightarrow> v4_table \<Rightarrow> string list \<Rightarrow> v4_table \<times> v4_table" where
  "v4_pools_by_ids t cache ids =
     (let ks = js_set (map lower ids);
          hits = concat (map (\<lambda>k. case jget cache k of None \<Rightarrow> [] | Some h \<Rightarrow> [(k, h)]) ks);
          found = concat (map (\<lambda>k. case jget cache k of None \<Rightarrow> (case jget t k of None \<Rightarrow> [] | Some r \<Rightarrow> [(k, r)]) | Some h \<Rightarrow> []) ks) in
      (hits @ found, foldl (\<lambda>c (k, r). jset k r c) cache found))"

definition v4_pools_for :: "v4_table \<Rightarrow> string \<Rightarrow> v4_pool list" where
  "v4_pools_for t currency =
     sort_key vp_block (filter (\<lambda>r. vp_currency0 r = lower currency \<or> vp_currency1 r = lower currency) (map snd t))"

definition v4_pools_for_pair :: "v4_table \<Rightarrow> string \<Rightarrow> string \<Rightarrow> v4_pool list" where
  "v4_pools_for_pair t a b =
     sort_key vp_block (filter (\<lambda>r. (vp_currency0 r = lower a \<and> vp_currency1 r = lower b) \<or> (vp_currency0 r = lower b \<and> vp_currency1 r = lower a)) (map snd t))"

section \<open>The walk over the past\<close>

datatype fetch_outcome = Served "init_log list" | FetchFailed string

definition range_words :: "string list" where
  "range_words = [''range'', ''limit'', ''exceed'', ''too many'', ''response size'', ''more than'', ''query returned'', ''10000'', ''-32602'', ''invalid param'']"

definition range_refused :: "string \<Rightarrow> bool" where
  "range_refused msg = list_ex (\<lambda>p. str_includes p (lower msg)) range_words"

definition deploy_block :: int where "deploy_block = 9070"

record init_walk =
  wk_from :: int
  wk_span :: int
  wk_stuck :: nat
  wk_good :: nat
  wk_backoff :: int
  wk_table :: v4_table
  wk_scanned :: "int option"
  wk_asked :: nat

definition window_end :: "int \<Rightarrow> init_walk \<Rightarrow> int" where
  "window_end to_block w = min (wk_from w + wk_span w - 1) to_block"

definition block_of_log :: "init_log \<Rightarrow> int option" where
  "block_of_log lg = big_int (case il_block lg of None \<Rightarrow> ''0x0'' | Some b \<Rightarrow> b)"

definition decode_window :: "init_log list \<Rightarrow> v4_pool list option" where
  "decode_window logs =
     (if \<exists>lg \<in> set logs. block_of_log lg = None then None
      else decode_all (map (\<lambda>lg. (lg, the (block_of_log lg), None)) logs))"

definition served :: "int \<Rightarrow> int \<Rightarrow> v4_pool list \<Rightarrow> init_walk \<Rightarrow> init_walk" where
  "served to_block max_span rows w =
     (let upto = window_end to_block w; good = wk_good w + 1 in
      w\<lparr>wk_stuck := 0, wk_backoff := 0, wk_table := upsert_v4_pools rows (wk_table w), wk_scanned := Some upto, wk_from := upto + 1,
        wk_span := (if 5 \<le> good \<and> wk_span w < max_span then min max_span (wk_span w * 2) else wk_span w),
        wk_good := (if 5 \<le> good \<and> wk_span w < max_span then 0 else good)\<rparr>)"

definition shrunk :: "init_walk \<Rightarrow> init_walk" where
  "shrunk w = w\<lparr>wk_span := max 100 (wk_span w div 2), wk_good := 0\<rparr>"

definition waited :: "init_walk \<Rightarrow> init_walk" where
  "waited w = w\<lparr>wk_stuck := wk_stuck w + 1, wk_backoff := min (if 0 < wk_backoff w then wk_backoff w * 2 else 1000) 30000\<rparr>"

datatype walk_result = Walked int init_walk | WalkThrows init_walk

text \<open>
  \<open>fetch k from to\<close> is the outcome of the \<open>k\<close>-th request. The loop ends: a window that is served moves
  on, a refused one gets smaller, and the 41st failure in a row gives up. A span below one is never
  configured (the default is 10000, halving stops at 100); with one the code would ask for empty windows.
\<close>

function walk_loop :: "(nat \<Rightarrow> int \<Rightarrow> int \<Rightarrow> fetch_outcome) \<Rightarrow> int \<Rightarrow> int \<Rightarrow> init_walk \<Rightarrow> walk_result" where
  "walk_loop fetch to_block max_span w =
     (if to_block < wk_from w \<or> wk_span w < 1 \<or> max_span < 1 then Walked to_block w
      else (let out = fetch (wk_asked w) (wk_from w) (window_end to_block w); w1 = w\<lparr>wk_asked := Suc (wk_asked w)\<rparr> in
        case out of
          Served logs \<Rightarrow>
            (case decode_window logs of
               None \<Rightarrow> WalkThrows w1
             | Some rows \<Rightarrow> walk_loop fetch to_block max_span (served to_block max_span rows w1))
        | FetchFailed msg \<Rightarrow>
            if range_refused msg \<and> 100 < wk_span w then walk_loop fetch to_block max_span (shrunk w1)
            else if 40 \<le> wk_stuck w then Walked (wk_from w - 1) w1
            else walk_loop fetch to_block max_span (waited w1)))"
  by pat_completeness auto
termination
proof (relation "measures [\<lambda>(fetch, to_block, max_span, w). nat (to_block + 1 - wk_from w), \<lambda>(fetch, to_block, max_span, w). 41 - wk_stuck w,
    \<lambda>(fetch, to_block, max_span, w). nat (wk_span w)]", goal_cases)
  case (2 fetch to_block max_span w out w1 logs rows)
  then show ?case by (auto simp: served_def window_end_def Let_def min_def)
next
  case (3 fetch to_block max_span w out w1 msg)
  then have "wk_span (shrunk w1) < wk_span w" by (auto simp: shrunk_def max_def)
  with 3 show ?case by (auto simp: shrunk_def)
qed (auto simp: waited_def)

declare walk_loop.simps [simp del]

definition backfill_v4_pools :: "(nat \<Rightarrow> int \<Rightarrow> int \<Rightarrow> fetch_outcome) \<Rightarrow> int \<Rightarrow> int \<Rightarrow> int option \<Rightarrow> v4_table \<Rightarrow> walk_result" where
  "backfill_v4_pools fetch to_block max_span saved t =
     (let start = (case saved of None \<Rightarrow> deploy_block | Some s \<Rightarrow> s + 1);
          w = \<lparr>wk_from = start, wk_span = max_span, wk_stuck = 0, wk_good = 0, wk_backoff = 0, wk_table = t, wk_scanned = saved, wk_asked = 0\<rparr> in
      if to_block < start then Walked to_block w else walk_loop fetch to_block max_span w)"

end
