(* ===== verification/V4Walk.thy ===== *)
theory V4Walk
  imports V4Index
begin

text \<open>
  The walk over the past misses nothing: whatever it was refused on the way, every pool announced in the
  blocks it reports as covered is in the table, and it stops short only after 41 failures in a row.
\<close>

section \<open>Decoding in a loop\<close>

lemma decode_all_sound:
  "decode_all xs = Some rows \<Longrightarrow> r \<in> set rows \<Longrightarrow> \<exists>(lg, block, ts) \<in> set xs. decode_initialize lg block ts = Some (Some r)"
  by (induction xs arbitrary: rows) (force split: option.splits)+

lemma decode_all_complete:
  "decode_all xs = Some rows \<Longrightarrow> (lg, block, ts) \<in> set xs \<Longrightarrow> decode_initialize lg block ts = Some (Some r) \<Longrightarrow> r \<in> set rows"
  by (induction xs arbitrary: rows) (force split: option.splits)+

text \<open>The chain: the Initialize logs of each block, which name their block.\<close>

definition chain_logs :: "(int \<Rightarrow> init_log list) \<Rightarrow> bool" where
  "chain_logs chain \<longleftrightarrow> (\<forall>n. \<forall>lg \<in> set (chain n). block_of_log lg = Some n)"

definition announced :: "(int \<Rightarrow> init_log list) \<Rightarrow> int \<Rightarrow> int \<Rightarrow> v4_pool \<Rightarrow> bool" where
  "announced chain lo hi r \<longleftrightarrow> (\<exists>n lg. lo \<le> n \<and> n < hi \<and> lg \<in> set (chain n) \<and> decode_initialize lg n None = Some (Some r))"

definition honest_fetch :: "(int \<Rightarrow> init_log list) \<Rightarrow> (nat \<Rightarrow> int \<Rightarrow> int \<Rightarrow> fetch_outcome) \<Rightarrow> bool" where
  "honest_fetch chain fetch \<longleftrightarrow> (\<forall>k lo hi logs. fetch k lo hi = Served logs \<longrightarrow> set logs = (\<Union>n \<in> {lo..hi}. set (chain n)))"

lemma window_rows:
  assumes "chain_logs chain" "set logs = (\<Union>n \<in> {lo..hi}. set (chain n))" "decode_window logs = Some rows"
  shows "r \<in> set rows \<longleftrightarrow> announced chain lo (hi + 1) r"
proof -
  have "block_of_log lg = Some n" if "lg \<in> set (chain n)" for lg n using assms(1) that by (auto simp: chain_logs_def)
  moreover have rows: "decode_all (map (\<lambda>lg. (lg, the (block_of_log lg), None)) logs) = Some rows"
    using assms(3) by (auto simp: decode_window_def split: if_splits)
  ultimately show ?thesis
    using decode_all_sound [OF rows, of r] decode_all_complete [OF rows] assms(2) unfolding announced_def
    by (fastforce simp: image_iff)
qed

section \<open>The loop\<close>

definition failing :: "(nat \<Rightarrow> int \<Rightarrow> int \<Rightarrow> fetch_outcome) \<Rightarrow> nat \<Rightarrow> init_walk \<Rightarrow> bool" where
  "failing fetch m w \<longleftrightarrow> m \<le> wk_asked w \<and> (\<forall>j. wk_asked w - m \<le> j \<and> j < wk_asked w \<longrightarrow> (\<exists>u msg. fetch j (wk_from w) u = FetchFailed msg))"

definition walk_inv ::
  "(int \<Rightarrow> init_log list) \<Rightarrow> (nat \<Rightarrow> int \<Rightarrow> int \<Rightarrow> fetch_outcome) \<Rightarrow> int \<Rightarrow> int \<Rightarrow> int option \<Rightarrow> v4_table \<Rightarrow> init_walk \<Rightarrow> bool" where
  "walk_inv chain fetch start to_block saved t w \<longleftrightarrow>
     start \<le> wk_from w \<and> wk_from w \<le> to_block + 1 \<and> 1 \<le> wk_span w \<and>
     wk_scanned w = (if wk_from w = start then saved else Some (wk_from w - 1)) \<and>
     (\<exists>m. wk_stuck w \<le> m \<and> failing fetch m w) \<and>
     (\<exists>rows. wk_table w = upsert_v4_pools rows t \<and> (\<forall>r. r \<in> set rows \<longleftrightarrow> announced chain start (wk_from w) r))"

lemma failing_more:
  "failing fetch m w \<Longrightarrow> fetch (wk_asked w) (wk_from w) u = FetchFailed msg \<Longrightarrow> failing fetch (Suc m) (w\<lparr>wk_asked := Suc (wk_asked w)\<rparr>)"
  by (auto simp: failing_def less_Suc_eq)

lemma failing_span: "failing fetch m (shrunk w) = failing fetch m w" "failing fetch m (waited w) = failing fetch m w"
  by (simp_all add: failing_def shrunk_def waited_def)

lemma upsert_append: "upsert_v4_pools ys (upsert_v4_pools xs t) = upsert_v4_pools (xs @ ys) t"
  by (simp add: upsert_v4_pools_def)

lemma announced_split:
  assumes "lo \<le> mid" "mid \<le> hi"
  shows "announced chain lo hi r \<longleftrightarrow> announced chain lo mid r \<or> announced chain mid hi r"
proof
  assume "announced chain lo hi r"
  then obtain n lg where "lo \<le> n" "n < hi" "lg \<in> set (chain n)" "decode_initialize lg n None = Some (Some r)" by (auto simp: announced_def)
  then show "announced chain lo mid r \<or> announced chain mid hi r" unfolding announced_def by (cases "n < mid") (blast, force)
next
  assume "announced chain lo mid r \<or> announced chain mid hi r"
  then obtain n lg where "lo \<le> n" "n < hi" "lg \<in> set (chain n)" "decode_initialize lg n None = Some (Some r)"
    using assms unfolding announced_def by (meson order_trans le_less_trans less_le_trans)
  then show "announced chain lo hi r" unfolding announced_def by blast
qed

lemma walk_served:
  assumes "walk_inv chain fetch start to_block saved t w" "chain_logs chain" "honest_fetch chain fetch" "wk_from w \<le> to_block" "1 \<le> max_span"
    and "fetch (wk_asked w) (wk_from w) (window_end to_block w) = Served logs" "decode_window logs = Some rows"
  shows "walk_inv chain fetch start to_block saved t (served to_block max_span rows (w\<lparr>wk_asked := Suc (wk_asked w)\<rparr>))"
proof -
  let ?w = "served to_block max_span rows (w\<lparr>wk_asked := Suc (wk_asked w)\<rparr>)"
  from assms(1) obtain old where i: "start \<le> wk_from w" "1 \<le> wk_span w" "wk_table w = upsert_v4_pools old t"
    "\<And>r. r \<in> set old \<longleftrightarrow> announced chain start (wk_from w) r" by (auto simp: walk_inv_def)
  define upto where "upto = window_end to_block w"
  have up: "wk_from w \<le> upto" "upto \<le> to_block" using i(2) assms(4) by (auto simp: upto_def window_end_def)
  have f: "wk_from ?w = upto + 1" "wk_scanned ?w = Some upto" "wk_stuck ?w = 0" "wk_table ?w = upsert_v4_pools (old @ rows) t" "1 \<le> wk_span ?w"
    using i(2,3) assms(5) by (auto simp: served_def Let_def upto_def window_end_def upsert_append)
  have "set logs = (\<Union>n \<in> {wk_from w..upto}. set (chain n))" using assms(3,6) by (auto simp: honest_fetch_def upto_def)
  note new = window_rows [OF assms(2) this assms(7)]
  have "r \<in> set (old @ rows) \<longleftrightarrow> announced chain start (upto + 1) r" for r
    using announced_split [of start "wk_from w" "upto + 1" chain r] up i(1) i(4) [of r] new [of r] by simp
  moreover have "failing fetch 0 ?w" by (auto simp: failing_def)
  ultimately have rest: "\<exists>m\<ge>0. failing fetch m ?w" "\<exists>rs. upsert_v4_pools (old @ rows) t = upsert_v4_pools rs t \<and> (\<forall>r. r \<in> set rs \<longleftrightarrow> announced chain start (upto + 1) r)"
    by blast+
  have "start \<le> upto + 1" "upto + 1 \<le> to_block + 1" "Some upto = (if upto + 1 = start then saved else Some (upto + 1 - 1))" using up i(1) by simp_all
  with rest f(5) show ?thesis unfolding walk_inv_def f(1-4) by blast
qed

lemma walk_loop_ends:
  assumes "walk_loop fetch to_block max_span w = Walked r w'" "walk_inv chain fetch start to_block saved t w"
    and "chain_logs chain" "honest_fetch chain fetch" "1 \<le> max_span"
  shows "walk_inv chain fetch start to_block saved t w' \<and> r = wk_from w' - 1 \<and> (r < to_block \<longrightarrow> (\<exists>m \<ge> 41. failing fetch m w'))"
  using assms
proof (induction fetch to_block max_span w rule: walk_loop.induct)
  case (1 fetch to_block max_span w)
  let ?w1 = "w\<lparr>wk_asked := Suc (wk_asked w)\<rparr>"
  show ?case
  proof (cases "to_block < wk_from w")
    case True
    with 1(4) have "r = to_block" "w' = w" by (simp_all add: walk_loop.simps [of fetch to_block max_span w])
    with 1(5) True show ?thesis by (auto simp: walk_inv_def)
  next
    case False
    then have go: "\<not> (to_block < wk_from w \<or> wk_span w < 1 \<or> max_span < 1)" using 1(5,8) by (auto simp: walk_inv_def)
    obtain m where m: "wk_stuck w \<le> m" "failing fetch m w" using 1(5) by (auto simp: walk_inv_def)
    have idle: "walk_inv chain fetch start to_block saved t (g ?w1)"
      if f: "failing fetch (Suc m) ?w1" and g: "g = shrunk \<or> g = waited" for g
    proof -
      have "wk_from (g ?w1) = wk_from w" "wk_scanned (g ?w1) = wk_scanned w" "wk_table (g ?w1) = wk_table w" "1 \<le> wk_span (g ?w1)"
        "wk_stuck (g ?w1) \<le> Suc m" "failing fetch (Suc m) (g ?w1)"
        using g f m(1) go failing_span [of fetch "Suc m" ?w1] by (auto simp: shrunk_def waited_def)
      with 1(5) show ?thesis unfolding walk_inv_def by auto
    qed
    show ?thesis
    proof (cases "fetch (wk_asked w) (wk_from w) (window_end to_block w)")
      case (Served logs)
      with 1(4) go obtain rows where rows: "decode_window logs = Some rows" "walk_loop fetch to_block max_span (served to_block max_span rows ?w1) = Walked r w'"
        by (auto simp: walk_loop.simps [of fetch to_block max_span w] Let_def split: option.splits)
      show ?thesis
        by (rule "1.IH"(1) [OF go refl refl Served rows(1) rows(2)]) (use walk_served [OF 1(5,6,7) _ 1(8) Served rows(1)] go 1(6-8) in simp_all)
    next
      case (FetchFailed msg)
      note more = failing_more [OF m(2) FetchFailed]
      consider (shrink) "range_refused msg" "100 < wk_span w" | (stop) "\<not> (range_refused msg \<and> 100 < wk_span w)" "40 \<le> wk_stuck w"
        | (wait) "\<not> (range_refused msg \<and> 100 < wk_span w)" "\<not> 40 \<le> wk_stuck w" by blast
      then show ?thesis
      proof cases
        case shrink
        then have c: "range_refused msg \<and> 100 < wk_span w" by simp
        have "walk_loop fetch to_block max_span (shrunk ?w1) = Walked r w'" using 1(4) go FetchFailed c by (simp add: walk_loop.simps [of fetch to_block max_span w] Let_def)
        then show ?thesis by (rule "1.IH"(2) [OF go refl refl FetchFailed c]) (use idle [OF more] 1(6-8) in simp_all)
      next
        case stop
        have "walk_loop fetch to_block max_span w = Walked (wk_from w - 1) ?w1"
          using go FetchFailed stop by (simp only: walk_loop.simps [of fetch to_block max_span w] Let_def fetch_outcome.case if_False if_True)
        with 1(4) have "r = wk_from w - 1" "w' = ?w1" by simp_all
        with 1(5) m stop(2) more show ?thesis by (auto simp: walk_inv_def intro!: exI [of _ "Suc m"])
      next
        case wait
        have "walk_loop fetch to_block max_span (waited ?w1) = Walked r w'" using 1(4) go FetchFailed wait by (simp add: walk_loop.simps [of fetch to_block max_span w] Let_def)
        then show ?thesis by (rule "1.IH"(3) [OF go refl refl FetchFailed wait]) (use idle [OF more] 1(6-8) in simp_all)
      qed
    qed
  qed
qed


section \<open>A walk that is refused first\<close>

definition demo_init :: init_log where
  "demo_init = \<lparr>il_address = pool_manager, il_topics = [initialize_topic, ''0xA1'', zero_address, weth], il_data = Some (''0x'' @ replicate 320 CHR ''0''),
     il_block = Some ''9071'', il_tx = None\<rparr>"

definition demo_chain :: "int \<Rightarrow> init_log list" where
  "demo_chain n = (if n = 9071 then [demo_init] else [])"

definition demo_fetch :: "nat \<Rightarrow> int \<Rightarrow> int \<Rightarrow> fetch_outcome" where
  "demo_fetch k lo hi = (if k = 0 then FetchFailed ''block range too wide'' else Served (concat (map demo_chain [lo..hi])))"

lemma demo_announced: "map_option (map_option vp_id) (decode_initialize demo_init 9071 None) = Some (Some ''0xa1'')"
  by code_simp

lemma demo_walked: "case backfill_v4_pools demo_fetch 9073 300 None [] of Walked reached w \<Rightarrow> reached = 9073 | WalkThrows w \<Rightarrow> False"
  by code_simp


end
