(* ===== verification/WatchLoop.thy ===== *)
theory WatchLoop
  imports V4Index
begin

text \<open>
  The watcher's loop (\<open>apps/watcher/src/main.ts\<close>): blocks are processed in chunks as wide as the
  concurrency, which halves on a failure and recovers after twenty good chunks; the checkpoint is saved as
  the loop goes; and the historical walk over the V4 pools hands its own checkpoint to the loop once the two
  have met.
\<close>

text \<open>What became of a block: \<open>Absent\<close> is the node's \<open>null\<close>, on which \<open>processBlock\<close> returns.\<close>

datatype block_outcome = Indexed | Absent | BlockFailed

record watch_cfg =
  wc_concurrency :: int
  wc_max_batch :: int
  wc_backfill :: int

record watch_loop =
  wl_live_start :: int
  wl_next :: int
  wl_concurrency :: int
  wl_good :: int
  wl_failures :: nat
  wl_last_saved :: int
  wl_wait_ms :: int
  wl_checkpoint :: "int option"
  wl_v4_scanned :: "int option"
  wl_v4_caught :: bool
  wl_done :: "int set"

definition commit_block :: "int \<Rightarrow> watch_loop \<Rightarrow> watch_loop" where
  "commit_block block w =
     w\<lparr>wl_checkpoint := Some block, wl_v4_scanned := (if wl_v4_caught w then Some (block - 1) else wl_v4_scanned w), wl_last_saved := block\<rparr>"

definition chunk_of :: "int \<Rightarrow> watch_loop \<Rightarrow> int list" where
  "chunk_of target w = [wl_next w..min target (wl_next w + wl_concurrency w - 1)]"

definition mark_done :: "(int \<Rightarrow> block_outcome) \<Rightarrow> int list \<Rightarrow> watch_loop \<Rightarrow> watch_loop" where
  "mark_done out chunk w = w\<lparr>wl_done := wl_done w \<union> set (filter (\<lambda>b. out b \<noteq> BlockFailed) chunk)\<rparr>"

definition chunk_good :: "watch_cfg \<Rightarrow> int \<Rightarrow> watch_loop \<Rightarrow> watch_loop" where
  "chunk_good cfg width w =
     (let w = w\<lparr>wl_next := wl_next w + width\<rparr>;
          w = (if 25 \<le> wl_next w - wl_last_saved w then commit_block (wl_next w) w else w);
          good = wl_good w + 1 in
      if 20 \<le> good \<and> wl_concurrency w < wc_concurrency cfg
      then w\<lparr>wl_concurrency := wl_concurrency w + 1, wl_good := 0\<rparr> else w\<lparr>wl_good := good\<rparr>)"

definition pass_failed :: "watch_loop \<Rightarrow> watch_loop" where
  "pass_failed w =
     (let n = wl_failures w + 1 in
      w\<lparr>wl_failures := n, wl_concurrency := max 1 (wl_concurrency w div 2), wl_good := 0,
        wl_wait_ms := min 60000 (2000 * 2 ^ min (n - 1) 5)\<rparr>)"

text \<open>
  The inner loop; a chunk with a failed block leaves it through the \<open>catch\<close>. The concurrency starts at
  \<open>ORDO_CONCURRENCY\<close> and never falls below one; a setting below one, with which the code would spin, ends
  the loop here.
\<close>

function chunks :: "watch_cfg \<Rightarrow> (int \<Rightarrow> block_outcome) \<Rightarrow> int \<Rightarrow> watch_loop \<Rightarrow> watch_loop" where
  "chunks cfg out target w =
     (if target < wl_next w \<or> wl_concurrency w < 1 then (commit_block (wl_next w) w)\<lparr>wl_failures := 0\<rparr>
      else let chunk = chunk_of target w; w1 = mark_done out chunk w in
           if \<exists>b \<in> set chunk. out b = BlockFailed then pass_failed w1
           else chunks cfg out target (chunk_good cfg (int (length chunk)) w1))"
  by pat_completeness auto
termination
  by (relation "measure (\<lambda>(cfg, out, target, w). nat (target + 1 - wl_next w))")
    (auto simp: chunk_good_def chunk_of_def mark_done_def commit_block_def Let_def min_def)

declare chunks.simps [simp del]

definition watch_pass :: "watch_cfg \<Rightarrow> int \<Rightarrow> (int \<Rightarrow> block_outcome) \<Rightarrow> watch_loop \<Rightarrow> watch_loop" where
  "watch_pass cfg head out w =
     (if head < wl_next w then w else chunks cfg out (min head (wl_next w + wc_max_batch cfg - 1)) w)"

text \<open>What survives a restart is the checkpoint and the tables.\<close>

definition restart :: "watch_cfg \<Rightarrow> int \<Rightarrow> watch_loop \<Rightarrow> watch_loop" where
  "restart cfg head0 w =
     (let next = (case wl_checkpoint w of
                    Some c \<Rightarrow> if head0 - c < 500000 then c else head0 - wc_backfill cfg
                  | None \<Rightarrow> head0 - wc_backfill cfg) in
      w\<lparr>wl_live_start := next, wl_next := next, wl_concurrency := wc_concurrency cfg, wl_good := 0, wl_failures := 0, wl_last_saved := next,
        wl_wait_ms := 0, wl_v4_caught := (next - 1 \<le> (case wl_v4_scanned w of None \<Rightarrow> - 1 | Some s \<Rightarrow> s))\<rparr>)"

text \<open>
  A window of the walk, which runs beside the loop until it reaches the block before the loop's start; it
  resumes from its checkpoint, and its promise then says that it has caught up.
\<close>

definition walk_step :: "int \<Rightarrow> watch_loop \<Rightarrow> watch_loop" where
  "walk_step till w =
     (let from_block = (case wl_v4_scanned w of None \<Rightarrow> deploy_block | Some s \<Rightarrow> s + 1) in
      if wl_v4_caught w then w
      else if wl_live_start w - 1 < from_block then w\<lparr>wl_v4_caught := True\<rparr>
      else if till < from_block \<or> wl_live_start w - 1 < till then w
      else w\<lparr>wl_v4_scanned := Some till, wl_v4_caught := (till = wl_live_start w - 1), wl_done := wl_done w \<union> {from_block..till}\<rparr>)"

datatype watch_loop_event = Pass int "int \<Rightarrow> block_outcome" | HeadFailed | WalkWindow int | Restart int

fun loop_step :: "watch_cfg \<Rightarrow> watch_loop \<Rightarrow> watch_loop_event \<Rightarrow> watch_loop" where
  "loop_step cfg w (Pass head out) = watch_pass cfg head out w"
| "loop_step cfg w HeadFailed = pass_failed w"
| "loop_step cfg w (WalkWindow till) = walk_step till w"
| "loop_step cfg w (Restart head0) = restart cfg head0 w"

definition fresh_watch :: watch_loop where
  "fresh_watch = \<lparr>wl_live_start = 0, wl_next = 0, wl_concurrency = 1, wl_good = 0, wl_failures = 0, wl_last_saved = 0, wl_wait_ms = 0,
     wl_checkpoint = None, wl_v4_scanned = None, wl_v4_caught = False, wl_done = {}\<rparr>"

text \<open>The first start is a restart with nothing saved.\<close>

definition loop_run :: "watch_cfg \<Rightarrow> int \<Rightarrow> watch_loop_event list \<Rightarrow> watch_loop" where
  "loop_run cfg head0 evs = foldl (loop_step cfg) (restart cfg head0 fresh_watch) evs"

section \<open>Nothing is passed over\<close>

definition covered :: "int \<Rightarrow> int \<Rightarrow> watch_loop \<Rightarrow> bool" where
  "covered lo hi w \<longleftrightarrow> (\<forall>n. lo \<le> n \<and> n < hi \<longrightarrow> n \<in> wl_done w)"

definition loop_inv :: "watch_cfg \<Rightarrow> watch_loop \<Rightarrow> bool" where
  "loop_inv cfg w \<longleftrightarrow>
     wl_live_start w \<le> wl_next w \<and> covered (wl_live_start w) (wl_next w) w \<and>
     (\<forall>s. wl_v4_scanned w = Some s \<longrightarrow> covered deploy_block (s + 1) w) \<and>
     (wl_v4_caught w \<longrightarrow> covered deploy_block (wl_live_start w) w) \<and>
     1 \<le> wl_concurrency w \<and> wl_concurrency w \<le> wc_concurrency cfg \<and> 0 \<le> wl_wait_ms w \<and> wl_wait_ms w \<le> 60000"

lemma covered_trans: "covered a b w \<Longrightarrow> covered b c w \<Longrightarrow> covered a c w"
  unfolding covered_def by (meson not_le)

lemma covered_mono: "covered lo hi w \<Longrightarrow> wl_done w \<subseteq> wl_done w' \<Longrightarrow> lo \<le> lo' \<Longrightarrow> hi' \<le> hi \<Longrightarrow> covered lo' hi' w'"
  by (auto simp: covered_def)

lemma commit_inv:
  assumes "loop_inv cfg w"
  shows "loop_inv cfg (commit_block (wl_next w) w)"
proof -
  have "wl_v4_caught w \<Longrightarrow> covered deploy_block (wl_next w) w"
    using assms covered_trans [of deploy_block "wl_live_start w" w "wl_next w"] by (simp add: loop_inv_def)
  with assms show ?thesis by (auto simp: loop_inv_def commit_block_def covered_def)
qed

lemma failed_inv: "loop_inv cfg w \<Longrightarrow> loop_inv cfg (pass_failed w)"
  by (auto simp: loop_inv_def pass_failed_def covered_def Let_def max_def)

lemma mark_inv: "loop_inv cfg w \<Longrightarrow> loop_inv cfg (mark_done out chunk w)"
  by (auto simp: loop_inv_def mark_done_def covered_def)

lemma good_inv:
  assumes "loop_inv cfg w" "0 \<le> width" "covered (wl_next w) (wl_next w + width) w"
  shows "loop_inv cfg (chunk_good cfg width w)"
proof -
  define w1 where "w1 = w\<lparr>wl_next := wl_next w + width\<rparr>"
  have "covered (wl_live_start w) (wl_next w + width) w" using assms covered_trans by (auto simp: loop_inv_def)
  with assms have "loop_inv cfg w1" by (auto simp: loop_inv_def w1_def covered_def)
  then have "loop_inv cfg (if 25 \<le> wl_next w1 - wl_last_saved w1 then commit_block (wl_next w1) w1 else w1)" (is "loop_inv cfg ?w2")
    by (simp add: commit_inv)
  moreover have "chunk_good cfg width w = (if 20 \<le> wl_good ?w2 + 1 \<and> wl_concurrency ?w2 < wc_concurrency cfg
      then ?w2\<lparr>wl_concurrency := wl_concurrency ?w2 + 1, wl_good := 0\<rparr> else ?w2\<lparr>wl_good := wl_good ?w2 + 1\<rparr>)"
    unfolding chunk_good_def Let_def w1_def ..
  ultimately show ?thesis by (auto simp: loop_inv_def covered_def)
qed

lemma chunks_inv: "loop_inv cfg w \<Longrightarrow> loop_inv cfg (chunks cfg out target w)"
proof (induction cfg out target w rule: chunks.induct)
  case (1 cfg out target w)
  let ?chunk = "chunk_of target w"
  let ?w1 = "mark_done out ?chunk w"
  show ?case
  proof (cases "target < wl_next w \<or> wl_concurrency w < 1")
    case True
    with commit_inv [OF 1(2)] show ?thesis by (subst chunks.simps) (auto simp: loop_inv_def covered_def)
  next
    case False
    show ?thesis
    proof (cases "\<exists>b \<in> set ?chunk. out b = BlockFailed")
      case True
      with False failed_inv [OF mark_inv [OF 1(2)]] show ?thesis by (subst chunks.simps) (simp add: Let_def)
    next
      case ok: False
      have "covered (wl_next ?w1) (wl_next ?w1 + int (length ?chunk)) ?w1"
        using ok False by (auto simp: covered_def mark_done_def chunk_of_def)
      then have "loop_inv cfg (chunk_good cfg (int (length ?chunk)) ?w1)" using mark_inv [OF 1(2)] by (intro good_inv) simp_all
      from "1.IH" [OF False refl refl ok this] False ok show ?thesis by (subst chunks.simps) (simp add: Let_def)
    qed
  qed
qed

lemma walk_step_inv: "loop_inv cfg w \<Longrightarrow> loop_inv cfg (walk_step till w)"
  by (cases "wl_v4_scanned w") (auto simp: loop_inv_def walk_step_def covered_def Let_def)

lemma restart_inv:
  assumes "\<forall>s. wl_v4_scanned w = Some s \<longrightarrow> covered deploy_block (s + 1) w" "1 \<le> wc_concurrency cfg"
  shows "loop_inv cfg (restart cfg head0 w)"
  using assms by (cases "wl_v4_scanned w") (auto simp: loop_inv_def restart_def covered_def Let_def deploy_block_def split: option.splits)

lemma loop_run_inv:
  assumes "1 \<le> wc_concurrency cfg"
  shows "loop_inv cfg (loop_run cfg head0 evs)"
proof (induction evs rule: rev_induct)
  case Nil
  show ?case using restart_inv [of fresh_watch cfg head0] assms by (simp add: loop_run_def fresh_watch_def)
next
  case (snoc ev evs)
  let ?w = "loop_run cfg head0 evs"
  have "loop_inv cfg (loop_step cfg ?w ev)"
  proof (cases ev)
    case (Restart h)
    with snoc restart_inv [OF _ assms] show ?thesis by (simp add: loop_inv_def)
  qed (use snoc chunks_inv walk_step_inv failed_inv in \<open>simp_all add: watch_pass_def\<close>)
  then show ?case by (simp add: loop_run_def)
qed

lemma good_next: "wl_next (chunk_good cfg width w) = wl_next w + width"
  by (simp add: chunk_good_def commit_block_def Let_def)

lemma good_concurrency: "1 \<le> wl_concurrency w \<Longrightarrow> 1 \<le> wl_concurrency (chunk_good cfg width w)"
  by (simp add: chunk_good_def commit_block_def Let_def)

lemma chunks_reach:
  assumes "\<forall>b. out b \<noteq> BlockFailed" "1 \<le> wl_concurrency w"
  shows "wl_next (chunks cfg out target w) = max (wl_next w) (target + 1) \<and>
    wl_checkpoint (chunks cfg out target w) = Some (max (wl_next w) (target + 1)) \<and> wl_failures (chunks cfg out target w) = 0"
  using assms
proof (induction cfg out target w rule: chunks.induct)
  case (1 cfg out target w)
  show ?case
  proof (cases "target < wl_next w")
    case True
    then show ?thesis by (simp add: chunks.simps [of cfg out target w] commit_block_def)
  next
    case False
    let ?w = "chunk_good cfg (int (length (chunk_of target w))) (mark_done out (chunk_of target w) w)"
    have go: "\<not> (target < wl_next w \<or> wl_concurrency w < 1)" "\<not> (\<exists>b \<in> set (chunk_of target w). out b = BlockFailed)" using False 1(2,3) by auto
    have step: "chunks cfg out target w = chunks cfg out target ?w" using go by (subst chunks.simps) (simp add: Let_def)
    have "1 \<le> wl_concurrency ?w" using 1(3) by (intro good_concurrency) (simp add: mark_done_def)
    from "1.IH" [OF go(1) refl refl go(2) 1(2) this]
    have "wl_next (chunks cfg out target ?w) = max (wl_next ?w) (target + 1) \<and> wl_checkpoint (chunks cfg out target ?w) = Some (max (wl_next ?w) (target + 1)) \<and>
      wl_failures (chunks cfg out target ?w) = 0" .
    moreover have "wl_next ?w \<le> target + 1" "wl_next w \<le> target + 1" using False 1(3) by (auto simp: good_next mark_done_def chunk_of_def)
    ultimately show ?thesis unfolding step by simp
  qed
qed


definition demo_watch_cfg :: watch_cfg where
  "demo_watch_cfg = \<lparr>wc_concurrency = 2, wc_max_batch = 3, wc_backfill = 5\<rparr>"

definition demo_loop :: watch_loop where
  "demo_loop = loop_run demo_watch_cfg 9080 [HeadFailed, WalkWindow 9072, WalkWindow 9074, Pass 9090 (\<lambda>b. if b = 9077 then BlockFailed else Indexed), Pass 9090 (\<lambda>b. Indexed)]"


text \<open>
  A block the node does not have yet, although its head says so, counts as processed: the loop goes on, and
  the block is never asked for again.
\<close>

lemma absent_block_passed:
  "wl_next (watch_pass demo_watch_cfg 9075 (\<lambda>b. Absent) (loop_run demo_watch_cfg 9080 [])) = 9076"
  by code_simp

end
