(* ===== verification/Detect.thy ===== *)
theory Detect
  imports Chain Hints HexWords
begin

text \<open>
  The watcher's arbitrage detection (\<open>apps/watcher/src/detect.ts\<close>): which pools a transaction's swaps
  touched, what its sender and the contract it called are left with, and whether that is a closed loop.
\<close>

section \<open>Receipts\<close>

datatype num_text = AsNumber int | AsText string

record det_log =
  dl_address :: string
  dl_topics :: "string list"
  dl_data :: string

record det_receipt =
  dr_tx :: string
  dr_index :: num_text
  dr_from :: string
  dr_to :: "string option"
  dr_gas_used :: string
  dr_gas_price :: "string option"
  dr_status :: num_text
  dr_logs :: "det_log list"

text \<open>\<^const>\<open>None\<close> is \<open>NaN\<close>.\<close>

fun to_num :: "num_text \<Rightarrow> int option" where
  "to_num (AsNumber n) = Some n"
| "to_num (AsText s) = parse_int16 s"

definition log_topic :: "nat \<Rightarrow> det_log \<Rightarrow> string option" where
  "log_topic i lg = (if i < length (dl_topics lg) then Some (dl_topics lg ! i) else None)"

definition lower_topic0 :: "det_log \<Rightarrow> string" where
  "lower_topic0 lg = (case log_topic 0 lg of None \<Rightarrow> [] | Some t \<Rightarrow> lower t)"

definition topic_to_address :: "string \<Rightarrow> string" where
  "topic_to_address t = lower (''0x'' @ drop 26 t)"

definition pool_of :: "det_log \<Rightarrow> swap_kind \<Rightarrow> string" where
  "pool_of lg kind =
     (case (kind, log_topic 1 lg) of
        (Univ4, Some t) \<Rightarrow> if length t = 66 then lower t else lower (dl_address lg)
      | _ \<Rightarrow> lower (dl_address lg))"

definition swap_of :: "det_log \<Rightarrow> (string \<times> swap_kind) option" where
  "swap_of lg = map_option (\<lambda>kind. (pool_of lg kind, kind)) (swap_topics (lower_topic0 lg))"

definition swaps_in :: "det_receipt \<Rightarrow> (string \<times> swap_kind) list" where
  "swaps_in r = concat (map (\<lambda>lg. case swap_of lg of None \<Rightarrow> [] | Some s \<Rightarrow> [s]) (dr_logs r))"

definition pools_touched :: "det_receipt \<Rightarrow> string list" where
  "pools_touched r = js_set (map fst (swaps_in r))"

section \<open>Net flows\<close>

definition beneficiaries :: "det_receipt \<Rightarrow> string list" where
  "beneficiaries r =
     lower (dr_from r) # (case dr_to r of None \<Rightarrow> [] | Some t \<Rightarrow> if t = [] then [] else [lower t])"

text \<open>The transfer of a log: token, from, to and amount; a log that is none, or cannot be read, is skipped.\<close>

definition transfer_of :: "det_log \<Rightarrow> (string \<times> string \<times> string \<times> int) option" where
  "transfer_of lg =
     (if lower_topic0 lg \<noteq> transfer_topic \<or> length (dl_topics lg) < 3 then None
      else map_option (\<lambda>n. (lower (dl_address lg), topic_to_address (dl_topics lg ! 1), topic_to_address (dl_topics lg ! 2), n))
             (if dl_data lg = ''0x'' then Some 0 else big_int (dl_data lg)))"

type_synonym flows = "(string \<times> int) list"

definition add_flow :: "string \<Rightarrow> int \<Rightarrow> flows \<Rightarrow> flows" where
  "add_flow token n net = jset token (jget_or 0 net token + n) net"

definition count_log :: "string list \<Rightarrow> flows \<Rightarrow> det_log \<Rightarrow> flows" where
  "count_log who net lg =
     (case transfer_of lg of
        None \<Rightarrow> net
      | Some (token, src, dst, n) \<Rightarrow>
          (let net1 = (if dst \<in> set who then add_flow token n net else net) in
           if src \<in> set who then add_flow token (- n) net1 else net1))"

definition net_flows :: "(string \<times> int) list \<Rightarrow> det_receipt \<Rightarrow> flows" where
  "net_flows tx_values r =
     (let net = foldl (count_log (beneficiaries r)) [] (dr_logs r);
          spent = jget_or 0 tx_values (lower (dr_tx r)) in
      if 0 < spent then add_flow weth (- spent) net else net)"

definition sold_something :: "flows \<Rightarrow> bool" where
  "sold_something net = (\<exists>v \<in> set (map snd net). v < 0)"

section \<open>Arbitrages\<close>

definition best_step :: "(string option \<times> int) \<Rightarrow> string \<times> int \<Rightarrow> string option \<times> int" where
  "best_step best tv =
     (if is_quote_token (fst tv) \<and> snd best < snd tv then (Some (fst tv), snd tv) else best)"

definition best_quote :: "flows \<Rightarrow> string option \<times> int" where
  "best_quote net = (if sold_something net then (None, 0) else foldl best_step (None, 0) net)"

definition sender_positive :: "flows \<Rightarrow> flows" where
  "sender_positive net = js_sort (cmp_desc snd) (filter (\<lambda>tv. 0 < snd tv) net)"

record swap_seen =
  ss_block :: int
  ss_time :: int
  ss_tx :: string
  ss_index :: "int option"
  ss_pool :: string
  ss_kind :: swap_kind

record arb_seen =
  as_block :: int
  as_time :: int
  as_tx :: string
  as_index :: "int option"
  as_sender :: string
  as_pools :: "string list"
  as_flows :: flows
  as_profit_token :: string
  as_profit :: int
  as_is_quote :: bool
  as_gas_paid :: int

text \<open>The profit that is booked: in a quote asset where there is one, else in the token held most of.\<close>

definition booked :: "flows \<Rightarrow> (string \<times> int \<times> bool) option" where
  "booked net =
     (case best_quote net of
        (Some token, n) \<Rightarrow> if 0 < n then Some (token, n, True) else None
      | (None, n) \<Rightarrow>
          (if sold_something net then None
           else case sender_positive net of [] \<Rightarrow> None | (token, v) # rest \<Rightarrow> Some (token, v, False)))"

text \<open>\<^const>\<open>None\<close> where a gas figure cannot be read and the analysis of the block throws.\<close>

definition arb_of :: "int \<Rightarrow> int \<Rightarrow> (string \<times> int) list \<Rightarrow> det_receipt \<Rightarrow> arb_seen option option" where
  "arb_of block time tx_values r =
     (if length (pools_touched r) < 2 then Some None
      else let net = net_flows tx_values r in
      case booked net of
        None \<Rightarrow> Some None
      | Some (token, profit, is_quote) \<Rightarrow>
          Option.bind (big_int (dr_gas_used r)) (\<lambda>used.
          Option.bind (big_int (case dr_gas_price r of None \<Rightarrow> ''0x0'' | Some p \<Rightarrow> p)) (\<lambda>price.
            Some (Some \<lparr>as_block = block, as_time = time, as_tx = dr_tx r, as_index = to_num (dr_index r), as_sender = lower (dr_from r),
              as_pools = pools_touched r, as_flows = net, as_profit_token = token, as_profit = profit, as_is_quote = is_quote,
              as_gas_paid = used * price\<rparr>))))"

definition succeeded :: "det_receipt \<Rightarrow> bool" where
  "succeeded r = (to_num (dr_status r) = Some 1)"

fun analyze_block :: "int \<Rightarrow> int \<Rightarrow> (string \<times> int) list \<Rightarrow> det_receipt list \<Rightarrow> (swap_seen list \<times> arb_seen list) option" where
  "analyze_block block time tx_values [] = Some ([], [])"
| "analyze_block block time tx_values (r # rs) =
     (if \<not> succeeded r then analyze_block block time tx_values rs
      else case arb_of block time tx_values r of
        None \<Rightarrow> None
      | Some a \<Rightarrow>
          map_option (\<lambda>(swaps, arbs).
              (map (\<lambda>(pool, kind). \<lparr>ss_block = block, ss_time = time, ss_tx = dr_tx r, ss_index = to_num (dr_index r), ss_pool = pool, ss_kind = kind\<rparr>)
                 (swaps_in r) @ swaps,
               (case a of None \<Rightarrow> [] | Some x \<Rightarrow> [x]) @ arbs))
            (analyze_block block time tx_values rs))"

section \<open>What the flows are\<close>

text \<open>The reference: everything the two received of a token, less everything they sent, and the ether sent along.\<close>

definition received :: "string list \<Rightarrow> string \<Rightarrow> det_log \<Rightarrow> int" where
  "received who token lg =
     (case transfer_of lg of
        Some (t, src, dst, n) \<Rightarrow> if t = token then of_bool (dst \<in> set who) * n - of_bool (src \<in> set who) * n else 0
      | None \<Rightarrow> 0)"

definition net_of :: "(string \<times> int) list \<Rightarrow> det_receipt \<Rightarrow> string \<Rightarrow> int" where
  "net_of tx_values r token =
     (\<Sum>lg\<leftarrow>dr_logs r. received (beneficiaries r) token lg) -
     (if token = weth then max 0 (jget_or 0 tx_values (lower (dr_tx r))) else 0)"

lemma add_flow_get [simp]: "jget_or 0 (add_flow t n net) token = jget_or 0 net token + (if token = t then n else 0)"
  by (simp add: add_flow_def)

lemma count_log_get: "jget_or 0 (count_log who net lg) token = jget_or 0 net token + received who token lg"
  by (auto simp: count_log_def received_def Let_def split: option.splits)

lemma fold_count_get: "jget_or 0 (foldl (count_log who) net lgs) token = jget_or 0 net token + (\<Sum>lg\<leftarrow>lgs. received who token lg)"
  by (induction lgs arbitrary: net) (simp_all add: count_log_get)

lemma net_flows_get: "jget_or 0 (net_flows tx_values r) token = net_of tx_values r token"
  by (simp add: net_flows_def net_of_def Let_def fold_count_get) (simp add: jget_or_def)

lemma net_flows_wf: "jwf (net_flows tx_values r)"
proof -
  have step: "jwf (count_log who net lg)" if "jwf net" for who net lg
    using that by (auto simp: count_log_def add_flow_def Let_def split: option.splits)
  have "jwf (foldl (count_log who) net lgs)" if "jwf net" for who net lgs
    using that by (induction lgs arbitrary: net) (simp_all add: step)
  then have "jwf (foldl (count_log (beneficiaries r)) [] (dr_logs r))" by simp
  then show ?thesis by (simp add: net_flows_def add_flow_def Let_def)
qed

lemma flow_member: "jwf net \<Longrightarrow> (t, v) \<in> set net \<Longrightarrow> jget_or 0 net t = v"
  by (simp add: jget_or_def)

lemma flow_nonzero: "jget_or 0 net t \<noteq> 0 \<Longrightarrow> (t, jget_or 0 net t) \<in> set net"
  by (auto simp: jget_or_def split: option.splits intro: map_of_SomeD)

lemma sold_iff:
  assumes "jwf net"
  shows "sold_something net \<longleftrightarrow> (\<exists>t. jget_or 0 net t < 0)"
proof
  assume "sold_something net"
  then obtain tv where tv: "tv \<in> set net" "snd tv < 0" unfolding sold_something_def by (metis (no_types) imageE set_map)
  have "jget_or 0 net (fst tv) = snd tv" using tv(1) by (intro flow_member [OF assms]) simp
  with tv(2) have "jget_or 0 net (fst tv) < 0" by simp
  then show "\<exists>t. jget_or 0 net t < 0" by (rule exI)
next
  assume "\<exists>t. jget_or 0 net t < 0"
  then obtain t where t: "jget_or 0 net t < 0" by (rule exE)
  then have "(t, jget_or 0 net t) \<in> set net" by (intro flow_nonzero) simp
  then have "jget_or 0 net t \<in> set (map snd net)" by (simp only: set_map) (rule image_eqI, simp_all)
  with t show "sold_something net" unfolding sold_something_def by (rule bexI)
qed

section \<open>What is booked\<close>

lemma best_fold:
  assumes "foldl best_step (b0, n0) net = (b, n)"
  shows "n0 \<le> n \<and> (\<forall>(t, v) \<in> set net. is_quote_token t \<longrightarrow> v \<le> n) \<and>
    ((b, n) = (b0, n0) \<or> (\<exists>t. b = Some t \<and> (t, n) \<in> set net \<and> is_quote_token t \<and> n0 < n))"
  using assms
proof (induction net arbitrary: b0 n0)
  case (Cons tv net)
  obtain t v where tv: "tv = (t, v)" by force
  obtain b1 n1 where s: "best_step (b0, n0) tv = (b1, n1)" by force
  have "n0 \<le> n1 \<and> (is_quote_token t \<longrightarrow> v \<le> n1) \<and> ((b1, n1) = (b0, n0) \<or> (b1 = Some t \<and> n1 = v \<and> is_quote_token t \<and> n0 < n1))"
    using s by (auto simp: best_step_def tv split: if_splits)
  with Cons.IH [of b1 n1] Cons.prems s show ?case by (auto simp: tv)
qed simp

lemma positive_head:
  assumes "sender_positive net = (t, v) # rest"
  shows "(t, v) \<in> set net \<and> 0 < v \<and> (\<forall>(t', v') \<in> set net. v' \<le> v)"
proof -
  have m: "set (sender_positive net) = {tv \<in> set net. 0 < snd tv}" by (simp add: sender_positive_def)
  have "desc_by snd (sender_positive net)" by (simp add: sender_positive_def)
  then have le: "snd tv \<le> v" if "tv \<in> set rest" for tv using that by (simp add: assms)
  have hd: "(t, v) \<in> set net \<and> 0 < v" using eqset_imp_iff [OF m, of "(t, v)"] by (simp add: assms)
  have "snd tv \<le> v" if i: "tv \<in> set net" for tv
  proof (cases "0 < snd tv")
    case True
    with i have "tv \<in> set (sender_positive net)" by (simp add: m)
    then have "tv = (t, v) \<or> tv \<in> set rest" by (simp add: assms)
    then show ?thesis using le [of tv] by (elim disjE) simp_all
  qed (use hd in simp)
  with hd show ?thesis by (simp add: split_beta)
qed

definition booked_ok :: "(string \<Rightarrow> int) \<Rightarrow> string \<Rightarrow> int \<Rightarrow> bool \<Rightarrow> bool" where
  "booked_ok net token profit is_quote \<longleftrightarrow>
     net token = profit \<and> 0 < profit \<and> (is_quote \<longleftrightarrow> (\<exists>t. is_quote_token t \<and> 0 < net t)) \<and>
     (\<forall>t. (is_quote \<longrightarrow> is_quote_token t) \<longrightarrow> net t \<le> profit) \<and> (is_quote \<longrightarrow> is_quote_token token)"

lemma booked_facts:
  assumes "jwf net"
  shows "(booked net \<noteq> None \<longleftrightarrow> (\<forall>t. 0 \<le> jget_or 0 net t) \<and> (\<exists>t. 0 < jget_or 0 net t)) \<and>
    (\<forall>token profit q. booked net = Some (token, profit, q) \<longrightarrow> booked_ok (jget_or 0 net) token profit q)"
proof (cases "sold_something net")
  case True
  then have "booked net = None" by (simp add: booked_def best_quote_def)
  with True sold_iff [OF assms] show ?thesis by (auto simp: not_le)
next
  case False
  obtain b n where bq: "foldl best_step (None, 0) net = (b, n)" by force
  note f = best_fold [OF bq]
  have le: "jget_or 0 net t \<le> n" if "is_quote_token t" for t
  proof (cases "jget_or 0 net t = 0")
    case nz: False
    from f flow_nonzero [OF nz] that show ?thesis by blast
  qed (use f in simp)
  have nn: "\<forall>t. 0 \<le> jget_or 0 net t" using False sold_iff [OF assms] by (simp add: not_less)
  show ?thesis
  proof (cases b)
    case (Some t)
    with f have t: "(t, n) \<in> set net" "is_quote_token t" "0 < n" by auto
    have "booked net = Some (t, n, True)" using False bq Some t(3) by (simp add: booked_def best_quote_def)
    moreover have "jget_or 0 net t = n" by (rule flow_member [OF assms t(1)])
    ultimately show ?thesis using t nn le by (auto simp: booked_ok_def)
  next
    case None
    with f have n: "n = 0" by auto
    with le nn have noq: "\<not> (\<exists>t. is_quote_token t \<and> 0 < jget_or 0 net t)" by (metis not_le)
    show ?thesis
    proof (cases "sender_positive net")
      case Nil
      then have "booked net = None" using False bq None by (simp add: booked_def best_quote_def)
      moreover have "\<not> 0 < jget_or 0 net t" for t
      proof
        assume "0 < jget_or 0 net t"
        then have "(t, jget_or 0 net t) \<in> set (sender_positive net)" using flow_nonzero [of net t] by (simp add: sender_positive_def)
        with Nil show False by simp
      qed
      ultimately show ?thesis by auto
    next
      case (Cons tv rest)
      obtain t v where tv: "tv = (t, v)" by force
      note h = positive_head [OF Cons [unfolded tv]]
      have "booked net = Some (t, v, False)" using False bq None Cons tv by (simp add: booked_def best_quote_def)
      moreover have "jget_or 0 net t = v" using h flow_member [OF assms] by blast
      moreover have "jget_or 0 net t' \<le> v" for t'
        using h flow_nonzero [of net t'] by (cases "jget_or 0 net t' = 0") auto
      ultimately show ?thesis using h nn noq by (auto simp: booked_ok_def)
    qed
  qed
qed

section \<open>Blocks\<close>

definition closed_loop :: "(string \<times> int) list \<Rightarrow> det_receipt \<Rightarrow> bool" where
  "closed_loop tx_values r \<longleftrightarrow> succeeded r \<and> 2 \<le> length (pools_touched r) \<and>
     (\<forall>token. 0 \<le> net_of tx_values r token) \<and> (\<exists>token. 0 < net_of tx_values r token)"

definition arb_ok :: "(string \<times> int) list \<Rightarrow> arb_seen \<Rightarrow> det_receipt \<Rightarrow> bool" where
  "arb_ok tx_values a r \<longleftrightarrow> as_tx a = dr_tx r \<and> as_sender a = lower (dr_from r) \<and> as_pools a = pools_touched r \<and>
     booked_ok (net_of tx_values r) (as_profit_token a) (as_profit a) (as_is_quote a)"

lemma arb_of_some:
  assumes "arb_of block time tx_values r = Some a" and "succeeded r"
  shows "(case a of None \<Rightarrow> \<not> closed_loop tx_values r | Some x \<Rightarrow> closed_loop tx_values r \<and> arb_ok tx_values x r)"
proof -
  let ?net = "net_flows tx_values r"
  note f = booked_facts [OF net_flows_wf [of tx_values r], unfolded net_flows_get]
  have ok: "booked_ok (net_of tx_values r) t n q" if "booked ?net = Some (t, n, q)" for t n q
    using f that by simp
  have loop: "closed_loop tx_values r \<longleftrightarrow> 2 \<le> length (pools_touched r) \<and> booked ?net \<noteq> None"
    using conjunct1 [OF f] by (simp only: closed_loop_def assms(2) simp_thms)
  show ?thesis
  proof (cases "length (pools_touched r) < 2")
    case True
    then have "a = None" using assms(1) by (simp add: arb_of_def)
    with True loop show ?thesis by simp
  next
    case many: False
    show ?thesis
    proof (cases "booked ?net")
      case None
      then have "a = None" using assms(1) many by (simp add: arb_of_def Let_def)
      with None loop show ?thesis by simp
    next
      case (Some b)
      obtain t n q where b: "b = (t, n, q)" by (cases b)
      obtain x where "a = Some x" "as_tx x = dr_tx r" "as_sender x = lower (dr_from r)" "as_pools x = pools_touched r" "as_profit_token x = t" "as_profit x = n" "as_is_quote x = q"
        using assms(1) many Some b by (auto simp add: arb_of_def Let_def bind_eq_Some_conv simp del: One_nat_def)
      then show ?thesis using loop Some b many ok by (simp add: arb_ok_def)
    qed
  qed
qed

lemma analyze_cons:
  assumes "analyze_block block time tx_values (r # rs) = Some (swaps, arbs)" and "succeeded r"
  obtains a swaps' arbs' where "arb_of block time tx_values r = Some a" and "analyze_block block time tx_values rs = Some (swaps', arbs')"
    and "arbs = (case a of None \<Rightarrow> [] | Some x \<Rightarrow> [x]) @ arbs'" and "map ss_pool swaps = map fst (swaps_in r) @ map ss_pool swaps'"
proof -
  obtain a where a: "arb_of block time tx_values r = Some a" using assms by (cases "arb_of block time tx_values r") simp_all
  obtain res where res: "analyze_block block time tx_values rs = Some res"
    using assms a by (cases "analyze_block block time tx_values rs") simp_all
  obtain swaps' arbs' where p: "res = (swaps', arbs')" by (cases res)
  show ?thesis
    by (rule that [OF a res [unfolded p]]) (use assms a res p in \<open>auto simp add: split_beta comp_def\<close>)
qed

text \<open>The arbitrages one by one: each is that of a receipt which succeeded.\<close>

lemma analyze_arbs:
  "analyze_block block time tx_values rs = Some (swaps, arbs) \<Longrightarrow>
   set arbs = {a. \<exists>r \<in> set rs. succeeded r \<and> arb_of block time tx_values r = Some (Some a)} \<and>
   (\<forall>r \<in> set rs. succeeded r \<longrightarrow> arb_of block time tx_values r \<noteq> None)"
proof (induction rs arbitrary: swaps arbs)
  case (Cons r rs)
  show ?case
  proof (cases "succeeded r")
    case True
    obtain a swaps' arbs' where a: "arb_of block time tx_values r = Some a" and rest: "analyze_block block time tx_values rs = Some (swaps', arbs')"
      and eq: "arbs = (case a of None \<Rightarrow> [] | Some x \<Rightarrow> [x]) @ arbs'"
      by (rule analyze_cons [OF Cons.prems True])
    from Cons.IH [OF rest] a True show ?thesis by (cases a) (simp_all add: eq, blast)
  qed (use Cons in simp)
qed simp

text \<open>C11: A block's arbitrages are the transactions that succeeded, touched two pools or more, leave their
  sender and the contract it called down on nothing and up on something, each once and in order; what is
  booked for one is a token's whole net gain, a quote token's where any quote token was gained, and no token
  of that sort was gained more of. Its swaps are the swap logs of the transactions that succeeded.\<close>

theorem arbs_are_closed_loops:
  assumes "analyze_block block time tx_values rs = Some (swaps, arbs)"
  shows "list_all2 (arb_ok tx_values) arbs (filter (closed_loop tx_values) rs) \<and>
    map ss_pool swaps = concat (map (map fst \<circ> swaps_in) (filter succeeded rs))"
  using assms
proof (induction rs arbitrary: swaps arbs)
  case (Cons r rs)
  show ?case
  proof (cases "succeeded r")
    case False
    then have "\<not> closed_loop tx_values r" by (simp add: closed_loop_def)
    with False Cons show ?thesis by simp
  next
    case True
    obtain a swaps' arbs' where a: "arb_of block time tx_values r = Some a" and rest: "analyze_block block time tx_values rs = Some (swaps', arbs')"
      and eq: "arbs = (case a of None \<Rightarrow> [] | Some x \<Rightarrow> [x]) @ arbs'" "map ss_pool swaps = map fst (swaps_in r) @ map ss_pool swaps'"
      by (rule analyze_cons [OF Cons.prems True])
    from arb_of_some [OF a True] Cons.IH [OF rest] show ?thesis
      by (cases a) (simp_all add: eq True)
  qed
qed simp

definition demo_searcher :: string where
  "demo_searcher = ''0x'' @ replicate 40 (CHR ''a'')"

definition demo_transfer :: "string \<Rightarrow> string \<Rightarrow> string \<Rightarrow> det_log" where
  "demo_transfer src dst data =
     \<lparr>dl_address = usdg, dl_topics = [transfer_topic, replicate 26 (CHR ''0'') @ drop 2 src, replicate 26 (CHR ''0'') @ drop 2 dst], dl_data = data\<rparr>"

definition demo_det_swap :: "string \<Rightarrow> det_log" where
  "demo_det_swap pool = \<lparr>dl_address = pool, dl_topics = [''0xc42079f94a6350d7e6235f29174924f928cc2ac818eb64fed8004e115fbcca67''], dl_data = ''0x''\<rparr>"

definition demo_arb_receipt :: "string \<Rightarrow> string \<Rightarrow> det_receipt" where
  "demo_arb_receipt tx status =
     \<lparr>dr_tx = tx, dr_index = AsNumber 1, dr_from = demo_searcher, dr_to = Some ''0xB'', dr_gas_used = ''0x2'', dr_gas_price = None,
      dr_status = AsText status,
      dr_logs = [demo_det_swap ''0xP1'', demo_transfer demo_searcher ''0xc'' ''0x10'', demo_det_swap ''0xp2'', demo_transfer ''0xc'' demo_searcher ''0x1a'']\<rparr>"

lemma arbs_are_closed_loops_witness:
  "analyze_block 7 0 [] [demo_arb_receipt ''0xf'' ''0x0'', demo_arb_receipt ''0xe'' ''0x1''] =
     Some ([\<lparr>ss_block = 7, ss_time = 0, ss_tx = ''0xe'', ss_index = Some 1, ss_pool = ''0xp1'', ss_kind = Univ3\<rparr>,
            \<lparr>ss_block = 7, ss_time = 0, ss_tx = ''0xe'', ss_index = Some 1, ss_pool = ''0xp2'', ss_kind = Univ3\<rparr>],
           [\<lparr>as_block = 7, as_time = 0, as_tx = ''0xe'', as_index = Some 1, as_sender = demo_searcher, as_pools = [''0xp1'', ''0xp2''],
             as_flows = [(usdg, 10)], as_profit_token = usdg, as_profit = 10, as_is_quote = True, as_gas_paid = 0\<rparr>]) \<and>
   length (filter (closed_loop []) [demo_arb_receipt ''0xf'' ''0x0'', demo_arb_receipt ''0xe'' ''0x1'']) = 1" (is "?run = Some (?s, ?a) \<and> _")
proof -
  have run: "?run = Some (?s, ?a)" by code_simp
  from arbs_are_closed_loops [OF run] have "length ?a = length (filter (closed_loop []) [demo_arb_receipt ''0xf'' ''0x0'', demo_arb_receipt ''0xe'' ''0x1''])"
    by (elim conjE) (rule list_all2_lengthD)
  then have one: "length (filter (closed_loop []) [demo_arb_receipt ''0xf'' ''0x0'', demo_arb_receipt ''0xe'' ''0x1'']) = 1"
    by (simp only: list.size add_0 One_nat_def)
  show ?thesis by (rule conjI [OF run one])
qed

end
