(* ===== verification/ArbIndex.thy ===== *)
theory ArbIndex
  imports Tables Detect
begin

text \<open>
  The index the watcher fills (\<open>packages/store/src/index.ts\<close>): arbitrages and the pools they touched, the
  counter of swaps, settlements, and the figures that are read back. A table is a map from its primary key
  to the row.
\<close>

section \<open>Rows and tables\<close>

record arb_row =
  rw_tx :: string
  rw_block :: int
  rw_ts :: int
  rw_sender :: string
  rw_pools :: "string list"
  rw_token :: "string option"
  rw_wei :: "string option"
  rw_quote :: bool
  rw_gas :: "string option"

record settlement_row =
  sr_id :: string
  sr_searcher :: string
  sr_charge :: string
  sr_user :: string
  sr_app :: string
  sr_tx :: "string option"
  sr_created :: int

record arb_index =
  ix_arbs :: "(string \<times> arb_row) list"
  ix_arb_pools :: "((string \<times> string) \<times> unit) list"
  ix_settlements :: "(string \<times> settlement_row) list"
  ix_meta :: "(string \<times> string) list"

definition empty_index :: arb_index where
  "empty_index = \<lparr>ix_arbs = [], ix_arb_pools = [], ix_settlements = [], ix_meta = []\<rparr>"

definition insert_arb :: "arb_index \<Rightarrow> arb_row \<Rightarrow> arb_index" where
  "insert_arb ix r =
     ix\<lparr>ix_arbs := insert_ignore rw_tx (\<lambda>r. r) (ix_arbs ix) r,
        ix_arb_pools := foldl (insert_ignore (Pair (rw_tx r)) (\<lambda>p. ())) (ix_arb_pools ix) (rw_pools r)\<rparr>"

definition insert_arbs :: "arb_row list \<Rightarrow> arb_index \<Rightarrow> arb_index" where
  "insert_arbs rows ix = foldl insert_arb ix rows"

definition insert_settlement :: "settlement_row \<Rightarrow> arb_index \<Rightarrow> arb_index" where
  "insert_settlement r ix = ix\<lparr>ix_settlements := jset (sr_id r) r (ix_settlements ix)\<rparr>"

definition clear_measurements :: "arb_index \<Rightarrow> arb_index" where
  "clear_measurements ix = ix\<lparr>ix_arb_pools := [], ix_arbs := [], ix_meta := jdel ''swaps'' (ix_meta ix)\<rparr>"

section \<open>Counters\<close>

definition set_meta :: "string \<Rightarrow> string \<Rightarrow> arb_index \<Rightarrow> arb_index" where
  "set_meta k v ix = ix\<lparr>ix_meta := jset k v (ix_meta ix)\<rparr>"

definition get_meta :: "arb_index \<Rightarrow> string \<Rightarrow> string option" where
  "get_meta ix k = jget (ix_meta ix) k"

text \<open>
  \<open>CAST(x AS INTEGER)\<close> reads the longest prefix that is a number, 0 where there is none, and stops at the
  ends of the 64-bit range.
\<close>

definition int64_max :: int where "int64_max = 2 ^ 63 - 1"

definition clamp64 :: "int \<Rightarrow> int" where
  "clamp64 n = max (- int64_max - 1) (min int64_max n)"

definition digit_prefix :: "string \<Rightarrow> int" where
  "digit_prefix s = num_val 10 0 (takeWhile (digit_ok 10) s)"

definition cast_int :: "string \<Rightarrow> int" where
  "cast_int s =
     clamp64 (let t = dropWhile is_space s in
       if starts_with ''-'' t then - digit_prefix (tl t)
       else if starts_with ''+'' t then digit_prefix (tl t)
       else digit_prefix t)"

definition add_swaps :: "int \<Rightarrow> arb_index \<Rightarrow> arb_index" where
  "add_swaps n ix =
     (if n \<le> 0 then ix
      else set_meta ''swaps'' (case get_meta ix ''swaps'' of None \<Rightarrow> to_str n | Some v \<Rightarrow> to_str (cast_int v + n)) ix)"

text \<open>\<open>Number(text)\<close>; the text is one that \<open>addSwaps\<close> wrote.\<close>

definition swap_count :: "arb_index \<Rightarrow> int option" where
  "swap_count ix = (case get_meta ix ''swaps'' of None \<Rightarrow> Some 0 | Some v \<Rightarrow> big_int v)"

section \<open>What settlements add up to\<close>

text \<open>
  \<open>SUM\<close> over integers fails once it leaves the 64-bit range, and the driver refuses to hand out an integer
  no double can hold; either throws.
\<close>

fun sum_int64 :: "int \<Rightarrow> int list \<Rightarrow> int option" where
  "sum_int64 acc [] = Some acc"
| "sum_int64 acc (n # ns) = (if clamp64 (acc + n) = acc + n then sum_int64 (acc + n) ns else None)"

definition max_safe :: int where "max_safe = 2 ^ 53 - 1"

definition js_int :: "int \<Rightarrow> int option" where
  "js_int n = (if \<bar>n\<bar> \<le> max_safe then Some n else None)"

definition charges :: "(settlement_row \<Rightarrow> bool) \<Rightarrow> arb_index \<Rightarrow> int list" where
  "charges P ix = map (cast_int \<circ> sr_charge) (filter P (map snd (ix_settlements ix)))"

definition count_and_sum :: "int list \<Rightarrow> (int \<times> int) option" where
  "count_and_sum ns = Option.bind (sum_int64 0 ns) (\<lambda>s. map_option (Pair (int (length ns))) (js_int s))"

definition settlement_totals :: "arb_index \<Rightarrow> (int \<times> int) option" where
  "settlement_totals ix = count_and_sum (charges (\<lambda>r. sr_tx r \<noteq> None) ix)"

definition app_earnings :: "string \<Rightarrow> arb_index \<Rightarrow> (int \<times> int) option" where
  "app_earnings app ix = count_and_sum (charges (\<lambda>r. sr_app r = lower app) ix)"

section \<open>What arbitrages add up to\<close>

definition arb_rows :: "arb_index \<Rightarrow> arb_row list" where
  "arb_rows ix = map snd (ix_arbs ix)"

definition in_pools :: "arb_index \<Rightarrow> string list \<Rightarrow> string \<Rightarrow> bool" where
  "in_pools ix pools tx = (\<exists>((t, p), u) \<in> set (ix_arb_pools ix). t = tx \<and> lower p \<in> set pools)"

text \<open>The rows of a query: those touching one of the pools, or all of them where none is given.\<close>

definition leak_rows :: "arb_index \<Rightarrow> string list \<Rightarrow> arb_row list" where
  "leak_rows ix pools =
     (let lowered = map lower pools in
      if lowered = [] then arb_rows ix else filter (\<lambda>r. in_pools ix lowered (rw_tx r)) (arb_rows ix))"

definition add_profit :: "(string \<times> int \<times> int) list \<Rightarrow> string \<Rightarrow> int \<Rightarrow> (string \<times> int \<times> int) list" where
  "add_profit acc t w = (case jget_or (0, 0) acc (lower t) of (wei, n) \<Rightarrow> jset (lower t) (wei + w, n + 1) acc)"

fun profit_loop :: "(string \<times> int \<times> int) list \<Rightarrow> arb_row list \<Rightarrow> (string \<times> int \<times> int) list option" where
  "profit_loop acc [] = Some acc"
| "profit_loop acc (r # rs) =
     (case (rw_token r, rw_wei r) of
        (Some t, Some w) \<Rightarrow>
          if t = [] \<or> w = [] then profit_loop acc rs
          else Option.bind (big_int w) (\<lambda>n. profit_loop (add_profit acc t n) rs)
      | _ \<Rightarrow> profit_loop acc rs)"

definition profit_by_token :: "arb_row list \<Rightarrow> (string \<times> int \<times> int) list option" where
  "profit_by_token rows =
     map_option (js_sort (\<lambda>(t, w, n) (t', w', n'). n' - n)) (profit_loop [] (filter rw_quote rows))"

record leakage =
  lk_arbs :: nat
  lk_searchers :: nat
  lk_priced :: nat
  lk_profit :: "(string \<times> int \<times> int) list"
  lk_first :: "int option"
  lk_last :: "int option"

definition pool_leakage :: "arb_index \<Rightarrow> string list \<Rightarrow> leakage option" where
  "pool_leakage ix pools =
     (let rows = leak_rows ix pools; blocks = map rw_block rows in
      map_option (\<lambda>acc.
        \<lparr>lk_arbs = length rows, lk_searchers = card (set (map rw_sender rows)), lk_priced = length (filter rw_quote rows), lk_profit = acc,
         lk_first = (if blocks = [] then None else Some (Min (set blocks))), lk_last = (if blocks = [] then None else Some (Max (set blocks)))\<rparr>)
        (profit_by_token rows))"

definition priced_profit :: "arb_index \<Rightarrow> int \<Rightarrow> (nat \<times> nat \<times> (string \<times> int \<times> int) list) option" where
  "priced_profit ix since =
     (let rows = filter (\<lambda>r. since \<le> rw_ts r) (arb_rows ix) in
      map_option (\<lambda>acc. (length rows, length (filter rw_quote rows), acc)) (profit_by_token rows))"

definition active_searchers :: "arb_index \<Rightarrow> int \<Rightarrow> nat" where
  "active_searchers ix since = card (set (map rw_sender (filter (\<lambda>r. since \<le> rw_ts r) (arb_rows ix))))"

section \<open>Each arbitrage is counted once\<close>

interpretation arb_table: insert_or_ignore "insert_ignore rw_tx (\<lambda>r. r)" jget rw_tx "\<lambda>r. r"
  by unfold_locales (rule insert_ignore_row)

interpretation arb_pool_table: insert_or_ignore "insert_ignore (\<lambda>p. p) (\<lambda>p. ())" jget "\<lambda>p. p" "\<lambda>p. ()"
  by unfold_locales (rule insert_ignore_row)

definition pool_pairs :: "arb_row list \<Rightarrow> (string \<times> string) list" where
  "pool_pairs rows = concat (map (\<lambda>r. map (Pair (rw_tx r)) (rw_pools r)) rows)"

lemma insert_arbs_tables:
  "ix_arbs (insert_arbs rows ix) = foldl (insert_ignore rw_tx (\<lambda>r. r)) (ix_arbs ix) rows \<and>
   ix_arb_pools (insert_arbs rows ix) = foldl (insert_ignore (\<lambda>p. p) (\<lambda>p. ())) (ix_arb_pools ix) (pool_pairs rows)"
proof (induction rows arbitrary: ix)
  case (Cons r rows)
  have "insert_ignore (Pair (rw_tx r)) (\<lambda>p. ()) t p = insert_ignore (\<lambda>p. p) (\<lambda>p. ()) t (rw_tx r, p)" for t and p :: string
    by (simp add: insert_ignore_def)
  then have "foldl (insert_ignore (Pair (rw_tx r)) (\<lambda>p. ())) t ps = foldl (\<lambda>t p. insert_ignore (\<lambda>p. p) (\<lambda>p. ()) t (rw_tx r, p)) t ps" for t and ps :: "string list"
    by (intro foldl_cong refl) simp
  with Cons show ?case by (simp add: insert_arbs_def insert_arb_def pool_pairs_def foldl_map)
qed (simp add: insert_arbs_def pool_pairs_def)

lemma insert_arbs_rest: "ix_settlements (insert_arbs rows ix) = ix_settlements ix" "ix_meta (insert_arbs rows ix) = ix_meta ix"
  unfolding insert_arbs_def by (induction rows arbitrary: ix) (simp_all add: insert_arb_def)

lemma insert_ignore_wf: "jwf t \<Longrightarrow> jwf (foldl (insert_ignore key stored) t rs)"
  by (induction rs arbitrary: t) (simp_all add: insert_ignore_def split: option.split)

text \<open>Replaying a block gives the same rows again, so a transaction has one row.\<close>

definition one_row :: "arb_row list \<Rightarrow> bool" where
  "one_row rows \<longleftrightarrow> (\<forall>r \<in> set rows. \<forall>r' \<in> set rows. rw_tx r = rw_tx r' \<longrightarrow> r = r')"

lemma arb_rows_inserted:
  assumes "one_row rows"
  shows "distinct (arb_rows (insert_arbs rows empty_index)) \<and> set (arb_rows (insert_arbs rows empty_index)) = set rows"
proof -
  let ?t = "ix_arbs (insert_arbs rows empty_index)"
  have t: "?t = foldl (insert_ignore rw_tx (\<lambda>r. r)) [] rows" using insert_arbs_tables [of rows empty_index] by (simp add: empty_index_def)
  have wf: "jwf ?t" unfolding t by (rule insert_ignore_wf) simp
  have from_rows: "r \<in> set rows \<and> k = rw_tx r" if "(k, r) \<in> set ?t" for k r
    using arb_table.row_from [of "[]" rows k r] map_of_is_SomeI [OF wf that] unfolding t by auto
  have "(rw_tx r, r) \<in> set ?t" if "r \<in> set rows" for r
  proof -
    from arb_table.row_written [OF that, of "[]"] obtain r' where r': "jget ?t (rw_tx r) = Some r'" unfolding t by auto
    with from_rows map_of_SomeD [OF r'] assms that have "r' = r" by (auto simp: one_row_def)
    with map_of_SomeD [OF r'] show ?thesis by simp
  qed
  moreover have "r \<in> set rows" if "r \<in> snd ` set ?t" for r using that from_rows by auto
  ultimately have s: "snd ` set ?t = set rows" by force
  have "inj_on snd (set ?t)" by (rule inj_onI) (metis from_rows prod.collapse)
  then have "distinct (map snd ?t)" using wf by (simp add: distinct_map)
  with s show ?thesis by (simp add: arb_rows_def)
qed

definition touching :: "string list \<Rightarrow> arb_row \<Rightarrow> bool" where
  "touching pools r \<longleftrightarrow> pools = [] \<or> (\<exists>p \<in> set (rw_pools r). lower p \<in> set (map lower pools))"

lemma in_pools_inserted:
  assumes "one_row rows" "r \<in> set rows"
  shows "in_pools (insert_arbs rows empty_index) lowered (rw_tx r) \<longleftrightarrow> (\<exists>p \<in> set (rw_pools r). lower p \<in> set lowered)"
proof -
  let ?t = "ix_arb_pools (insert_arbs rows empty_index)"
  have t: "?t = foldl (insert_ignore (\<lambda>p. p) (\<lambda>p. ())) [] (pool_pairs rows)" using insert_arbs_tables [of rows empty_index] by (simp add: empty_index_def)
  have wf: "jwf ?t" unfolding t by (rule insert_ignore_wf) simp
  have "((tx, p), ()) \<in> set ?t \<longleftrightarrow> (tx, p) \<in> set (pool_pairs rows)" for tx p
  proof
    assume "((tx, p), ()) \<in> set ?t"
    from map_of_is_SomeI [OF wf this] show "(tx, p) \<in> set (pool_pairs rows)"
      using arb_pool_table.row_from [of "[]" "pool_pairs rows" "(tx, p)" "()"] unfolding t by simp
  next
    assume "(tx, p) \<in> set (pool_pairs rows)"
    from arb_pool_table.row_written [OF this, of "[]"] obtain u where "jget ?t (tx, p) = Some u" unfolding t by auto
    from map_of_SomeD [OF this] show "((tx, p), ()) \<in> set ?t" by simp
  qed
  moreover have "(rw_tx r, p) \<in> set (pool_pairs rows) \<longleftrightarrow> p \<in> set (rw_pools r)" for p
    using assms by (auto simp: pool_pairs_def one_row_def)
  ultimately show ?thesis unfolding in_pools_def by (auto simp del: set_map)
qed

lemma leak_rows_inserted:
  assumes "one_row rows"
  shows "distinct (leak_rows (insert_arbs rows empty_index) pools) \<and>
    set (leak_rows (insert_arbs rows empty_index) pools) = {r \<in> set rows. touching pools r}"
  using arb_rows_inserted [OF assms] in_pools_inserted [OF assms, of _ "map lower pools"]
  by (auto simp: leak_rows_def Let_def touching_def)

text \<open>What a row adds, and to which token.\<close>

definition priced_row :: "arb_row \<Rightarrow> string \<Rightarrow> bool" where
  "priced_row r t \<longleftrightarrow> rw_quote r \<and> (\<exists>token w. rw_token r = Some token \<and> token \<noteq> [] \<and> lower token = t \<and> rw_wei r = Some w \<and> w \<noteq> [])"

definition row_wei :: "arb_row \<Rightarrow> int" where
  "row_wei r = (case rw_wei r of None \<Rightarrow> 0 | Some w \<Rightarrow> (case big_int w of None \<Rightarrow> 0 | Some n \<Rightarrow> n))"

lemma profit_loop_sums:
  assumes "profit_loop acc rows = Some acc'" "\<forall>r \<in> set rows. rw_quote r"
  shows "jget_or (0, 0) acc' t =
      (fst (jget_or (0, 0) acc t) + (\<Sum>r \<leftarrow> filter (\<lambda>r. priced_row r t) rows. row_wei r),
       snd (jget_or (0, 0) acc t) + int (length (filter (\<lambda>r. priced_row r t) rows)))
  \<and> (jwf acc \<longrightarrow> jwf acc')"
  using assms
proof (induction rows arbitrary: acc)
  case (Cons r rs)
  show ?case
  proof (cases "\<exists>token w. rw_token r = Some token \<and> token \<noteq> [] \<and> rw_wei r = Some w \<and> w \<noteq> []")
    case True
    then obtain token w where r: "rw_token r = Some token" "token \<noteq> []" "rw_wei r = Some w" "w \<noteq> []" by (elim exE conjE)
    then obtain n where n: "big_int w = Some n" "profit_loop (add_profit acc token n) rs = Some acc'"
      using Cons.prems(1) by (cases "big_int w") simp_all
    have q: "rw_quote r" "\<forall>r \<in> set rs. rw_quote r" using Cons.prems(2) by simp_all
    have p: "priced_row r t \<longleftrightarrow> lower token = t" using r q by (simp add: priced_row_def)
    have w: "row_wei r = n" using r n by (simp add: row_wei_def)
    have a: "jget_or (0, 0) (add_profit acc token n) t =
        (if lower token = t then (fst (jget_or (0, 0) acc t) + n, snd (jget_or (0, 0) acc t) + 1) else jget_or (0, 0) acc t)"
      by (simp add: add_profit_def split_beta)
    have f: "jwf (add_profit acc token n)" if "jwf acc" using that by (simp add: add_profit_def split_beta)
    show ?thesis using Cons.IH [OF n(2) q(2)] f by (simp add: p w a)
  next
    case False
    then have "profit_loop acc (r # rs) = profit_loop acc rs" "\<not> priced_row r t"
      by (auto simp: priced_row_def split: option.splits)
    with Cons show ?thesis by simp
  qed
qed simp_all

lemma jget_or_same:
  assumes "jwf xs" "mset xs = mset ys"
  shows "jget_or d ys k = jget_or d xs k"
proof -
  have "mset (map fst xs) = mset (map fst ys)" using assms(2) by simp
  then have "jwf ys" using assms(1) mset_eq_imp_distinct_iff by blast
  then have "jget ys = jget xs" using assms map_of_inject_set [of ys xs] mset_eq_setD [of xs ys] by simp
  then show ?thesis by (simp add: jget_or_def)
qed

lemma profit_by_token_sums:
  assumes "profit_by_token rows = Some acc"
  shows "jget_or (0, 0) acc t = (\<Sum>r \<leftarrow> filter (\<lambda>r. priced_row r t) rows. row_wei r, int (length (filter (\<lambda>r. priced_row r t) rows)))"
proof -
  obtain acc' where l: "profit_loop [] (filter rw_quote rows) = Some acc'"
      and a: "acc = js_sort (\<lambda>(t, w, n) (t', w', n'). n' - n) acc'"
    using assms by (auto simp: profit_by_token_def)
  have "(rw_quote r \<and> priced_row r t) = priced_row r t" for r by (auto simp: priced_row_def)
  then have f: "filter (\<lambda>r. priced_row r t) (filter rw_quote rows) = filter (\<lambda>r. priced_row r t) rows"
    by (simp only: filter_filter)
  have q: "\<forall>r \<in> set (filter rw_quote rows). rw_quote r" by simp
  have z: "jget_or (0, 0) [] t = (0, 0)" by (simp add: jget_or_def)
  have "jget_or (0, 0) acc' t = (\<Sum>r \<leftarrow> filter (\<lambda>r. priced_row r t) rows. row_wei r, int (length (filter (\<lambda>r. priced_row r t) rows))) \<and> jwf acc'"
    using profit_loop_sums [OF l q, of t] unfolding f z by simp
  moreover have "jget_or (0, 0) acc t = jget_or (0, 0) acc' t" if "jwf acc'"
    by (rule jget_or_same [OF that]) (simp add: a)
  ultimately show ?thesis by simp
qed

lemma distinct_count: "distinct xs \<Longrightarrow> length (filter P xs) = card {x \<in> set xs. P x}"
  by (metis distinct_card distinct_filter set_filter)

lemma distinct_sum: "distinct xs \<Longrightarrow> (\<Sum>x \<leftarrow> filter P xs. f x) = (\<Sum>x \<in> {x \<in> set xs. P x}. f x)"
  by (metis distinct_filter set_filter sum_list_distinct_conv_sum_set)

lemma leakage_counts:
  assumes "one_row rows" "pool_leakage (insert_arbs rows empty_index) pools = Some lk"
  shows "lk_arbs lk = card {r \<in> set rows. touching pools r} \<and>
    lk_searchers lk = card (rw_sender ` {r \<in> set rows. touching pools r}) \<and>
    lk_priced lk = card {r \<in> set rows. touching pools r \<and> rw_quote r} \<and>
    jget_or (0, 0) (lk_profit lk) t = (\<Sum>r \<in> {r \<in> set rows. touching pools r \<and> priced_row r t}. row_wei r, int (card {r \<in> set rows. touching pools r \<and> priced_row r t}))"
proof -
  let ?l = "leak_rows (insert_arbs rows empty_index) pools"
  have l: "distinct ?l" "set ?l = {r \<in> set rows. touching pools r}" using leak_rows_inserted [OF assms(1), of pools] by simp_all
  obtain acc where acc: "profit_by_token ?l = Some acc" and lk: "lk_arbs lk = length ?l" "lk_searchers lk = card (set (map rw_sender ?l))"
      "lk_priced lk = length (filter rw_quote ?l)" "lk_profit lk = acc"
    using assms(2) by (auto simp: pool_leakage_def Let_def)
  have c: "{x \<in> set ?l. P x} = {r \<in> set rows. touching pools r \<and> P r}" for P using l(2) by auto
  show ?thesis
    unfolding lk profit_by_token_sums [OF acc] distinct_count [OF l(1)] distinct_sum [OF l(1)] c distinct_card [OF l(1), symmetric]
    using l by (simp add: distinct_card)
qed

lemma profit_readable:
  "\<forall>r \<in> set rows. \<forall>w. rw_wei r = Some w \<longrightarrow> big_int w \<noteq> None \<Longrightarrow> profit_by_token rows \<noteq> None"
proof -
  have readable: "profit_loop acc rs \<noteq> None" if "\<forall>r \<in> set rs. \<forall>w. rw_wei r = Some w \<longrightarrow> big_int w \<noteq> None" for acc rs
    using that by (induction acc rs rule: profit_loop.induct) (auto split: option.splits bind_split)
  assume "\<forall>r \<in> set rows. \<forall>w. rw_wei r = Some w \<longrightarrow> big_int w \<noteq> None"
  then have "profit_loop [] (filter rw_quote rows) \<noteq> None" by (intro readable) auto
  then show ?thesis by (simp add: profit_by_token_def)
qed

lemma leakage_readable:
  assumes "one_row rows" "\<forall>r \<in> set rows. \<forall>w. rw_wei r = Some w \<longrightarrow> big_int w \<noteq> None"
  obtains lk where "pool_leakage (insert_arbs rows empty_index) pools = Some lk"
proof -
  have "profit_by_token (leak_rows (insert_arbs rows empty_index) pools) \<noteq> None"
    using leak_rows_inserted [OF assms(1), of pools] assms(2) by (intro profit_readable) blast
  then obtain acc where "profit_by_token (leak_rows (insert_arbs rows empty_index) pools) = Some acc" by (elim not_None_eq [THEN iffD1, THEN exE])
  then show ?thesis by (intro that) (simp add: pool_leakage_def Let_def)
qed

lemma leakage_tables:
  assumes "ix_arbs ix = ix_arbs ix'" "ix_arb_pools ix = ix_arb_pools ix'"
  shows "pool_leakage ix pools = pool_leakage ix' pools"
  using assms by (simp add: pool_leakage_def leak_rows_def in_pools_def arb_rows_def Let_def)

section \<open>Totals are exact or fail\<close>

lemma digit_prefix_nat: "0 \<le> n \<Longrightarrow> digit_prefix (to_str n) = n"
proof -
  assume n: "0 \<le> n"
  have p: "parse_digits 10 (nat_str 10 n) = Some n" using parse_nat_str [of n 10] n by simp
  then have "list_all (digit_ok 10) (nat_str 10 n)" "num_val 10 0 (nat_str 10 n) = n" by (simp_all add: parse_digits_def split: if_splits)
  then show ?thesis using n by (simp add: digit_prefix_def to_str_def list_all_iff takeWhile_eq_all_conv [THEN iffD2])
qed

lemma cast_int_text:
  assumes "0 \<le> n"
  shows "cast_int (to_str n) = min int64_max n"
proof -
  have s: "to_str n = nat_str 10 n" using assms by (simp add: to_str_def)
  have d: "\<forall>c \<in> set (nat_str 10 n). \<exists>d. 0 \<le> d \<and> d < 10 \<and> c = digit_char d" "nat_str 10 n \<noteq> []" using nat_str_digits [of n 10] assms by simp_all
  obtain c cs where c: "nat_str 10 n = c # cs" using d(2) by (cases "nat_str 10 n") simp_all
  have "c \<in> set (nat_str 10 n)" by (simp add: c)
  then obtain k where "0 \<le> k" "k < 10" "c = digit_char k" using d(1) by (elim ballE) auto
  then have "\<not> is_space c \<and> c \<noteq> CHR ''-'' \<and> c \<noteq> CHR ''+''" using dec_digit_cases [of k] by simp
  then have "dropWhile is_space (to_str n) = to_str n" "\<not> starts_with ''-'' (to_str n)" "\<not> starts_with ''+'' (to_str n)"
    by (auto simp: s c starts_with_Cons)
  with digit_prefix_nat [OF assms] assms show ?thesis by (simp add: cast_int_def clamp64_def int64_max_def)
qed

lemma sum_int64_nonneg:
  assumes "\<forall>n \<in> set ns. 0 \<le> n" "0 \<le> acc" "acc \<le> int64_max"
  shows "sum_int64 acc ns = (if acc + sum_list ns \<le> int64_max then Some (acc + sum_list ns) else None)"
  using assms
proof (induction ns arbitrary: acc)
  case (Cons n ns)
  have "0 \<le> sum_list ns" using Cons.prems by (intro sum_list_nonneg) simp
  then show ?case using Cons by (auto simp: clamp64_def int64_max_def add.assoc)
qed simp

lemma clamped_nonneg: "\<forall>n \<in> set ns. 0 \<le> n \<Longrightarrow> m \<in> set (map (min int64_max) ns) \<Longrightarrow> 0 \<le> m"
proof -
  assume "\<forall>n \<in> set ns. 0 \<le> n" "m \<in> set (map (min int64_max) ns)"
  then obtain n where "m = min int64_max n" "0 \<le> n" unfolding set_map by blast
  then show "0 \<le> m" by (simp add: int64_max_def)
qed

lemma clamped_sum:
  assumes "\<forall>n \<in> set ns. 0 \<le> n"
  shows "count_and_sum (map (min int64_max) ns) = (if sum_list ns \<le> max_safe then Some (int (length ns), sum_list ns) else None)"
proof -
  let ?c = "map (min int64_max) ns"
  have nn: "\<forall>n \<in> set ?c. 0 \<le> n" using clamped_nonneg [OF assms] by blast
  have le: "sum_list ?c \<le> sum_list ns" by (induction ns) simp_all
  have ge: "0 \<le> sum_list (map (min int64_max) ms)" if "\<forall>n \<in> set ms. 0 \<le> n" for ms
    using clamped_nonneg [OF that] by (rule sum_list_nonneg)
  have "sum_list ?c = sum_list ns \<or> int64_max \<le> sum_list ?c" using assms
  proof (induction ns)
    case (Cons n ns)
    with ge [of ns] show ?case by (cases "int64_max \<le> n") (auto simp: min_absorb1 min_absorb2)
  qed simp
  with le ge [OF assms] show ?thesis
    using sum_int64_nonneg [OF nn, of 0] by (auto simp: count_and_sum_def js_int_def max_safe_def int64_max_def)
qed

text \<open>
  C29: The totals over settlements are exact whenever they come back, and they come back exactly while the
  sum of the charges is at most \<open>2 ^ 53 - 1\<close> wei, which is under 0.01 ether: beyond that the query throws.
\<close>

theorem settlement_totals_exact_or_fail:
  assumes "\<forall>r \<in> set (map snd (ix_settlements ix)). sr_charge r = to_str (charge r) \<and> 0 \<le> charge r"
  shows "settlement_totals ix =
    (let sent = filter (\<lambda>r. sr_tx r \<noteq> None) (map snd (ix_settlements ix)) in
     if (\<Sum>r \<leftarrow> sent. charge r) \<le> max_safe then Some (int (length sent), \<Sum>r \<leftarrow> sent. charge r) else None)"
proof -
  define sent where "sent = filter (\<lambda>r. sr_tx r \<noteq> None) (map snd (ix_settlements ix))"
  have r: "sr_charge r = to_str (charge r)" "0 \<le> charge r" if "r \<in> set sent" for r using assms that unfolding sent_def by auto
  have "charges (\<lambda>r. sr_tx r \<noteq> None) ix = map (min int64_max) (map charge sent)"
    unfolding charges_def sent_def [symmetric] by (simp add: r cast_int_text)
  moreover have "\<forall>n \<in> set (map charge sent). 0 \<le> n" using r by simp
  ultimately show ?thesis unfolding settlement_totals_def Let_def sent_def [symmetric] by (simp only: clamped_sum length_map)
qed

definition demo_settlement :: "string \<Rightarrow> int \<Rightarrow> settlement_row" where
  "demo_settlement i n = \<lparr>sr_id = i, sr_searcher = ''0xs'', sr_charge = to_str n, sr_user = ''0xu'', sr_app = ''0xA'', sr_tx = Some ''0xt'', sr_created = 1\<rparr>"

definition demo_settled :: arb_index where
  "demo_settled = insert_settlement (demo_settlement ''b'' 9007199254740000) (insert_settlement (demo_settlement ''a'' 991) empty_index)"

theorem settlement_totals_exact_or_fail_witness:
  "settlement_totals demo_settled = Some (2, 9007199254740991) \<and>
   settlement_totals (insert_settlement (demo_settlement ''c'' 1) demo_settled) = None"
proof -
  let ?charge = "\<lambda>r. if sr_id r = ''a'' then 991 else if sr_id r = ''b'' then 9007199254740000 else 1 :: int"
  have a: "settlement_totals demo_settled = Some (2, 9007199254740991)"
    by (subst settlement_totals_exact_or_fail [where charge = ?charge])
      (simp_all add: demo_settled_def insert_settlement_def empty_index_def demo_settlement_def max_safe_def Let_def)
  have b: "settlement_totals (insert_settlement (demo_settlement ''c'' 1) demo_settled) = None"
    by (subst settlement_totals_exact_or_fail [where charge = ?charge])
      (simp_all add: demo_settled_def insert_settlement_def empty_index_def demo_settlement_def max_safe_def Let_def)
  from a b show ?thesis ..
qed

end
