(* ===== verification/BlockWork.thy ===== *)
theory BlockWork
  imports ArbIndex Candles V4Index WatchLoop
begin

text \<open>
  What the watcher does with one block (\<open>processBlock\<close>, \<open>apps/watcher/src/main.ts\<close>): it reads the block
  and its receipts, finds swaps and arbitrages, and writes the tape, the V4 keys, the raw files and the index.
\<close>

section \<open>What the node answers\<close>

record node_log =
  kl_address :: string
  kl_topics :: "string list"
  kl_data :: string
  kl_index :: "string option"
  kl_tx :: "string option"

record raw_receipt =
  kr_tx :: string
  kr_index :: num_text
  kr_from :: string
  kr_to :: "string option"
  kr_gas_used :: string
  kr_gas_price :: "string option"
  kr_status :: num_text
  kr_logs :: "node_log list"

definition det_of :: "raw_receipt \<Rightarrow> det_receipt" where
  "det_of r =
     \<lparr>dr_tx = kr_tx r, dr_index = kr_index r, dr_from = kr_from r, dr_to = kr_to r, dr_gas_used = kr_gas_used r, dr_gas_price = kr_gas_price r,
      dr_status = kr_status r, dr_logs = map (\<lambda>l. \<lparr>dl_address = kl_address l, dl_topics = kl_topics l, dl_data = kl_data l\<rparr>) (kr_logs r)\<rparr>"

definition tape_of :: "raw_receipt \<Rightarrow> receipt" where
  "tape_of r =
     \<lparr>rc_tx = Some (kr_tx r),
      rc_logs = map (\<lambda>l. \<lparr>sl_address = kl_address l, sl_topics = kl_topics l, sl_data = Some (kl_data l), sl_log_index = kl_index l, sl_tx = kl_tx l\<rparr>) (kr_logs r)\<rparr>"

definition keys_of :: "raw_receipt \<Rightarrow> string option \<times> init_log list" where
  "keys_of r =
     (Some (kr_tx r),
      map (\<lambda>l. \<lparr>il_address = kl_address l, il_topics = kl_topics l, il_data = Some (kl_data l), il_block = None, il_tx = kl_tx l\<rparr>) (kr_logs r))"

record raw_tx =
  xt_hash :: "string option"
  xt_value :: "string option"

record chain_block =
  cb_time :: int
  cb_txs :: "raw_tx list"

text \<open>
  \<open>ba_block\<close> is \<^const>\<open>None\<close> where the request fails and \<open>Some None\<close> where the node answers \<open>null\<close>;
  \<open>ba_receipts\<close> is \<^const>\<open>Inl\<close> of the message where it fails; \<open>ba_receipt\<close> answers for one transaction.
\<close>

record block_answers =
  ba_block :: "chain_block option option"
  ba_receipts :: "string + raw_receipt list"
  ba_receipt :: "string option \<Rightarrow> raw_receipt option"

section \<open>Reading a block\<close>

definition method_missing :: "string \<Rightarrow> bool" where
  "method_missing msg =
     (str_includes ''method not found'' (lower msg) \<or> str_includes ''not supported'' (lower msg) \<or> str_includes ''unsupported'' (lower msg))"

text \<open>All receipts of the block at once, or one at a time from a node that has no such method.\<close>

definition read_receipts :: "block_answers \<Rightarrow> chain_block \<Rightarrow> raw_receipt list option" where
  "read_receipts ba b =
     (case ba_receipts ba of
        Inr rs \<Rightarrow> Some rs
      | Inl msg \<Rightarrow> if method_missing msg then all_rows (map (ba_receipt ba \<circ> xt_hash) (cb_txs b)) else None)"

fun tx_values :: "(string \<times> int) list \<Rightarrow> raw_tx list \<Rightarrow> (string \<times> int) list option" where
  "tx_values vals [] = Some vals"
| "tx_values vals (t # ts) =
     (case (xt_hash t, xt_value t) of
        (Some h, Some v) \<Rightarrow>
          if h = [] \<or> v = [] \<or> v = ''0x0'' then tx_values vals ts
          else Option.bind (big_int v) (\<lambda>n. tx_values (jset (lower h) n vals) ts)
      | _ \<Rightarrow> tx_values vals ts)"

section \<open>Writing what was found\<close>

record watch_stats =
  st_blocks :: int
  st_txs :: int
  st_swaps :: int
  st_arbs :: int
  st_v4 :: int
  st_profit :: "(string \<times> int) list"
  st_senders :: "(string \<times> int) list"
  st_pools :: "string set"

record watch_state =
  wt_index :: arb_index
  wt_candles :: candle_table
  wt_trades :: trade_table
  wt_keys :: v4_table
  wt_swap_lines :: "swap_seen list"
  wt_arb_lines :: "arb_seen list"
  wt_stats :: watch_stats

definition count_block :: "chain_block \<Rightarrow> watch_state \<Rightarrow> watch_state" where
  "count_block b st =
     st\<lparr>wt_stats := (wt_stats st)\<lparr>st_blocks := st_blocks (wt_stats st) + 1, st_txs := st_txs (wt_stats st) + int (length (cb_txs b))\<rparr>\<rparr>"

text \<open>The tape is written best-effort: whatever throws ends it and is swallowed.\<close>

definition write_tape :: "int \<Rightarrow> int \<Rightarrow> raw_receipt list \<Rightarrow> watch_state \<Rightarrow> watch_state" where
  "write_tape n ts rs st =
     (case extract_price_points n ts (map tape_of rs) 60 of
        None \<Rightarrow> st
      | Some ps \<Rightarrow>
          let st = st\<lparr>wt_candles := upsert_candles ps (wt_candles st)\<rparr> in
          case extract_trades n ts (map tape_of rs) of
            None \<Rightarrow> st
          | Some rows \<Rightarrow> st\<lparr>wt_trades := insert_trades rows (wt_trades st)\<rparr>)"

definition write_keys :: "v4_pool list \<Rightarrow> watch_state \<Rightarrow> watch_state" where
  "write_keys created st =
     (if created = [] then st
      else st\<lparr>wt_keys := upsert_v4_pools created (wt_keys st),
              wt_stats := (wt_stats st)\<lparr>st_v4 := st_v4 (wt_stats st) + int (length created)\<rparr>\<rparr>)"

definition arb_to_row :: "arb_seen \<Rightarrow> arb_row" where
  "arb_to_row a =
     \<lparr>rw_tx = as_tx a, rw_block = as_block a, rw_ts = as_time a, rw_sender = as_sender a, rw_pools = as_pools a, rw_token = Some (as_profit_token a),
      rw_wei = Some (to_str (as_profit a)), rw_quote = as_is_quote a, rw_gas = Some (to_str (as_gas_paid a))\<rparr>"

definition count_arb :: "watch_state \<Rightarrow> arb_seen \<Rightarrow> watch_state" where
  "count_arb st a =
     (let s = wt_stats st;
          s = s\<lparr>st_senders := jset (as_sender a) (jget_or 0 (st_senders s) (as_sender a) + 1) (st_senders s)\<rparr>;
          s = (if as_profit_token a = [] then s
               else s\<lparr>st_profit := jset (as_profit_token a) (jget_or 0 (st_profit s) (as_profit_token a) + as_profit a) (st_profit s)\<rparr>) in
      st\<lparr>wt_stats := s, wt_arb_lines := wt_arb_lines st @ [a]\<rparr>)"

definition write_found :: "swap_seen list \<Rightarrow> arb_seen list \<Rightarrow> watch_state \<Rightarrow> watch_state" where
  "write_found swaps arbs st =
     (let s = wt_stats st;
          st = st\<lparr>wt_stats := s\<lparr>st_swaps := st_swaps s + int (length swaps), st_arbs := st_arbs s + int (length arbs),
                               st_pools := st_pools s \<union> set (map ss_pool swaps)\<rparr>,
                  wt_swap_lines := wt_swap_lines st @ swaps,
                  wt_index := add_swaps (int (length swaps)) (wt_index st)\<rparr>;
          st = foldl count_arb st arbs in
      if arbs = [] then st else st\<lparr>wt_index := insert_arbs (map arb_to_row arbs) (wt_index st)\<rparr>)"

definition process_block :: "int \<Rightarrow> block_answers \<Rightarrow> watch_state \<Rightarrow> block_outcome \<times> watch_state" where
  "process_block n ba st =
     (case ba_block ba of
        None \<Rightarrow> (BlockFailed, st)
      | Some None \<Rightarrow> (Absent, st)
      | Some (Some b) \<Rightarrow>
          let st = count_block b st in
          if cb_txs b = [] then (Indexed, st)
          else case tx_values [] (cb_txs b) of
            None \<Rightarrow> (BlockFailed, st)
          | Some vals \<Rightarrow>
              case read_receipts ba b of
                None \<Rightarrow> (BlockFailed, st)
              | Some rs \<Rightarrow>
                  case analyze_block n (cb_time b) vals (map det_of rs) of
                    None \<Rightarrow> (BlockFailed, st)
                  | Some (swaps, arbs) \<Rightarrow>
                      let st = write_tape n (cb_time b) rs st in
                      case extract_v4_initializes n (cb_time b) (map keys_of rs) of
                        None \<Rightarrow> (BlockFailed, st)
                      | Some created \<Rightarrow> (Indexed, write_found swaps arbs (write_keys created st)))"

definition fresh_state :: watch_state where
  "fresh_state =
     \<lparr>wt_index = empty_index, wt_candles = [], wt_trades = [], wt_keys = [], wt_swap_lines = [], wt_arb_lines = [],
      wt_stats = \<lparr>st_blocks = 0, st_txs = 0, st_swaps = 0, st_arbs = 0, st_v4 = 0, st_profit = [], st_senders = [], st_pools = {}\<rparr>\<rparr>"

text \<open>Blocks of a chunk run side by side, but each writes without interruption; a run lists them as they write.\<close>

definition process_blocks :: "(int \<times> block_answers) list \<Rightarrow> watch_state" where
  "process_blocks evs = foldl (\<lambda>st (n, ba). snd (process_block n ba st)) fresh_state evs"

end
