(* ===== verification/BlockRuns.thy ===== *)
theory BlockRuns
  imports BlockWork
begin

text \<open>
  What the index holds after any run of blocks, with failures and repeats: every arbitrage of the blocks
  that went through, once.
\<close>

section \<open>What a block adds to the index\<close>

definition found_in :: "int \<Rightarrow> block_answers \<Rightarrow> (swap_seen list \<times> arb_seen list) option" where
  "found_in n ba =
     (case ba_block ba of
        Some (Some b) \<Rightarrow>
          if cb_txs b = [] then Some ([], [])
          else Option.bind (tx_values [] (cb_txs b)) (\<lambda>vals.
               Option.bind (read_receipts ba b) (\<lambda>rs.
               Option.bind (analyze_block n (cb_time b) vals (map det_of rs)) (\<lambda>found.
                 map_option (\<lambda>created. found) (extract_v4_initializes n (cb_time b) (map keys_of rs)))))
      | _ \<Rightarrow> None)"

lemma add_swaps_rest [simp]: "ix_arbs (add_swaps n ix) = ix_arbs ix" "ix_arb_pools (add_swaps n ix) = ix_arb_pools ix"
    "ix_settlements (add_swaps n ix) = ix_settlements ix"
  by (simp_all add: add_swaps_def set_meta_def)

lemma writes_keep_index [simp]:
  "wt_index (count_block b st) = wt_index st" "wt_index (write_tape n ts rs st) = wt_index st" "wt_index (write_keys ks st) = wt_index st"
  "wt_index (foldl count_arb st arbs) = wt_index st"
proof -
  show "wt_index (foldl count_arb st arbs) = wt_index st" by (induction arbs arbitrary: st) (simp_all add: count_arb_def Let_def)
qed (simp_all add: count_block_def write_tape_def write_keys_def Let_def split: option.split)

lemma write_found_index:
  "wt_index (write_found swaps arbs st) = insert_arbs (map arb_to_row arbs) (add_swaps (int (length swaps)) (wt_index st))"
  by (simp add: write_found_def Let_def insert_arbs_def)

lemma process_found:
  "(fst (process_block n ba st) = Indexed) = (found_in n ba \<noteq> None) \<and>
   wt_index (snd (process_block n ba st)) =
     (case found_in n ba of
        None \<Rightarrow> wt_index st
      | Some (swaps, arbs) \<Rightarrow> insert_arbs (map arb_to_row arbs) (add_swaps (int (length swaps)) (wt_index st)))"
  by (auto simp: process_block_def found_in_def Let_def write_found_index insert_arbs_def add_swaps_def
      split: option.splits prod.splits)

definition recorded :: "(int \<times> block_answers) list \<Rightarrow> arb_row list" where
  "recorded evs = concat (map (\<lambda>(n, ba). case found_in n ba of None \<Rightarrow> [] | Some (swaps, arbs) \<Rightarrow> map arb_to_row arbs) evs)"

lemma in_recorded:
  "x \<in> set (recorded evs) \<longleftrightarrow> (\<exists>n ba swaps arbs a. (n, ba) \<in> set evs \<and> found_in n ba = Some (swaps, arbs) \<and> a \<in> set arbs \<and> x = arb_to_row a)"
proof -
  have one: "x \<in> set (case f of None \<Rightarrow> [] | Some (swaps, arbs) \<Rightarrow> map arb_to_row arbs) \<longleftrightarrow>
      (\<exists>swaps arbs a. f = Some (swaps, arbs) \<and> a \<in> set arbs \<and> x = arb_to_row a)" for f :: "(swap_seen list \<times> arb_seen list) option"
    by (cases f) auto
  have "x \<in> set (recorded evs) \<longleftrightarrow> (\<exists>n ba. (n, ba) \<in> set evs \<and> x \<in> set (case found_in n ba of None \<Rightarrow> [] | Some (swaps, arbs) \<Rightarrow> map arb_to_row arbs))"
    unfolding recorded_def set_concat set_map by fastforce
  then show ?thesis unfolding one by (simp only: ex_simps)
qed

lemma process_blocks_index:
  "ix_arbs (wt_index (process_blocks evs)) = ix_arbs (insert_arbs (recorded evs) empty_index) \<and>
   ix_arb_pools (wt_index (process_blocks evs)) = ix_arb_pools (insert_arbs (recorded evs) empty_index)"
proof (induction evs rule: rev_induct)
  case (snoc ev evs)
  obtain n ba where ev: "ev = (n, ba)" by (cases ev)
  have step: "process_blocks (evs @ [ev]) = snd (process_block n ba (process_blocks evs))" by (simp add: process_blocks_def ev)
  have rows: "recorded (evs @ [ev]) = recorded evs @ (case found_in n ba of None \<Rightarrow> [] | Some (swaps, arbs) \<Rightarrow> map arb_to_row arbs)"
    by (simp add: recorded_def ev)
  show ?case
    unfolding step rows conjunct2 [OF process_found] using snoc
    by (cases "found_in n ba") (simp_all add: split_beta insert_arbs_tables pool_pairs_def)
qed (simp add: process_blocks_def recorded_def insert_arbs_def fresh_state_def)

section \<open>Runs over one chain\<close>

text \<open>
  A chain gives a block and its receipts at every height, and no transaction twice; an answer about it may
  be missing, but is never about something else.
\<close>

type_synonym block_chain = "int \<Rightarrow> chain_block \<times> raw_receipt list"

definition chain_ok :: "block_chain \<Rightarrow> bool" where
  "chain_ok chain \<longleftrightarrow>
     (\<forall>n. cb_txs (fst (chain n)) = [] \<longrightarrow> snd (chain n) = []) \<and>
     (\<forall>n m. \<forall>r \<in> set (snd (chain n)). \<forall>r' \<in> set (snd (chain m)). kr_tx r = kr_tx r' \<longrightarrow> n = m \<and> r = r')"

definition honest_answers :: "block_chain \<Rightarrow> int \<times> block_answers \<Rightarrow> bool" where
  "honest_answers chain ev \<longleftrightarrow>
     (\<forall>b. ba_block (snd ev) = Some (Some b) \<longrightarrow> b = fst (chain (fst ev)) \<and> (\<forall>rs. read_receipts (snd ev) b = Some rs \<longrightarrow> rs = snd (chain (fst ev))))"

definition went_through :: "(int \<times> block_answers) list \<Rightarrow> int set" where
  "went_through evs = {n. \<exists>ba. (n, ba) \<in> set evs \<and> fst (process_block n ba fresh_state) = Indexed}"

definition values_at :: "block_chain \<Rightarrow> int \<Rightarrow> (string \<times> int) list" where
  "values_at chain n = (case tx_values [] (cb_txs (fst (chain n))) of None \<Rightarrow> [] | Some vals \<Rightarrow> vals)"

definition arb_at :: "block_chain \<Rightarrow> int \<Rightarrow> raw_receipt \<Rightarrow> arb_seen option" where
  "arb_at chain n r =
     (if succeeded (det_of r) then Option.bind (arb_of n (cb_time (fst (chain n))) (values_at chain n) (det_of r)) (\<lambda>a. a) else None)"

lemma found_arbs:
  assumes "chain_ok chain" "honest_answers chain (n, ba)" "found_in n ba = Some (swaps, arbs)"
  shows "set arbs = {a. \<exists>r \<in> set (snd (chain n)). arb_at chain n r = Some a} \<and>
    (\<forall>r \<in> set (snd (chain n)). succeeded (det_of r) \<longrightarrow> arb_of n (cb_time (fst (chain n))) (values_at chain n) (det_of r) \<noteq> None)"
proof -
  obtain b where b1: "ba_block ba = Some (Some b)" using assms(3) by (cases "ba_block ba"; cases "the (ba_block ba)") (simp_all add: found_in_def)
  then have b: "ba_block ba = Some (Some b)" "b = fst (chain n)" using assms(2) by (simp_all add: honest_answers_def)
  show ?thesis
  proof (cases "cb_txs b = []")
    case True
    then have "snd (chain n) = []" using assms(1) b(2) by (simp add: chain_ok_def)
    with True b assms(3) show ?thesis by (simp add: found_in_def)
  next
    case False
    obtain vals rs where v: "tx_values [] (cb_txs b) = Some vals" and rs: "read_receipts ba b = Some rs"
      and a: "analyze_block n (cb_time b) vals (map det_of rs) = Some (swaps, arbs)"
      using assms(3) False by (simp add: found_in_def b(1) bind_eq_Some_conv) (elim exE conjE, simp)
    have eq: "rs = snd (chain n)" using assms(2) b(1) rs by (simp add: honest_answers_def)
    have eq': "vals = values_at chain n" using v by (simp add: values_at_def b(2))
    note a' = a [unfolded eq eq' b(2)]
    have at: "arb_at chain n r = Some x \<longleftrightarrow> succeeded (det_of r) \<and> arb_of n (cb_time (fst (chain n))) (values_at chain n) (det_of r) = Some (Some x)" for r x
      by (simp add: arb_at_def bind_eq_Some_conv)
    show ?thesis unfolding at using analyze_arbs [OF a', unfolded set_map bex_simps ball_simps] .
  qed
qed

definition counted :: "block_chain \<Rightarrow> string list \<Rightarrow> int \<Rightarrow> raw_receipt \<Rightarrow> bool" where
  "counted chain pools n r \<longleftrightarrow> r \<in> set (snd (chain n)) \<and> closed_loop (values_at chain n) (det_of r) \<and>
     (pools = [] \<or> (\<exists>p \<in> set (pools_touched (det_of r)). lower p \<in> set (map lower pools)))"

definition in_quote :: "block_chain \<Rightarrow> int \<Rightarrow> raw_receipt \<Rightarrow> bool" where
  "in_quote chain n r \<longleftrightarrow> (\<exists>t. is_quote_token t \<and> 0 < net_of (values_at chain n) (det_of r) t)"

definition row_at :: "block_chain \<Rightarrow> int \<Rightarrow> raw_receipt \<Rightarrow> arb_row" where
  "row_at chain n r = arb_to_row (the (arb_at chain n r))"

lemma arb_at_some:
  assumes "arb_at chain n r = Some a"
  shows "closed_loop (values_at chain n) (det_of r) \<and> arb_ok (values_at chain n) a (det_of r)"
proof -
  from assms have s: "succeeded (det_of r)" by (auto simp: arb_at_def split: if_splits)
  with assms have "arb_of n (cb_time (fst (chain n))) (values_at chain n) (det_of r) = Some (Some a)" by (auto simp: arb_at_def bind_eq_Some_conv)
  from arb_of_some [OF this s] show ?thesis by simp
qed

lemma row_at_fields:
  assumes "arb_at chain n r = Some a"
  shows "rw_tx (row_at chain n r) = kr_tx r" "rw_sender (row_at chain n r) = lower (kr_from r)"
    "rw_quote (row_at chain n r) = in_quote chain n r" "touching pools (row_at chain n r) \<longleftrightarrow>
      pools = [] \<or> (\<exists>p \<in> set (pools_touched (det_of r)). lower p \<in> set (map lower pools))"
  using conjunct2 [OF arb_at_some [OF assms]]
  by (simp_all add: row_at_def assms arb_to_row_def arb_ok_def booked_ok_def in_quote_def touching_def det_of_def)

lemma arb_at_closed:
  assumes "chain_ok chain" "\<forall>ev \<in> set evs. honest_answers chain ev" "n \<in> went_through evs" "r \<in> set (snd (chain n))"
    and "closed_loop (values_at chain n) (det_of r)"
  obtains a where "arb_at chain n r = Some a"
proof -
  obtain ba where ba: "(n, ba) \<in> set evs" "found_in n ba \<noteq> None" using assms(3) process_found by (auto simp: went_through_def)
  obtain swaps arbs where f: "found_in n ba = Some (swaps, arbs)" using ba(2) by auto
  have s: "succeeded (det_of r)" using assms(5) by (simp add: closed_loop_def)
  have "honest_answers chain (n, ba)" using assms(2) ba(1) by blast
  from conjunct2 [OF found_arbs [OF assms(1) this f]] assms(4) s
  obtain x where x: "arb_of n (cb_time (fst (chain n))) (values_at chain n) (det_of r) = Some x" by blast
  from arb_of_some [OF x s] assms(5) obtain a where "x = Some a" by (cases x) simp_all
  with x s show ?thesis by (intro that) (simp add: arb_at_def)
qed

lemma recorded_rows:
  assumes "chain_ok chain" "\<forall>ev \<in> set evs. honest_answers chain ev"
  shows "set (recorded evs) = {row_at chain n r |n r. n \<in> went_through evs \<and> r \<in> set (snd (chain n)) \<and> closed_loop (values_at chain n) (det_of r)}"
proof (intro set_eqI iffI)
  fix x assume "x \<in> set (recorded evs)"
  then obtain n ba swaps arbs a where x: "(n, ba) \<in> set evs" "found_in n ba = Some (swaps, arbs)" "a \<in> set arbs" "x = arb_to_row a"
    unfolding in_recorded by (elim exE conjE)
  have "honest_answers chain (n, ba)" using assms(2) x(1) by blast
  from conjunct1 [OF found_arbs [OF assms(1) this x(2)]] x(3)
  obtain r where r: "r \<in> set (snd (chain n))" "arb_at chain n r = Some a" by blast
  have "n \<in> went_through evs" unfolding went_through_def using x(1,2) process_found [of n ba fresh_state] by auto
  with r x(4) arb_at_some [OF r(2)] show "x \<in> {row_at chain n r |n r. n \<in> went_through evs \<and> r \<in> set (snd (chain n)) \<and> closed_loop (values_at chain n) (det_of r)}"
    by (auto simp: row_at_def intro!: exI [of _ n] exI [of _ r])
next
  fix x assume "x \<in> {row_at chain n r |n r. n \<in> went_through evs \<and> r \<in> set (snd (chain n)) \<and> closed_loop (values_at chain n) (det_of r)}"
  then obtain n r where r: "x = row_at chain n r" "n \<in> went_through evs" "r \<in> set (snd (chain n))" "closed_loop (values_at chain n) (det_of r)" by blast
  obtain a where a: "arb_at chain n r = Some a" by (rule arb_at_closed [OF assms r(2-4)])
  obtain ba where ba: "(n, ba) \<in> set evs" "found_in n ba \<noteq> None" using r(2) process_found by (auto simp: went_through_def)
  obtain swaps arbs where f: "found_in n ba = Some (swaps, arbs)" using ba(2) by auto
  have "honest_answers chain (n, ba)" using assms(2) ba(1) by blast
  from conjunct1 [OF found_arbs [OF assms(1) this f]] r(3) a have "a \<in> set arbs" by blast
  moreover have "x = arb_to_row a" by (simp add: r(1) row_at_def a)
  ultimately show "x \<in> set (recorded evs)" unfolding in_recorded using ba(1) f by (intro exI conjI)
qed

lemma counted_arb:
  assumes "chain_ok chain" "\<forall>ev \<in> set evs. honest_answers chain ev" "n \<in> went_through evs" "counted chain pools n r"
  shows "\<exists>a. arb_at chain n r = Some a"
  using arb_at_closed [OF assms(1-3)] assms(4) by (auto simp: counted_def)

lemma rows_selected:
  assumes "chain_ok chain" "\<forall>ev \<in> set evs. honest_answers chain ev"
  shows "{x \<in> set (recorded evs). touching pools x \<and> (Q \<longrightarrow> rw_quote x)} =
      {row_at chain n r |n r. n \<in> went_through evs \<and> counted chain pools n r \<and> (Q \<longrightarrow> in_quote chain n r)}"
proof (intro set_eqI iffI; elim CollectE exE conjE)
  fix x assume x: "x \<in> set (recorded evs)" "touching pools x" "Q \<longrightarrow> rw_quote x"
  obtain n r where nr: "x = row_at chain n r" "n \<in> went_through evs" "r \<in> set (snd (chain n))" "closed_loop (values_at chain n) (det_of r)"
    using x(1) unfolding recorded_rows [OF assms] by blast
  from arb_at_closed [OF assms nr(2-4)] obtain a where "arb_at chain n r = Some a" .
  note f = row_at_fields [OF this]
  have "counted chain pools n r" "Q \<longrightarrow> in_quote chain n r" using x(2,3) nr by (simp_all add: f counted_def)
  with nr show "x \<in> {row_at chain n r |n r. n \<in> went_through evs \<and> counted chain pools n r \<and> (Q \<longrightarrow> in_quote chain n r)}" by blast
next
  fix x n r assume nr: "x = row_at chain n r" "n \<in> went_through evs" "counted chain pools n r" "Q \<longrightarrow> in_quote chain n r"
  from nr(3) have c: "r \<in> set (snd (chain n))" "closed_loop (values_at chain n) (det_of r)" by (simp_all add: counted_def)
  from arb_at_closed [OF assms nr(2) c] obtain a where "arb_at chain n r = Some a" .
  note f = row_at_fields [OF this]
  have "touching pools x" "Q \<longrightarrow> rw_quote x" using nr(3,4) by (simp_all add: nr(1) f counted_def)
  with nr c show "x \<in> {x \<in> set (recorded evs). touching pools x \<and> (Q \<longrightarrow> rw_quote x)}" unfolding recorded_rows [OF assms] by blast
qed

lemma recorded_one_row:
  assumes "chain_ok chain" "\<forall>ev \<in> set evs. honest_answers chain ev"
  shows "one_row (recorded evs)"
  unfolding one_row_def
proof (intro ballI impI)
  fix x x' assume x: "x \<in> set (recorded evs)" "x' \<in> set (recorded evs)" "rw_tx x = rw_tx x'"
  obtain n r where nr: "x = row_at chain n r" "n \<in> went_through evs" "r \<in> set (snd (chain n))" "closed_loop (values_at chain n) (det_of r)"
    using x(1) unfolding recorded_rows [OF assms] by blast
  obtain m q where mq: "x' = row_at chain m q" "m \<in> went_through evs" "q \<in> set (snd (chain m))" "closed_loop (values_at chain m) (det_of q)"
    using x(2) unfolding recorded_rows [OF assms] by blast
  obtain a where a: "arb_at chain n r = Some a" by (rule arb_at_closed [OF assms nr(2-4)])
  obtain b where b: "arb_at chain m q = Some b" by (rule arb_at_closed [OF assms mq(2-4)])
  have "kr_tx r = kr_tx q" using x(3) by (simp add: nr(1) mq(1) row_at_fields [OF a] row_at_fields [OF b])
  with nr(3) mq(3) assms(1) have "n = m \<and> r = q" unfolding chain_ok_def by blast
  with nr(1) mq(1) show "x = x'" by simp
qed

lemma rows_count:
  assumes "chain_ok chain" "\<forall>ev \<in> set evs. honest_answers chain ev"
  shows "card {x \<in> set (recorded evs). touching pools x \<and> (Q \<longrightarrow> rw_quote x)} =
      card {kr_tx r |n r. n \<in> went_through evs \<and> counted chain pools n r \<and> (Q \<longrightarrow> in_quote chain n r)}"
    and "rw_sender ` {x \<in> set (recorded evs). touching pools x} = {lower (kr_from r) |n r. n \<in> went_through evs \<and> counted chain pools n r}"
proof -
  have "rw_tx (row_at chain n r) = kr_tx r \<and> rw_sender (row_at chain n r) = lower (kr_from r)" if "n \<in> went_through evs" "counted chain pools n r" for n r
    using counted_arb [OF assms that] row_at_fields by blast
  then have t: "rw_tx ` {row_at chain n r |n r. n \<in> went_through evs \<and> counted chain pools n r \<and> P n r} = {kr_tx r |n r. n \<in> went_through evs \<and> counted chain pools n r \<and> P n r}"
    and s: "rw_sender ` {row_at chain n r |n r. n \<in> went_through evs \<and> counted chain pools n r} = {lower (kr_from r) |n r. n \<in> went_through evs \<and> counted chain pools n r}" for P
    by (force simp: image_iff)+
  have "inj_on rw_tx {x \<in> set (recorded evs). touching pools x \<and> (Q \<longrightarrow> rw_quote x)}"
    using recorded_one_row [OF assms] by (auto simp: one_row_def inj_on_def)
  from card_image [OF this] show "card {x \<in> set (recorded evs). touching pools x \<and> (Q \<longrightarrow> rw_quote x)} =
      card {kr_tx r |n r. n \<in> went_through evs \<and> counted chain pools n r \<and> (Q \<longrightarrow> in_quote chain n r)}"
    unfolding rows_selected [OF assms] t by simp
  show "rw_sender ` {x \<in> set (recorded evs). touching pools x} = {lower (kr_from r) |n r. n \<in> went_through evs \<and> counted chain pools n r}"
    using rows_selected [OF assms, of pools False] s by simp
qed

text \<open>
  C10: After any run over a chain, whatever requests fail and however often a block comes again, the index
  counts every arbitrage of the blocks that went through once: the figures of a set of pools (of all where
  none is given) are the number of transactions there that are closed loops, of their senders, and of those
  that gained a quote token.
\<close>

theorem index_counts_each_arb_once:
  assumes "chain_ok chain" "\<forall>ev \<in> set evs. honest_answers chain ev"
  shows "\<exists>lk. pool_leakage (wt_index (process_blocks evs)) pools = Some lk \<and>
    lk_arbs lk = card {kr_tx r |n r. n \<in> went_through evs \<and> counted chain pools n r} \<and>
    lk_searchers lk = card {lower (kr_from r) |n r. n \<in> went_through evs \<and> counted chain pools n r} \<and>
    lk_priced lk = card {kr_tx r |n r. n \<in> went_through evs \<and> counted chain pools n r \<and> in_quote chain n r}"
proof -
  have one: "one_row (recorded evs)" by (rule recorded_one_row [OF assms])
  have "\<forall>x \<in> set (recorded evs). \<forall>w. rw_wei x = Some w \<longrightarrow> big_int w \<noteq> None" by (auto simp: in_recorded arb_to_row_def)
  then obtain lk where lk: "pool_leakage (insert_arbs (recorded evs) empty_index) pools = Some lk" by (rule leakage_readable [OF one])
  have "pool_leakage (wt_index (process_blocks evs)) pools = Some lk"
    using process_blocks_index [of evs] lk leakage_tables [of "wt_index (process_blocks evs)"] by metis
  then show ?thesis
    using leakage_counts [OF one lk] rows_count [OF assms, where pools = pools] rows_count(1) [OF assms, where pools = pools and Q = False]
      rows_count(1) [OF assms, where pools = pools and Q = True] by simp
qed

section \<open>A block that fails and comes again\<close>

definition raw_transfer :: "string \<Rightarrow> string \<Rightarrow> string \<Rightarrow> node_log" where
  "raw_transfer src dst data =
     \<lparr>kl_address = usdg, kl_topics = [transfer_topic, replicate 26 (CHR ''0'') @ drop 2 src, replicate 26 (CHR ''0'') @ drop 2 dst], kl_data = data,
      kl_index = None, kl_tx = None\<rparr>"

definition raw_swap :: "string \<Rightarrow> node_log" where
  "raw_swap pool =
     \<lparr>kl_address = pool, kl_topics = [''0xd78ad95fa46c994b6551d0da85fc275fe613ce37657fb8d5e3d130840159d822''], kl_data = ''0x'', kl_index = None, kl_tx = None\<rparr>"

definition raw_arb :: raw_receipt where
  "raw_arb =
     \<lparr>kr_tx = ''0xe'', kr_index = AsNumber 1, kr_from = demo_searcher, kr_to = None, kr_gas_used = ''0x2'', kr_gas_price = None, kr_status = AsText ''0x1'',
      kr_logs = [raw_swap ''0xP1'', raw_transfer demo_searcher ''0xc'' ''0x10'', raw_swap ''0xp2'', raw_transfer ''0xc'' demo_searcher ''0x1a'']\<rparr>"

definition raw_block :: chain_block where
  "raw_block = \<lparr>cb_time = 60, cb_txs = [\<lparr>xt_hash = Some ''0xe'', xt_value = Some ''0x0''\<rparr>]\<rparr>"

definition demo_chain_of :: block_chain where
  "demo_chain_of n = (if n = 7 then (raw_block, [raw_arb]) else (\<lparr>cb_time = 0, cb_txs = []\<rparr>, []))"

definition demo_answers :: "string + raw_receipt list \<Rightarrow> int \<times> block_answers" where
  "demo_answers rs = (7, \<lparr>ba_block = Some (Some raw_block), ba_receipts = rs, ba_receipt = (\<lambda>h. None)\<rparr>)"

definition demo_evs :: "(int \<times> block_answers) list" where
  "demo_evs = [demo_answers (Inl ''rate limited''), demo_answers (Inr [raw_arb]), demo_answers (Inr [raw_arb])]"

theorem index_counts_each_arb_once_witness:
  "swap_count (wt_index (process_blocks demo_evs)) = Some 4 \<and>
   card {kr_tx r |n r. n \<in> went_through demo_evs \<and> counted demo_chain_of [''0xP2''] n r} = 1"
proof -
  have ok: "chain_ok demo_chain_of" by (simp add: chain_ok_def demo_chain_of_def raw_block_def)
  have answers: "read_receipts (snd (demo_answers rs)) raw_block = (case rs of Inr x \<Rightarrow> Some x | Inl msg \<Rightarrow> if method_missing msg then None else None)" for rs
    by (simp add: read_receipts_def demo_answers_def raw_block_def split: sum.split)
  have honest: "\<forall>ev \<in> set demo_evs. honest_answers demo_chain_of ev"
    using answers by (simp add: demo_evs_def honest_answers_def) (simp add: demo_answers_def demo_chain_of_def)
  have n: "map_option lk_arbs (pool_leakage (wt_index (process_blocks demo_evs)) [''0xP2'']) = Some 1" by code_simp
  have "swap_count (wt_index (process_blocks demo_evs)) = Some 4" by code_simp
  with n index_counts_each_arb_once [OF ok honest, of "[''0xP2'']"] show ?thesis by (simp only: option.map) (elim exE conjE, simp)
qed

end
