(* ===== verification/Spec2Isabelle.thy ===== *)
theory Spec2Isabelle
  imports Prelude Hints Receipt Auctioneer Ledger Bonds ReceiptLog ReceiptAudit AuctionMain AuctionService
    Solver BatchSolve BatchChain Batcher BatchRuns
    Json Caches MicroCache FastPath LoadLimits Hedging Upstream Guard Protect GetLogs
    Subscribe HubContract WatchRuns WebSocket Access Billing Gateway
    HexWords Liquidity LadderPlan LadderBudget SplitLadder Stealth StealthProofs
    Chain Venues Searcher SearcherProofs
    Tables Candles Tape V4Index V4Walk WatchLoop Detect ArbIndex BlockWork BlockRuns
begin

text \<open>
  A verification development for OrdoFi.
\<close>

end
